(* ===== verification/Prelude.thy ===== *)
theory Prelude imports
  Complex_Main
  "HOL-Library.Word"
  "HOL-Library.Multiset"
  "HOL-Library.Monad_Syntax"
begin

section \<open>Prelude: types, fact collections and shared lemmas\<close>

text \<open>
  Names for the machine integers of the C++ sources, the two fact collections the component
  theories extend, and the generic lemmas on lists, words and options that several of them share.
  A value of type \<^typ>\<open>'a option\<close> whose \<open>None\<close> stands for undefined behaviour or
  an access outside a buffer is threaded with \<open>Option.bind\<close> (do-notation).
\<close>

type_synonym u8 = "8 word"
type_synonym u16 = "16 word"
type_synonym u32 = "32 word"
type_synonym u64 = "64 word"

text \<open>
  \<open>table_simps\<close>: what a lookup sees after an update of a hash table. \<open>cursor_simps\<close>: how a
  decoding step moves the read cursor. \<open>engine_intros\<close>: operations that keep an invariant of
  the execution engine.
\<close>

named_theorems table_simps
named_theorems cursor_simps
named_theorems engine_intros

subsection \<open>The host's byte order\<close>

text \<open>
  \<open>boost::endian\<close> conversions and \<open>reinterpret_cast\<close> loads depend on the byte order of the
  machine; the codecs take it as an argument.
\<close>

datatype endian = Little_Endian | Big_Endian

subsection \<open>Errors\<close>

text \<open>An exception leaves the rest of a computation out.\<close>

definition and_then :: "'e + 'a \<Rightarrow> ('a \<Rightarrow> 'e + 'b) \<Rightarrow> 'e + 'b" where
  "and_then r f = (case r of Inl e \<Rightarrow> Inl e | Inr x \<Rightarrow> f x)"

lemma and_then_simps [simp]: "and_then (Inl e) f = Inl e" "and_then (Inr x) f = f x"
  by (simp_all add: and_then_def)

lemma and_then_Inr_iff: "and_then r f = Inr y \<longleftrightarrow> (\<exists>x. r = Inr x \<and> f x = Inr y)"
  by (cases r) simp_all

subsection \<open>Lists\<close>

lemma map_of_filter_keys:
  "map_of (filter (\<lambda>e. fst e \<noteq> k) t) k' = (if k' = k then None else map_of t k')"
  by (induction t) auto

lemma distinct_map_filter_fst: "distinct (map fst t) \<Longrightarrow> distinct (map fst (filter P t))"
  by (induction t) auto

lemma sorted_map_snoc:
  "sorted (map f (xs @ [x])) \<longleftrightarrow> sorted (map f xs) \<and> (\<forall>y\<in>set xs. f y \<le> f x)"
  by (auto simp: sorted_append)

lemma mset_eq_length_map: "mset xs = mset ys \<Longrightarrow> sum_list (map f xs) = sum_list (map (f :: 'a \<Rightarrow> 'b::comm_monoid_add) ys)"
  by (metis mset_map sum_mset_sum_list)

text \<open>Two association lists with distinct keys and the same lookups hold the same entries.\<close>

lemma mset_eq_of_map_of_eq:
  assumes "distinct (map fst xs)" and "distinct (map fst ys)" and "map_of xs = map_of ys"
  shows "mset xs = mset ys"
proof -
  have "set xs = set ys"
    using assms by (metis map_of_inject_set)
  moreover have "distinct xs" and "distinct ys"
    using assms(1,2) by (simp_all add: distinct_map)
  ultimately show ?thesis
    by (simp add: set_eq_iff_mset_eq_distinct)
qed

lemma map_of_eq_of_mset_eq:
  assumes "distinct (map fst xs)" and "mset xs = mset ys"
  shows "map_of xs = map_of ys"
proof -
  have "distinct (map fst ys)"
    using assms by (metis mset_eq_imp_distinct_iff mset_map)
  then show ?thesis
    using assms by (metis map_of_inject_set mset_eq_setD)
qed

subsection \<open>Machine words\<close>

lemma unat_sub_le: "unat (b :: 'a::len word) \<le> unat a \<Longrightarrow> unat (a - b) = unat a - unat b"
  by (simp add: unat_sub word_le_nat_alt)

lemma unat_of_nat_small: "n < 2 ^ LENGTH('a::len) \<Longrightarrow> unat (of_nat n :: 'a word) = n"
  by (simp add: unat_of_nat take_bit_nat_eq_self)

end
