(* ===== verification/Itch_Tags.thy ===== *)
theory Itch_Tags imports
  Prelude
begin

section \<open>ITCH tags: codes, names and wire sizes\<close>

text \<open>
  The static part of every message struct of \<open>src/src/nasdaq_exec/itch_messages.hpp\<close>: its one
  character code, its printable name and its size on the wire, with the list of pairs of a code and a
  struct that the header builds at compile time. The sizes of the decoded messages are the sums of the
  \<open>sizeof\<close> of their members, written out in the order of the source.
\<close>

record message_info =
  mi_code :: char
  mi_name :: string
  mi_size :: nat

definition timestamp_stored_size :: nat where
  "timestamp_stored_size = 6"

definition price_stored_size :: nat where
  "price_stored_size = 4"

definition system_event :: message_info where
  "system_event =
     \<lparr>mi_code = CHR ''S'', mi_name = ''system event'',
      mi_size = 1 + 2 + 2 + 6 + 1\<rparr>"

definition stock_directory_size :: nat where
  "stock_directory_size = 1 + 2 + 2 + timestamp_stored_size + 8 + 1 + 1 + 4 + 1 + 1 + 2 + 1 + 1 + 1 + 1 + 1 + 4 + 1"

definition stock_directory :: message_info where
  "stock_directory = \<lparr>mi_code = CHR ''R'', mi_name = ''stock directory'', mi_size = stock_directory_size\<rparr>"

definition stock_trading_action :: message_info where
  "stock_trading_action =
     \<lparr>mi_code = CHR ''H'', mi_name = ''stock trading action'',
      mi_size = 1 + 2 + 2 + 6 + 8 + 1 + 1 + 4\<rparr>"

definition reg_sho_sale_price_test :: message_info where
  "reg_sho_sale_price_test =
     \<lparr>mi_code = CHR ''Y'', mi_name = ''reg SHO short sale price test'',
      mi_size = 1 + 2 + 2 + 6 + 1\<rparr>"

definition market_participant_position :: message_info where
  "market_participant_position =
     \<lparr>mi_code = CHR ''L'', mi_name = ''market participant position'',
      mi_size = 1 + 2 + 2 + 6 + 4 + 8 + 1 + 1 + 1\<rparr>"

definition mwcb_decline_level :: message_info where
  "mwcb_decline_level =
     \<lparr>mi_code = CHR ''V'', mi_name = ''MWCB decline level'',
      mi_size = 1 + 2 + 2 + 6 + 8 + 8 + 8\<rparr>"

definition mwcb_status :: message_info where
  "mwcb_status =
     \<lparr>mi_code = CHR ''W'', mi_name = ''MWCB status'',
      mi_size = 1 + 2 + 2 + 6 + 1\<rparr>"

definition ipo_quoting_period_update :: message_info where
  "ipo_quoting_period_update =
     \<lparr>mi_code = CHR ''K'', mi_name = ''IPO quoting period update'',
      mi_size = 1 + 2 + 2 + 6 + 8 + 4 + 1 + 4\<rparr>"

definition luld_auction_collar :: message_info where
  "luld_auction_collar =
     \<lparr>mi_code = CHR ''J'', mi_name = ''LULD auction collar'',
      mi_size = 1 + 2 + 2 + 6 + 8 + 4 + 4 + 4 + 4\<rparr>"

definition operational_halt :: message_info where
  "operational_halt =
     \<lparr>mi_code = CHR ''h'', mi_name = ''Operational halt'',
      mi_size = 2 + 2 + 6 + 8 + 1 + 1\<rparr>"

definition add_order_without_attribution_size :: nat where
  "add_order_without_attribution_size = 1 + 2 + 2 + timestamp_stored_size + 8 + 1 + 4 + 8 + price_stored_size"

definition add_order_without_attribution :: message_info where
  "add_order_without_attribution = \<lparr>mi_code = CHR ''A'', mi_name = ''Add order without attribution'', mi_size = add_order_without_attribution_size\<rparr>"

definition add_order_with_attribution_size :: nat where
  "add_order_with_attribution_size = 1 + 2 + 2 + timestamp_stored_size + 8 + 1 + 4 + 8 + price_stored_size + 4"

definition add_order_with_attribution :: message_info where
  "add_order_with_attribution = \<lparr>mi_code = CHR ''F'', mi_name = ''Add order with attribution'', mi_size = add_order_with_attribution_size\<rparr>"

definition order_executed_size :: nat where
  "order_executed_size = 1 + 2 + 2 + timestamp_stored_size + 8 + 4 + 8"

definition order_executed :: message_info where
  "order_executed = \<lparr>mi_code = CHR ''E'', mi_name = ''Order executed'', mi_size = order_executed_size\<rparr>"

definition order_executed_with_price_size :: nat where
  "order_executed_with_price_size = 1 + 2 + 2 + timestamp_stored_size + 8 + 4 + 8 + 1 + price_stored_size"

definition order_executed_with_price :: message_info where
  "order_executed_with_price = \<lparr>mi_code = CHR ''C'', mi_name = ''Order executed with price'', mi_size = order_executed_with_price_size\<rparr>"

definition order_cancel_size :: nat where
  "order_cancel_size = 1 + 2 + 2 + timestamp_stored_size + 8 + 4"

definition order_cancel :: message_info where
  "order_cancel = \<lparr>mi_code = CHR ''X'', mi_name = ''Order cancel'', mi_size = order_cancel_size\<rparr>"

definition order_delete_size :: nat where
  "order_delete_size = 1 + 2 + 2 + timestamp_stored_size + 8"

definition order_delete :: message_info where
  "order_delete = \<lparr>mi_code = CHR ''D'', mi_name = ''Order delete'', mi_size = order_delete_size\<rparr>"

definition order_replace_size :: nat where
  "order_replace_size = 1 + 2 + 2 + timestamp_stored_size + 8 + 8 + 4 + price_stored_size"

definition order_replace :: message_info where
  "order_replace = \<lparr>mi_code = CHR ''U'', mi_name = ''Order replace'', mi_size = order_replace_size\<rparr>"

definition trade_non_cross_size :: nat where
  "trade_non_cross_size = 1 + 2 + 2 + timestamp_stored_size + 8 + 1 + 4 + 8 + price_stored_size + 8"

definition trade_non_cross :: message_info where
  "trade_non_cross = \<lparr>mi_code = CHR ''P'', mi_name = ''Trade non cross'', mi_size = trade_non_cross_size\<rparr>"

definition trade_cross_size :: nat where
  "trade_cross_size = 1 + 2 + 2 + timestamp_stored_size + 8 + 8 + price_stored_size + 8 + 1"

definition trade_cross :: message_info where
  "trade_cross = \<lparr>mi_code = CHR ''Q'', mi_name = ''Trade cross'', mi_size = trade_cross_size\<rparr>"

definition broken_trade_order_size :: nat where
  "broken_trade_order_size = 1 + 2 + 2 + timestamp_stored_size + 8"

definition broken_trade_order :: message_info where
  "broken_trade_order = \<lparr>mi_code = CHR ''B'', mi_name = ''Broken trade order'', mi_size = broken_trade_order_size\<rparr>"

definition noii :: message_info where
  "noii =
     \<lparr>mi_code = CHR ''I'', mi_name = ''NOII'',
      mi_size = 1 + 2 + 2 + 6 + 1\<rparr>"

definition rpii :: message_info where
  "rpii =
     \<lparr>mi_code = CHR ''N'', mi_name = ''RPII'',
      mi_size = 1 + 2 + 2 + 6 + 1\<rparr>"

definition eot :: message_info where
  "eot =
     \<lparr>mi_code = CHR ''_'', mi_name = ''End of transmission'',
      mi_size = 0\<rparr>"

definition complete_list :: "message_info list" where
  "complete_list =
     [system_event,
      stock_directory,
      stock_trading_action,
      reg_sho_sale_price_test,
      market_participant_position,
      mwcb_decline_level,
      mwcb_status,
      ipo_quoting_period_update,
      luld_auction_collar,
      operational_halt,
      add_order_without_attribution,
      add_order_with_attribution,
      order_executed,
      order_executed_with_price,
      order_cancel,
      order_delete,
      order_replace,
      trade_non_cross,
      trade_cross,
      broken_trade_order,
      noii,
      rpii,
      eot]"

text \<open>
  The pairs \<open>the_map_maker\<close> makes of the structs. They stay a list: \<open>message_type_by_code\<close> looks a code up in
  it with \<open>brigand::lookup\<close>, which only a \<open>brigand::map\<close> has the \<open>at\<close> for, so that alias would not compile
  where it is used. Nothing uses it, and it has no model here.
\<close>

definition code_to_message_map :: "(char \<times> message_info) list" where
  "code_to_message_map = map (\<lambda>m. (mi_code m, m)) complete_list"

lemmas tag_defs =
  system_event_def stock_directory_def stock_trading_action_def
  reg_sho_sale_price_test_def market_participant_position_def mwcb_decline_level_def
  mwcb_status_def ipo_quoting_period_update_def luld_auction_collar_def
  operational_halt_def add_order_without_attribution_def add_order_with_attribution_def
  order_executed_def order_executed_with_price_def order_cancel_def
  order_delete_def order_replace_def trade_non_cross_def
  trade_cross_def broken_trade_order_def noii_def
  rpii_def eot_def

lemmas size_defs = timestamp_stored_size_def price_stored_size_def
  stock_directory_size_def
  add_order_without_attribution_size_def
  add_order_with_attribution_size_def
  order_executed_size_def
  order_executed_with_price_size_def
  order_cancel_size_def
  order_delete_size_def
  order_replace_size_def
  trade_non_cross_size_def
  trade_cross_size_def
  broken_trade_order_size_def

lemma complete_list_codes_distinct: "distinct (map mi_code complete_list)"
  by (simp add: complete_list_def tag_defs)

lemma code_to_message_map_entry:
  assumes "m \<in> set complete_list"
  shows "filter (\<lambda>p. fst p = mi_code m) code_to_message_map = [(mi_code m, m)]"
proof -
  have "distinct (map mi_code ms) \<Longrightarrow> m \<in> set ms \<Longrightarrow> filter (\<lambda>x. mi_code x = mi_code m) ms = [m]" for ms
    by (induction ms) (auto simp: filter_empty_conv image_iff)
  then show ?thesis
    using assms complete_list_codes_distinct by (simp add: code_to_message_map_def filter_map comp_def)
qed

end
