(* ===== verification/Tables.thy ===== *)
theory Tables imports
  Prelude
begin

section \<open>Tables: the associative containers the programs use\<close>

text \<open>
  The programs keep their state in hash tables (\<open>robin_hood::unordered_flat_map\<close> for the order
  maps of the engine, \<open>std::unordered_map\<close> in the simulator). A table is modelled by the list of
  its entries in the order a range-for visits them. Where a new entry lands in that order depends
  on the hash function and on the table's history, so nothing the development proves may rest on it:
  \<open>same_table\<close> relates two tables that differ only in the order, and the component theories prove
  that their operations and their results respect it. The locale \<open>hash_table\<close> is the interface
  the clients rely on.
\<close>

subsection \<open>The interface\<close>

locale hash_table =
  fixes find :: "'k \<Rightarrow> 't \<Rightarrow> 'v option"
    and emplace :: "'k \<Rightarrow> 'v \<Rightarrow> 't \<Rightarrow> 't"
    and assign :: "'k \<Rightarrow> 'v \<Rightarrow> 't \<Rightarrow> 't"
    and erase :: "'k \<Rightarrow> 't \<Rightarrow> 't"
    and entries :: "'t \<Rightarrow> ('k \<times> 'v) list"
    and ok :: "'t \<Rightarrow> bool"
  assumes ok_emplace: "ok t \<Longrightarrow> ok (emplace k v t)"
    and ok_assign: "ok t \<Longrightarrow> ok (assign k v t)"
    and ok_erase: "ok t \<Longrightarrow> ok (erase k t)"
    and find_emplace: "ok t \<Longrightarrow> find k' (emplace k v t) =
          (if k' = k then (case find k t of None \<Rightarrow> Some v | Some w \<Rightarrow> Some w) else find k' t)"
    and find_assign: "ok t \<Longrightarrow> find k t = Some w \<Longrightarrow>
          find k' (assign k v t) = (if k' = k then Some v else find k' t)"
    and find_erase: "ok t \<Longrightarrow> find k' (erase k t) = (if k' = k then None else find k' t)"
    and find_entries: "ok t \<Longrightarrow> map_of (entries t) k = find k t"
    and distinct_keys: "ok t \<Longrightarrow> distinct (map fst (entries t))"
begin

lemmas preserves = ok_emplace ok_assign ok_erase

lemmas lookups = find_emplace find_assign find_erase

lemma in_entries_iff: "ok t \<Longrightarrow> (k, v) \<in> set (entries t) \<longleftrightarrow> find k t = Some v"
  using find_entries [of t k] distinct_keys [of t] by (metis map_of_eq_Some_iff)

text \<open>The lookups determine the entries, up to the order of a visit.\<close>

lemma entries_determined:
  assumes "ok t" and "ok t'" and "\<And>k. find k t = find k t'"
  shows "mset (entries t) = mset (entries t')"
proof (rule mset_eq_of_map_of_eq)
  show "map_of (entries t) = map_of (entries t')"
    using assms by (intro ext) (simp add: find_entries)
qed (use assms distinct_keys in simp_all)

lemma mset_entries_erase:
  assumes "ok t" and "find k t = Some v"
  shows "mset (entries t) = add_mset (k, v) (mset (entries (erase k t)))"
proof -
  let ?rest = "entries (erase k t)"
  have d: "distinct (map fst ((k, v) # ?rest))"
    using assms in_entries_iff [OF ok_erase [OF assms(1), of k]] distinct_keys [OF ok_erase [OF assms(1), of k]]
    by (auto simp: find_erase)
  have "mset (entries t) = mset ((k, v) # ?rest)"
  proof (rule mset_eq_of_map_of_eq [OF distinct_keys [OF assms(1)] d])
    show "map_of (entries t) = map_of ((k, v) # ?rest)"
      using assms by (intro ext) (simp add: find_entries find_erase ok_erase)
  qed
  then show ?thesis by simp
qed

lemma mset_entries_emplace_new:
  assumes "ok t" and "find k t = None"
  shows "mset (entries (emplace k v t)) = add_mset (k, v) (mset (entries t))"
proof -
  have "mset (entries (erase k (emplace k v t))) = mset (entries t)"
    using assms by (intro entries_determined) (simp_all add: preserves lookups)
  moreover have "find k (emplace k v t) = Some v"
    using assms by (simp add: find_emplace)
  ultimately show ?thesis
    using mset_entries_erase [of "emplace k v t" k v] assms(1) by (simp add: ok_emplace)
qed

lemma mset_entries_emplace_old:
  assumes "ok t" and "find k t = Some w"
  shows "mset (entries (emplace k v t)) = mset (entries t)"
  using assms by (intro entries_determined) (simp_all add: preserves lookups)

lemma mset_entries_assign:
  assumes "ok t" and "find k t = Some w"
  shows "mset (entries (assign k v t)) = add_mset (k, v) (mset (entries (erase k t)))"
proof -
  have "mset (entries (erase k (assign k v t))) = mset (entries (erase k t))"
    using assms by (intro entries_determined) (simp_all add: preserves find_erase find_assign)
  moreover have "find k (assign k v t) = Some v"
    using assms by (simp add: find_assign)
  ultimately show ?thesis
    using mset_entries_erase [of "assign k v t" k v] assms(1) by (simp add: ok_assign)
qed

text \<open>Totals over the entries: what each update adds or takes away.\<close>

lemma total_erase:
  assumes "ok t" and "find k t = Some v"
  shows "sum_list (map f (entries t)) = f (k, v) + (sum_list (map f (entries (erase k t))) :: nat)"
  using arg_cong [OF mset_entries_erase [OF assms], of "\<lambda>m. sum_mset (image_mset f m)"]
  by (simp add: sum_mset_sum_list flip: mset_map)

lemma total_emplace_new:
  assumes "ok t" and "find k t = None"
  shows "sum_list (map f (entries (emplace k v t))) = f (k, v) + (sum_list (map f (entries t)) :: nat)"
  using arg_cong [OF mset_entries_emplace_new [OF assms, of v], of "\<lambda>m. sum_mset (image_mset f m)"]
  by (simp add: sum_mset_sum_list flip: mset_map)

lemma total_assign:
  assumes "ok t" and "find k t = Some w"
  shows "sum_list (map f (entries (assign k v t))) + f (k, w) =
         f (k, v) + (sum_list (map f (entries t)) :: nat)"
  using arg_cong [OF mset_entries_assign [OF assms, of v], of "\<lambda>m. sum_mset (image_mset f m)"]
    total_erase [OF assms, of f]
  by (simp add: sum_mset_sum_list flip: mset_map)

end

subsection \<open>Tables as entry lists\<close>

type_synonym ('k, 'v) table = "('k \<times> 'v) list"

definition tbl_ok :: "('k, 'v) table \<Rightarrow> bool" where
  "tbl_ok t \<longleftrightarrow> distinct (map fst t)"

definition tbl_find :: "'k \<Rightarrow> ('k, 'v) table \<Rightarrow> 'v option" where
  "tbl_find k t = map_of t k"

text \<open>\<open>emplace\<close> and \<open>insert\<close> leave an entry whose key is already there as it is.\<close>

definition tbl_emplace :: "'k \<Rightarrow> 'v \<Rightarrow> ('k, 'v) table \<Rightarrow> ('k, 'v) table" where
  "tbl_emplace k v t = (case map_of t k of None \<Rightarrow> t @ [(k, v)] | Some _ \<Rightarrow> t)"

text \<open>Writing through the iterator a lookup returned: \<open>it->second = v\<close>.\<close>

definition tbl_assign :: "'k \<Rightarrow> 'v \<Rightarrow> ('k, 'v) table \<Rightarrow> ('k, 'v) table" where
  "tbl_assign k v t = map (\<lambda>e. if fst e = k then (k, v) else e) t"

definition tbl_erase :: "'k \<Rightarrow> ('k, 'v) table \<Rightarrow> ('k, 'v) table" where
  "tbl_erase k t = filter (\<lambda>e. fst e \<noteq> k) t"

definition tbl_entries :: "('k, 'v) table \<Rightarrow> ('k \<times> 'v) list" where
  "tbl_entries t = t"

lemma map_of_assign:
  "map_of (tbl_assign k v t) k' =
     (if k' = k \<and> map_of t k \<noteq> None then Some v else map_of t k')"
  unfolding tbl_assign_def by (induction t) auto

lemma fst_assign: "map fst (tbl_assign k v t) = map fst t"
  unfolding tbl_assign_def by (induction t) auto

interpretation tbl: hash_table tbl_find tbl_emplace tbl_assign tbl_erase tbl_entries tbl_ok
proof unfold_locales
  show "tbl_ok (tbl_emplace k v t)" if "tbl_ok t" for k v and t :: "('a, 'b) table"
    using that by (auto simp: tbl_ok_def tbl_emplace_def map_of_eq_None_iff split: option.splits)
  show "tbl_ok (tbl_assign k v t)" if "tbl_ok t" for k v and t :: "('a, 'b) table"
    using that by (simp add: tbl_ok_def fst_assign)
  show "tbl_ok (tbl_erase k t)" if "tbl_ok t" for k and t :: "('a, 'b) table"
    using that by (simp add: tbl_ok_def tbl_erase_def distinct_map_filter_fst)
qed (auto simp: tbl_find_def tbl_emplace_def tbl_erase_def tbl_entries_def tbl_ok_def map_of_assign
    map_of_filter_keys map_add_def split: option.splits)

declare tbl.lookups [table_simps]
declare tbl.preserves [table_simps]

lemma tbl_ok_Nil [simp]: "tbl_ok []"
  by (simp add: tbl_ok_def)

lemma tbl_find_Nil [simp]: "tbl_find k [] = None"
  by (simp add: tbl_find_def)

subsection \<open>Tables that differ only in the order of a visit\<close>

definition same_table :: "('k, 'v) table \<Rightarrow> ('k, 'v) table \<Rightarrow> bool" where
  "same_table t t' \<longleftrightarrow> tbl_ok t \<and> tbl_ok t' \<and> (\<forall>k. tbl_find k t = tbl_find k t')"

lemma same_table_iff_mset: "same_table t t' \<longleftrightarrow> tbl_ok t \<and> mset t = mset t'"
proof
  assume "same_table t t'"
  then show "tbl_ok t \<and> mset t = mset t'"
    using tbl.entries_determined [of t t'] by (auto simp: same_table_def tbl_entries_def)
next
  assume a: "tbl_ok t \<and> mset t = mset t'"
  then have "tbl_ok t'"
    by (metis tbl_ok_def mset_eq_imp_distinct_iff mset_map)
  then show "same_table t t'"
    using a map_of_eq_of_mset_eq [of t t'] by (simp add: same_table_def tbl_find_def tbl_ok_def)
qed

lemma same_table_refl: "tbl_ok t \<Longrightarrow> same_table t t"
  by (simp add: same_table_def)

lemma same_table_sym: "same_table t t' \<Longrightarrow> same_table t' t"
  by (simp add: same_table_def)

lemma same_table_emplace: "same_table t t' \<Longrightarrow> same_table (tbl_emplace k v t) (tbl_emplace k v t')"
  by (simp add: same_table_def table_simps)

lemma same_table_assign:
  "same_table t t' \<Longrightarrow> tbl_find k t = Some w \<Longrightarrow> same_table (tbl_assign k v t) (tbl_assign k v t')"
  by (simp add: same_table_def tbl.preserves tbl.find_assign [where w = w])

lemma same_table_erase: "same_table t t' \<Longrightarrow> same_table (tbl_erase k t) (tbl_erase k t')"
  by (simp add: same_table_def table_simps)

lemma same_table_find: "same_table t t' \<Longrightarrow> tbl_find k t = tbl_find k t'"
  by (simp add: same_table_def)

lemmas same_table_ops = same_table_emplace same_table_assign same_table_erase

end
