(* ===== verification/Doubles.thy ===== *)
theory Doubles imports
  Prelude
begin

section \<open>Doubles: IEEE-754 binary64 arithmetic\<close>

text \<open>
  The C++ type \<open>double\<close> as the language defines it on every platform the program targets:
  IEEE-754 binary64 with round-to-nearest, ties to even. A finite double is its exact rational
  value; every operation computes the exact rational result and rounds it once. The sign of a zero
  is not represented: the sources never divide by zero and never print a zero whose sign an
  operation could have changed, so it is not observable. Comparisons with \<open>NaN\<close> are false, and a
  conversion of an out-of-range double to an unsigned integer is undefined behaviour, \<open>None\<close>.
\<close>

datatype double = Finite rat | PosInf | NegInf | NaN

subsection \<open>Rounding\<close>

text \<open>Position of the leading bit of a natural number and of a positive rational.\<close>

fun int_log2 :: "int \<Rightarrow> int" where
  "int_log2 n = (if n < 2 then 0 else 1 + int_log2 (n div 2))"

declare int_log2.simps [simp del]

definition rat_log2 :: "rat \<Rightarrow> int" where
  "rat_log2 x = (if 1 \<le> x then int_log2 \<lfloor>x\<rfloor> else - int_log2 (\<lceil>1 / x\<rceil> - 1) - 1)"

text \<open>Round a rational to an integer, ties to even.\<close>

definition rne :: "rat \<Rightarrow> int" where
  "rne q = (let f = \<lfloor>q\<rfloor>; d = q - of_int f in
     if d < 1 / 2 then f else if 1 / 2 < d then f + 1 else if even f then f else f + 1)"

text \<open>
  Exponent of the unit in the last place: 53 significant bits, and no unit below \<open>2 ^ -1074\<close>
  (the subnormal range).
\<close>

definition ulp_exp :: "rat \<Rightarrow> int" where
  "ulp_exp x = max (rat_log2 x - 52) (- 1074)"

definition round53 :: "rat \<Rightarrow> rat" where
  "round53 x = (if x = 0 then 0
     else let u = 2 powi ulp_exp \<bar>x\<bar> in of_int (rne (x / u)) * u)"

text \<open>A rounded magnitude of \<open>2 ^ 1024\<close> or more is an infinity.\<close>

definition to_double :: "rat \<Rightarrow> double" where
  "to_double x = (let r = round53 x in
     if r \<noteq> 0 \<and> 1024 \<le> rat_log2 \<bar>r\<bar> then (if r < 0 then NegInf else PosInf) else Finite r)"

subsection \<open>Arithmetic and comparison\<close>

definition inf_of_sign :: "rat \<Rightarrow> double" where
  "inf_of_sign s = (if s < 0 then NegInf else if 0 < s then PosInf else NaN)"

fun dbl_sign :: "double \<Rightarrow> rat" where
  "dbl_sign (Finite x) = sgn x"
| "dbl_sign PosInf = 1"
| "dbl_sign NegInf = -1"
| "dbl_sign NaN = 0"

fun dbl_neg :: "double \<Rightarrow> double" where
  "dbl_neg (Finite x) = Finite (- x)"
| "dbl_neg PosInf = NegInf"
| "dbl_neg NegInf = PosInf"
| "dbl_neg NaN = NaN"

fun dbl_add :: "double \<Rightarrow> double \<Rightarrow> double" where
  "dbl_add (Finite x) (Finite y) = to_double (x + y)"
| "dbl_add NaN _ = NaN"
| "dbl_add _ NaN = NaN"
| "dbl_add PosInf NegInf = NaN"
| "dbl_add NegInf PosInf = NaN"
| "dbl_add PosInf _ = PosInf"
| "dbl_add _ PosInf = PosInf"
| "dbl_add NegInf _ = NegInf"
| "dbl_add _ NegInf = NegInf"

fun dbl_mul :: "double \<Rightarrow> double \<Rightarrow> double" where
  "dbl_mul (Finite x) (Finite y) = to_double (x * y)"
| "dbl_mul NaN _ = NaN"
| "dbl_mul _ NaN = NaN"
| "dbl_mul a b = inf_of_sign (dbl_sign a * dbl_sign b)"

fun dbl_div :: "double \<Rightarrow> double \<Rightarrow> double" where
  "dbl_div (Finite x) (Finite y) = (if y = 0 then inf_of_sign x else to_double (x / y))"
| "dbl_div NaN _ = NaN"
| "dbl_div _ NaN = NaN"
| "dbl_div (Finite x) _ = Finite 0"
| "dbl_div a (Finite y) = inf_of_sign (dbl_sign a * (if y < 0 then -1 else 1))"
| "dbl_div _ _ = NaN"

fun dbl_less :: "double \<Rightarrow> double \<Rightarrow> bool" where
  "dbl_less (Finite x) (Finite y) = (x < y)"
| "dbl_less NaN _ = False"
| "dbl_less _ NaN = False"
| "dbl_less a PosInf = (a \<noteq> PosInf)"
| "dbl_less NegInf a = (a \<noteq> NegInf)"
| "dbl_less _ _ = False"

definition dbl_ge :: "double \<Rightarrow> double \<Rightarrow> bool" where
  "dbl_ge a b \<longleftrightarrow> dbl_less b a \<or> (a = b \<and> a \<noteq> NaN)"

text \<open>\<open>std::max\<close> and \<open>std::min\<close>: the first argument unless the comparison says otherwise.\<close>

definition dbl_max :: "double \<Rightarrow> double \<Rightarrow> double" where
  "dbl_max a b = (if dbl_less a b then b else a)"

definition dbl_min :: "double \<Rightarrow> double \<Rightarrow> double" where
  "dbl_min a b = (if dbl_less b a then b else a)"

text \<open>Conversions: from an integer (rounded), and truncation to an unsigned integer of \<open>w\<close> bits.\<close>

definition dbl_of_int :: "int \<Rightarrow> double" where
  "dbl_of_int i = to_double (of_int i)"

definition trunc_rat :: "rat \<Rightarrow> int" where
  "trunc_rat x = (if 0 \<le> x then \<lfloor>x\<rfloor> else \<lceil>x\<rceil>)"

fun dbl_to_unsigned :: "nat \<Rightarrow> double \<Rightarrow> int option" where
  "dbl_to_unsigned w (Finite x) =
     (let t = trunc_rat x in if 0 \<le> t \<and> t < 2 ^ w then Some t else None)"
| "dbl_to_unsigned w _ = None"

subsection \<open>The leading bit\<close>

lemma int_log2_nonneg: "0 \<le> int_log2 n"
  by (induction n rule: int_log2.induct) (subst int_log2.simps, simp)

lemma int_log2_bounds:
  "1 \<le> n \<Longrightarrow> 2 ^ nat (int_log2 n) \<le> n \<and> n < 2 * 2 ^ nat (int_log2 n)"
proof (induction n rule: int_log2.induct)
  case (1 n)
  show ?case
  proof (cases "n < 2")
    case True
    then show ?thesis using "1.prems" by (subst (1 2) int_log2.simps) simp
  next
    case False
    have e: "nat (int_log2 n) = Suc (nat (int_log2 (n div 2)))"
      using False int_log2_nonneg [of "n div 2"] by (subst int_log2.simps) (simp add: nat_add_distrib)
    have "2 ^ nat (int_log2 (n div 2)) \<le> n div 2 \<and> n div 2 < 2 * 2 ^ nat (int_log2 (n div 2))"
      using "1.IH" False by simp
    then show ?thesis unfolding e by (auto simp: algebra_simps)
  qed
qed

lemma powi_2_nat: "0 \<le> e \<Longrightarrow> (2::rat) powi e = of_int (2 ^ nat e)"
  by (simp add: power_int_def)

lemma powi_2_split:
  assumes "a \<le> b"
  shows "(2::rat) powi b = 2 powi a * of_int (2 ^ nat (b - a))"
proof -
  have "(2::rat) powi (a + (b - a)) = 2 powi a * 2 powi (b - a)"
    by (rule power_int_add) simp
  then show ?thesis using assms by (simp add: powi_2_nat)
qed

lemma powi_2_le: "a \<le> b \<Longrightarrow> (2::rat) powi a \<le> 2 powi b"
  by (simp add: powi_2_split [of a b])

lemma powi_2_less: "a < b \<Longrightarrow> (2::rat) powi a < 2 powi b"
  by (simp add: powi_2_split [of a b])

lemma powi_2_le_iff: "(2::rat) powi a \<le> 2 powi b \<longleftrightarrow> a \<le> b"
  using powi_2_le [of a b] powi_2_less [of b a] by linarith

lemma rat_log2_bounds:
  assumes "0 < x"
  shows "2 powi rat_log2 x \<le> x \<and> x < 2 powi (rat_log2 x + 1)"
proof (cases "1 \<le> x")
  case True
  define n where "n = \<lfloor>x\<rfloor>"
  have n: "1 \<le> n" "of_int n \<le> x" "x < of_int (n + 1)"
    using True unfolding n_def by linarith+
  have b: "2 ^ nat (int_log2 n) \<le> n" "n + 1 \<le> 2 * 2 ^ nat (int_log2 n)"
    using int_log2_bounds [OF n(1)] by auto
  have lo: "(of_int (2 ^ nat (int_log2 n)) :: rat) \<le> of_int n"
    and hi: "(of_int (n + 1) :: rat) \<le> of_int (2 * 2 ^ nat (int_log2 n))"
    using b by (simp_all only: of_int_le_iff)
  have "2 ^ nat (int_log2 n) \<le> x" and "x < 2 * 2 ^ nat (int_log2 n)"
    using order_trans [OF lo n(2)] less_le_trans [OF n(3) hi] by simp_all
  then show ?thesis
    using True int_log2_nonneg [of n]
    by (simp add: rat_log2_def n_def [symmetric] powi_2_nat power_int_add)
next
  case False
  define n where "n = \<lceil>1 / x\<rceil> - 1"
  have x1: "1 < 1 / x" using assms False by simp
  have n: "1 \<le> n" "of_int n < 1 / x" "1 / x \<le> of_int (n + 1)"
    using x1 unfolding n_def by linarith+
  define k where "k = nat (int_log2 n)"
  have b: "2 ^ k \<le> n" "n + 1 \<le> 2 * 2 ^ k"
    using int_log2_bounds [OF n(1)] by (auto simp: k_def)
  have lo: "(of_int (2 ^ k) :: rat) \<le> of_int n"
    and hi: "(of_int (n + 1) :: rat) \<le> of_int (2 * 2 ^ k)"
    using b by (simp_all only: of_int_le_iff)
  have k: "2 ^ k < 1 / x" "1 / x \<le> 2 * 2 ^ k"
    using le_less_trans [OF lo n(2)] order_trans [OF n(3) hi] by simp_all
  have e: "rat_log2 x = - int k - 1"
    using False int_log2_nonneg [of n] by (simp add: rat_log2_def n_def [symmetric] k_def)
  have p: "(2::rat) powi (- int k - 1) = 1 / (2 * 2 ^ k)" "(2::rat) powi (- int k) = 1 / 2 ^ k"
    by (simp_all add: power_int_diff power_int_minus field_simps)
  show ?thesis
    unfolding e using k assms by (simp add: p field_simps)
qed

lemma rat_log2_less: "0 < x \<Longrightarrow> x < 2 powi (k + 1) \<Longrightarrow> rat_log2 x \<le> k"
  using rat_log2_bounds [of x] powi_2_le_iff [of "k + 1" "rat_log2 x"] by linarith

lemma rat_log2_ge: "2 powi k \<le> x \<Longrightarrow> k \<le> rat_log2 x"
proof -
  assume k: "2 powi k \<le> x"
  have "(0::rat) < 2 powi k" by simp
  with k have "0 < x" by linarith
  then show ?thesis
    using rat_log2_bounds [of x] k powi_2_le_iff [of "rat_log2 x + 1" k] by linarith
qed

lemma rat_log2_mono: "0 < x \<Longrightarrow> x \<le> y \<Longrightarrow> rat_log2 x \<le> rat_log2 y"
  using rat_log2_bounds [of x] by (intro rat_log2_ge) linarith

subsection \<open>Rounding to an integer\<close>

lemma rne_of_int: "rne (of_int i) = i"
  by (simp add: rne_def)

lemma rne_near: "\<bar>of_int (rne q) - q\<bar> \<le> 1 / 2"
  unfolding rne_def Let_def by (auto simp: abs_if) linarith+

lemma rne_mono:
  assumes "p \<le> q"
  shows "rne p \<le> rne q"
proof (cases "\<lfloor>p\<rfloor> = \<lfloor>q\<rfloor>")
  case True
  then show ?thesis using assms by (auto simp: rne_def Let_def)
next
  case False
  then have "\<lfloor>p\<rfloor> + 1 \<le> \<lfloor>q\<rfloor>" using floor_mono [OF assms] by linarith
  moreover have "rne p \<le> \<lfloor>p\<rfloor> + 1" and "\<lfloor>q\<rfloor> \<le> rne q" by (auto simp: rne_def Let_def)
  ultimately show ?thesis by linarith
qed

lemma rne_minus: "rne (- q) = - rne q"
proof (cases "q = of_int \<lfloor>q\<rfloor>")
  case True
  then show ?thesis by (metis of_int_minus rne_of_int)
next
  case False
  then have "\<lfloor>- q\<rfloor> = - \<lfloor>q\<rfloor> - 1" by linarith
  then show ?thesis by (auto simp: rne_def Let_def)
qed

lemma rne_le_int: "q \<le> of_int i \<Longrightarrow> rne q \<le> i"
  using rne_mono [of q "of_int i"] by (simp add: rne_of_int)

lemma rne_ge_int: "of_int i \<le> q \<Longrightarrow> i \<le> rne q"
  using rne_mono [of "of_int i" q] by (simp add: rne_of_int)

subsection \<open>Rounding to a double\<close>

lemma round53_0 [simp]: "round53 0 = 0"
  by (simp add: round53_def)

lemma round53_minus: "round53 (- x) = - round53 x"
  by (simp add: round53_def Let_def rne_minus)

text \<open>A multiple of the unit in the last place bounds the rounding of everything it bounds.\<close>

lemma round53_le_multiple:
  assumes "0 < x" and "x \<le> of_int i * 2 powi e" and "ulp_exp x \<le> e"
  shows "round53 x \<le> of_int i * 2 powi e"
proof -
  define u :: rat where "u = 2 powi ulp_exp x"
  have u: "0 < u" by (simp add: u_def)
  have m: "of_int i * 2 powi e = of_int (i * 2 ^ nat (e - ulp_exp x)) * u"
    using powi_2_split [OF assms(3)] by (simp add: u_def)
  have "x / u \<le> of_int (i * 2 ^ nat (e - ulp_exp x))"
    using assms(2) u unfolding m by (simp only: pos_divide_le_eq)
  then have "rne (x / u) \<le> i * 2 ^ nat (e - ulp_exp x)"
    by (rule rne_le_int)
  then have "(of_int (rne (x / u)) :: rat) \<le> of_int (i * 2 ^ nat (e - ulp_exp x))"
    by (simp only: of_int_le_iff)
  then have "of_int (rne (x / u)) * u \<le> of_int (i * 2 ^ nat (e - ulp_exp x)) * u"
    using u by simp
  then show ?thesis
    using assms(1) unfolding m by (simp add: round53_def Let_def u_def)
qed

lemma round53_ge_multiple:
  assumes "0 < x" and "of_int i * 2 powi e \<le> x" and "ulp_exp x \<le> e"
  shows "of_int i * 2 powi e \<le> round53 x"
proof -
  define u :: rat where "u = 2 powi ulp_exp x"
  have u: "0 < u" by (simp add: u_def)
  have m: "of_int i * 2 powi e = of_int (i * 2 ^ nat (e - ulp_exp x)) * u"
    using powi_2_split [OF assms(3)] by (simp add: u_def)
  have "of_int (i * 2 ^ nat (e - ulp_exp x)) \<le> x / u"
    using assms(2) u unfolding m by (simp only: pos_le_divide_eq)
  then have "i * 2 ^ nat (e - ulp_exp x) \<le> rne (x / u)"
    by (rule rne_ge_int)
  then have "(of_int (i * 2 ^ nat (e - ulp_exp x)) :: rat) \<le> of_int (rne (x / u))"
    by (simp only: of_int_le_iff)
  then have "of_int (i * 2 ^ nat (e - ulp_exp x)) * u \<le> of_int (rne (x / u)) * u"
    using u by simp
  then show ?thesis
    using assms(1) unfolding m by (simp add: round53_def Let_def u_def)
qed

lemma round53_exact:
  assumes "0 < x" and "x = of_int i * 2 powi e" and "ulp_exp x \<le> e"
  shows "round53 x = x"
  using round53_le_multiple [of x i e] round53_ge_multiple [of x i e] assms by force

lemma ulp_exp_mono: "0 < x \<Longrightarrow> x \<le> y \<Longrightarrow> ulp_exp x \<le> ulp_exp y"
  using rat_log2_mono [of x y] by (simp add: ulp_exp_def)

lemma round53_mono_pos:
  assumes x: "0 < x" and xy: "x \<le> y"
  shows "round53 x \<le> round53 y"
proof (cases "ulp_exp x = ulp_exp y")
  case True
  define u :: rat where "u = 2 powi ulp_exp y"
  have u: "0 < u" by (simp add: u_def)
  have "rne (x / u) \<le> rne (y / u)"
    using xy u by (intro rne_mono divide_right_mono) auto
  then show ?thesis
    using x xy True u by (simp add: round53_def Let_def u_def [symmetric])
next
  case False
  then have less: "ulp_exp x < ulp_exp y" using ulp_exp_mono [OF x xy] by simp
  define k where "k = rat_log2 y"
  have k: "ulp_exp y = k - 52" "rat_log2 x < k" "ulp_exp x < k"
    using less by (auto simp: ulp_exp_def k_def max_def split: if_splits)
  have "x \<le> of_int 1 * 2 powi k"
    using rat_log2_bounds [OF x] powi_2_le [of "rat_log2 x + 1" k] k(2) by simp
  then have "round53 x \<le> of_int 1 * 2 powi k"
    using x k(3) by (intro round53_le_multiple) simp_all
  also have "of_int 1 * 2 powi k \<le> round53 y"
    using x xy k(1) rat_log2_bounds [of y] by (intro round53_ge_multiple) (simp_all add: k_def)
  finally show ?thesis .
qed

lemma round53_nonneg: "0 \<le> x \<Longrightarrow> 0 \<le> round53 x"
  using round53_ge_multiple [of x 0 "ulp_exp x"] by (cases "x = 0") simp_all

lemma round53_mono:
  assumes "x \<le> y"
  shows "round53 x \<le> round53 y"
proof -
  consider "0 < x" | "y < 0" | "x \<le> 0" "0 \<le> y" using assms by linarith
  then show ?thesis
  proof cases
    case 1
    then show ?thesis using assms by (rule round53_mono_pos)
  next
    case 2
    then have "round53 (- y) \<le> round53 (- x)" using assms by (intro round53_mono_pos) simp_all
    then show ?thesis by (simp add: round53_minus)
  next
    case 3
    then show ?thesis
      using round53_nonneg [of y] round53_nonneg [of "- x"] by (simp add: round53_minus)
  qed
qed

text \<open>Integers of up to 53 bits are doubles.\<close>

lemma round53_of_int:
  assumes "\<bar>i\<bar> \<le> 2 ^ 53"
  shows "round53 (of_int i) = of_int i"
proof -
  have pos: "round53 (of_int j) = of_int j" if "0 < j" "j < 2 ^ 53" for j
  proof (rule round53_exact [of _ j 0])
    have "(of_int j :: rat) < of_int (2 ^ 53)" using that(2) by (simp only: of_int_less_iff)
    then have "(of_int j :: rat) < 2 powi (52 + 1)" by (simp add: power_int_def)
    then have "rat_log2 (of_int j) \<le> 52" using that(1) by (intro rat_log2_less) simp_all
    then show "ulp_exp (of_int j) \<le> 0" by (simp add: ulp_exp_def)
  qed (use that in simp_all)
  have top: "round53 (of_int (2 ^ 53)) = of_int (2 ^ 53)"
  proof (rule round53_exact [of _ 1 53])
    have "rat_log2 (of_int (2 ^ 53)) \<le> 53" by (rule rat_log2_less) (simp_all add: power_int_def)
    then show "ulp_exp (of_int (2 ^ 53)) \<le> 53" by (simp add: ulp_exp_def)
  qed (simp_all add: power_int_def)
  consider "i = 0" | "0 < i" "i < 2 ^ 53" | "i = 2 ^ 53" | "0 < - i" "- i < 2 ^ 53" | "- i = 2 ^ 53"
    using assms by linarith
  then show ?thesis
  proof cases
    case 4
    then have "round53 (of_int (- i)) = of_int (- i)" by (rule pos)
    then show ?thesis by (simp add: round53_minus)
  next
    case 5
    then have "round53 (of_int (- i)) = of_int (- i)" using top by simp
    then show ?thesis by (simp add: round53_minus)
  qed (use pos top in simp_all)
qed

subsection \<open>Finite results\<close>

text \<open>Far from the overflow threshold a conversion is the rounding; integers up to \<open>2 ^ 53\<close> are exact.\<close>

lemma to_double_finite:
  assumes "\<bar>x\<bar> \<le> 2 ^ 1000"
  shows "to_double x = Finite (round53 x)"
proof -
  have "rat_log2 (2 ^ 1000) \<le> 1000"
    by (rule rat_log2_less) (simp_all only: power_int_numeral zero_less_power zero_less_numeral flip: power_int_of_nat, simp_all)
  then have u: "ulp_exp (2 ^ 1000) \<le> 1000"
    by (simp add: ulp_exp_def)
  have e: "(2::rat) ^ 1000 = of_int 1 * 2 powi 1000"
    by (simp only: power_int_numeral of_int_1 mult_1)
  have big: "round53 (2 ^ 1000) = 2 ^ 1000"
    by (rule round53_exact [OF _ e u]) simp
  have "\<bar>round53 x\<bar> \<le> 2 ^ 1000"
  proof (rule abs_leI)
    show "round53 x \<le> 2 ^ 1000"
      using round53_mono [OF abs_le_D1 [OF assms]] unfolding big .
    show "- round53 x \<le> 2 ^ 1000"
      using round53_mono [OF abs_le_D2 [OF assms]] unfolding big round53_minus .
  qed
  then have "rat_log2 \<bar>round53 x\<bar> \<le> 1000" if "round53 x \<noteq> 0"
    using that rat_log2_mono [of "\<bar>round53 x\<bar>" "2 ^ 1000"] \<open>rat_log2 (2 ^ 1000) \<le> 1000\<close> by linarith
  then show ?thesis
    by (auto simp: to_double_def Let_def)
qed

lemma to_double_of_int: "\<bar>i\<bar> \<le> 2 ^ 53 \<Longrightarrow> to_double (of_int i) = Finite (of_int i)"
proof -
  assume i: "\<bar>i\<bar> \<le> 2 ^ 53"
  have "(of_int \<bar>i\<bar> :: rat) \<le> of_int (2 ^ 53)" using i by (simp only: of_int_le_iff)
  also have "\<dots> \<le> 2 ^ 1000" by simp
  finally show ?thesis
    using to_double_finite [of "of_int i"] round53_of_int [OF i] by simp
qed

lemma dbl_of_int_exact: "\<bar>i\<bar> \<le> 2 ^ 53 \<Longrightarrow> dbl_of_int i = Finite (of_int i)"
  by (simp add: dbl_of_int_def to_double_of_int)

text \<open>
  The quotient of two moderate integers, rounded and truncated, is the integer quotient: the exact
  quotient is at least one \<open>2 ^ -32\<close> away from the next integer, further than the rounding moves it.
\<close>

lemma floor_round53_quotient:
  assumes n: "0 \<le> n" and m: "0 < m" "m \<le> 2 ^ 32" and q: "n div m < 2 ^ 20"
  shows "\<lfloor>round53 (of_int n / of_int m)\<rfloor> = n div m"
proof (cases "n = 0")
  case False
  define x :: rat where "x = of_int n / of_int m"
  have x: "0 < x" using n m False by (simp add: x_def)
  have fl: "\<lfloor>x\<rfloor> = n div m" unfolding x_def by (rule floor_divide_of_int_eq)
  have "x < of_int (n div m + 1)" using fl by linarith
  moreover have "(of_int (n div m + 1) :: rat) \<le> of_int (2 ^ 20)" using q by (simp only: of_int_le_iff)
  ultimately have "x < 2 powi (19 + 1)" by simp
  then have log: "rat_log2 x \<le> 19" using x by (intro rat_log2_less) simp_all
  have lower: "of_int (n div m) \<le> round53 x"
    using round53_ge_multiple [of x "n div m" 0] x log fl by (simp add: ulp_exp_def) linarith
  have rem: "n mod m + 1 \<le> m" using m by (simp add: add1_zle_eq)
  have "n * 2 ^ 32 = (n div m * m + n mod m) * 2 ^ 32" by simp
  also have "\<dots> \<le> (n div m * m + (m - 1)) * 2 ^ 32" using rem by (intro mult_right_mono) (linarith, simp)
  also have "\<dots> = ((n div m + 1) * 2 ^ 32) * m - 2 ^ 32" by (simp add: algebra_simps)
  also have "\<dots> \<le> ((n div m + 1) * 2 ^ 32 - 1) * m" using m by (simp add: algebra_simps)
  finally have "n * 2 ^ 32 \<le> ((n div m + 1) * 2 ^ 32 - 1) * m" .
  then have "(of_int (n * 2 ^ 32) :: rat) \<le> of_int (((n div m + 1) * 2 ^ 32 - 1) * m)"
    by (simp only: of_int_le_iff)
  then have "x \<le> of_int ((n div m + 1) * 2 ^ 32 - 1) * 2 powi (- 32)"
    using m by (simp add: x_def power_int_minus field_simps)
  then have "round53 x \<le> of_int ((n div m + 1) * 2 ^ 32 - 1) * 2 powi (- 32)"
    using x log by (intro round53_le_multiple) (simp_all add: ulp_exp_def)
  also have "\<dots> < of_int (n div m + 1)" by (simp add: power_int_minus field_simps)
  finally have "round53 x < of_int (n div m) + 1" by simp
  then show ?thesis using lower unfolding x_def by (simp add: floor_eq_iff)
qed simp

end
