(* ===== verification/Itch_Engine.thy ===== *)
theory Itch_Engine imports
  Itch_Tags
  Tables
  Doubles
begin

section \<open>ITCH engine: executing the order flow\<close>

text \<open>
  \<open>execution_engine\<close> of \<open>src/src/nasdaq_exec/itch_exec.hpp\<close>: two hash tables from order references to
  live orders, one per side, and \<open>run_order\<close>, which applies one record of the order flow. The share
  counts are 32-bit words, so an execution of more shares than an order holds wraps around; the
  conversion of a price to fixed point is undefined behaviour outside the range of \<open>uint32_t\<close>, which
  is the \<open>None\<close> of the operations that reach it.
\<close>

subsection \<open>Orders\<close>

datatype order_t = Order (ord_price: u32) (ord_shares: u32)

definition order_equal :: "order_t \<Rightarrow> order_t \<Rightarrow> bool" where
  "order_equal a b \<longleftrightarrow> ord_shares a = ord_shares b \<and> ord_price a = ord_price b"

definition order_unequal :: "order_t \<Rightarrow> order_t \<Rightarrow> bool" where
  "order_unequal a b \<longleftrightarrow> \<not> order_equal a b"

definition order_less :: "order_t \<Rightarrow> order_t \<Rightarrow> bool" where
  [simp]: "order_less a b \<longleftrightarrow> ord_price a < ord_price b \<or> (ord_price a = ord_price b \<and> ord_shares a < ord_shares b)"

instantiation order_t :: linorder
begin

definition less_order_t :: "order_t \<Rightarrow> order_t \<Rightarrow> bool" where
  "less_order_t a b \<longleftrightarrow> order_less a b"

definition less_eq_order_t :: "order_t \<Rightarrow> order_t \<Rightarrow> bool" where
  "less_eq_order_t a b \<longleftrightarrow> ord_price a < ord_price b \<or> (ord_price a = ord_price b \<and> ord_shares a \<le> ord_shares b)"

instance
proof
  fix a b c :: order_t
  show "(a < b) = (a \<le> b \<and> \<not> b \<le> a)"
    by (auto simp: less_order_t_def less_eq_order_t_def)
  show "a \<le> a" by (simp add: less_eq_order_t_def)
  show "a \<le> b \<Longrightarrow> b \<le> c \<Longrightarrow> a \<le> c" by (auto simp: less_eq_order_t_def)
  show "a \<le> b \<Longrightarrow> b \<le> a \<Longrightarrow> a = b" by (auto simp: less_eq_order_t_def intro: order_t.expand)
  show "a \<le> b \<or> b \<le> a" by (auto simp: less_eq_order_t_def)
qed

end

text \<open>The three operators are the equality and the strict order of the type.\<close>

lemma order_operators:
  "order_equal a b \<longleftrightarrow> a = b" "order_unequal a b \<longleftrightarrow> a \<noteq> b" "order_less a b \<longleftrightarrow> a < b"
  by (cases a; cases b; auto simp: order_equal_def order_unequal_def less_order_t_def)+

type_synonym order_map = "(u64, order_t) table"

text \<open>One row of the order flow, as the driver rebuilds it from the columns of the database.\<close>

record order_record =
  rec_reference :: u64
  rec_new_reference :: u64
  rec_shares :: u32
  rec_price :: double
  rec_order_type :: char
  rec_is_buy :: bool

subsection \<open>The engine and its operations\<close>

record engine =
  all_buy_orders :: order_map
  all_sell_orders :: order_map

definition engine_init :: engine where
  "engine_init = \<lparr>all_buy_orders = [], all_sell_orders = []\<rparr>"

definition convert_to_fix :: "double \<Rightarrow> u32 option" where
  "convert_to_fix p = map_option word_of_int (dbl_to_unsigned 32 (dbl_mul p (to_double 1000)))"

definition run_add_order :: "bool \<Rightarrow> u64 \<Rightarrow> u32 \<Rightarrow> double \<Rightarrow> engine \<Rightarrow> engine option" where
  "run_add_order is_buy reference shares price e =
     (case convert_to_fix price of
        None \<Rightarrow> None
      | Some fixed \<Rightarrow>
          Some (if is_buy
                then e\<lparr>all_buy_orders := tbl_emplace reference (Order fixed shares) (all_buy_orders e)\<rparr>
                else e\<lparr>all_sell_orders := tbl_emplace reference (Order fixed shares) (all_sell_orders e)\<rparr>))"

text \<open>The template over one side: whether the reference was there, and the table afterwards.\<close>

definition run_execute_in :: "order_map \<Rightarrow> u64 \<Rightarrow> u32 \<Rightarrow> bool \<times> order_map" where
  "run_execute_in m reference shares =
     (case tbl_find reference m of
        None \<Rightarrow> (False, m)
      | Some it \<Rightarrow>
          let left = ord_shares it - shares
          in if left = 0 then (True, tbl_erase reference m)
             else (True, tbl_assign reference (Order (ord_price it) left) m))"

definition run_execute_order :: "u64 \<Rightarrow> u32 \<Rightarrow> engine \<Rightarrow> bool \<times> engine" where
  "run_execute_order reference shares e =
     (case run_execute_in (all_buy_orders e) reference shares of
        (True, m) \<Rightarrow> (True, e\<lparr>all_buy_orders := m\<rparr>)
      | (False, _) \<Rightarrow>
          (case run_execute_in (all_sell_orders e) reference shares of
             (b, m) \<Rightarrow> (b, e\<lparr>all_sell_orders := m\<rparr>)))"

definition run_cancel_order :: "u64 \<Rightarrow> u32 \<Rightarrow> engine \<Rightarrow> bool \<times> engine" where
  "run_cancel_order reference shares e = run_execute_order reference shares e"

definition run_delete_order :: "u64 \<Rightarrow> engine \<Rightarrow> bool \<times> engine" where
  "run_delete_order reference e =
     (if tbl_find reference (all_buy_orders e) \<noteq> None
      then (True, e\<lparr>all_buy_orders := tbl_erase reference (all_buy_orders e)\<rparr>)
      else (tbl_find reference (all_sell_orders e) \<noteq> None,
            e\<lparr>all_sell_orders := tbl_erase reference (all_sell_orders e)\<rparr>))"

definition run_replace_in :: "bool \<Rightarrow> u64 \<Rightarrow> u64 \<Rightarrow> u32 \<Rightarrow> double \<Rightarrow> engine \<Rightarrow> (bool \<times> engine) option" where
  "run_replace_in is_buy reference new_reference shares price e =
     (let m = (if is_buy then all_buy_orders e else all_sell_orders e) in
      case tbl_find reference m of
        None \<Rightarrow> Some (False, e)
      | Some _ \<Rightarrow>
          let e' = (if is_buy then e\<lparr>all_buy_orders := tbl_erase reference m\<rparr>
                    else e\<lparr>all_sell_orders := tbl_erase reference m\<rparr>)
          in map_option (Pair True) (run_add_order is_buy new_reference shares price e'))"

definition run_replace_order :: "u64 \<Rightarrow> u64 \<Rightarrow> u32 \<Rightarrow> double \<Rightarrow> engine \<Rightarrow> (bool \<times> engine) option" where
  "run_replace_order reference new_reference shares price e =
     (case run_replace_in True reference new_reference shares price e of
        Some (False, e') \<Rightarrow> run_replace_in False reference new_reference shares price e'
      | r \<Rightarrow> r)"

definition run_order :: "order_record \<Rightarrow> engine \<Rightarrow> (bool \<times> engine) option" where
  "run_order r e =
     (let t = rec_order_type r in
      if t = mi_code add_order_with_attribution \<or> t = mi_code add_order_without_attribution
      then map_option (Pair True)
             (run_add_order (rec_is_buy r) (rec_reference r) (rec_shares r) (rec_price r) e)
      else if t = mi_code order_executed \<or> t = mi_code order_executed_with_price
      then Some (run_execute_order (rec_reference r) (rec_shares r) e)
      else if t = mi_code order_cancel
      then Some (run_cancel_order (rec_reference r) (rec_shares r) e)
      else if t = mi_code order_delete
      then Some (run_delete_order (rec_reference r) e)
      else if t = mi_code order_replace
      then run_replace_order (rec_reference r) (rec_new_reference r) (rec_shares r) (rec_price r) e
      else Some (False, e))"

text \<open>
  The driver's loop over the records of a day (\<open>main\<close> of \<open>nasdaq_exec.cpp\<close>): the engine at the end and
  the number of records it did not apply.
\<close>

fun run_orders :: "order_record list \<Rightarrow> u64 \<Rightarrow> engine \<Rightarrow> (u64 \<times> engine) option" where
  "run_orders [] missed e = Some (missed, e)"
| "run_orders (r # rs) missed e =
     (case run_order r e of
        None \<Rightarrow> None
      | Some (b, e') \<Rightarrow> run_orders rs (if b then missed else missed + 1) e')"

lemmas engine_defs =
  run_order_def run_add_order_def run_execute_order_def run_execute_in_def run_cancel_order_def
  run_delete_order_def run_replace_order_def run_replace_in_def Let_def

lemma run_orders_append:
  "run_orders (rs @ rs') missed e =
     (case run_orders rs missed e of None \<Rightarrow> None | Some (missed', e') \<Rightarrow> run_orders rs' missed' e')"
  by (induction rs arbitrary: missed e) (auto split: option.splits prod.splits)


subsection \<open>Prices in fixed point\<close>

definition fixed_floor :: "rat \<Rightarrow> int" where
  "fixed_floor x = \<lfloor>round53 (x * 1000)\<rfloor>"

lemma fixed_floor_bounds:
  assumes "0 \<le> x" and "x \<le> 4294967"
  shows "0 \<le> fixed_floor x \<and> fixed_floor x \<le> 4294967000"
proof -
  have "round53 (x * 1000) \<le> round53 (of_int 4294967000)" using assms by (intro round53_mono) simp
  also have "\<dots> = of_int 4294967000" by (intro round53_of_int) simp
  finally have "fixed_floor x \<le> 4294967000" by (simp add: fixed_floor_def floor_le_iff)
  moreover have "0 \<le> round53 (x * 1000)" using assms by (intro round53_nonneg) simp
  ultimately show ?thesis by (simp add: fixed_floor_def)
qed

lemma convert_to_fix_floor:
  assumes "0 \<le> x" and "x \<le> 4294967"
  shows "convert_to_fix (Finite x) = Some (word_of_int (fixed_floor x))"
proof -
  have "x * 1000 \<le> 4294967000" using assms by simp
  also have "(4294967000 :: rat) \<le> 2 ^ 1000" by simp
  finally have le: "\<bar>x * 1000\<bar> \<le> 2 ^ 1000" using assms(1) by (subst abs_of_nonneg) simp_all
  have "to_double 1000 = Finite 1000" using to_double_of_int [of 1000] by simp
  moreover have "to_double (x * 1000) = Finite (round53 (x * 1000))" using le by (rule to_double_finite)
  moreover have "0 \<le> round53 (x * 1000)" using assms(1) by (intro round53_nonneg) simp
  ultimately show ?thesis
    using fixed_floor_bounds [OF assms] by (simp add: convert_to_fix_def trunc_rat_def fixed_floor_def)
qed

text \<open>C32: Every price from zero to 4,294,967 converts to fixed point, the conversion keeps the order of
  prices, and a price in whole dollars becomes exactly a thousand times its value.\<close>

theorem fixed_price_order:
  assumes "0 \<le> x" and "x \<le> y" and "y \<le> 4294967"
  shows "\<exists>f g. convert_to_fix (Finite x) = Some f \<and> convert_to_fix (Finite y) = Some g \<and> f \<le> g \<and>
    (\<forall>n. x = of_nat n \<longrightarrow> unat f = 1000 * n)"
proof -
  have "fixed_floor x \<le> fixed_floor y"
    unfolding fixed_floor_def using assms(2) by (intro floor_mono round53_mono) simp
  moreover note bx = fixed_floor_bounds [OF assms(1) order.trans [OF assms(2,3)]]
  moreover note bounds = fixed_floor_bounds [OF order.trans [OF assms(1,2)] assms(3)]
  moreover have u: "uint (word_of_int (fixed_floor z) :: u32) = fixed_floor z"
    if "0 \<le> fixed_floor z \<and> fixed_floor z \<le> 4294967000" for z
    using that by (simp add: uint_word_of_int)
  ultimately have le: "(word_of_int (fixed_floor x) :: u32) \<le> word_of_int (fixed_floor y)"
    by (simp add: word_le_def)
  have whole: "unat (word_of_int (fixed_floor x) :: u32) = 1000 * n" if n: "x = of_nat n" for n
  proof -
    have x: "x * 1000 = of_int (1000 * int n)" by (simp add: n)
    have "(of_nat n :: rat) \<le> of_nat 4294967" using assms n by simp
    then have "n \<le> 4294967" by (simp only: of_nat_le_iff)
    then have "round53 (x * 1000) = of_int (1000 * int n)" unfolding x by (intro round53_of_int) simp
    then have "fixed_floor x = 1000 * int n" by (simp only: fixed_floor_def floor_of_int)
    then show ?thesis using u [OF bx] by (simp add: unat_eq_nat_uint)
  qed
  show ?thesis
    using convert_to_fix_floor [OF assms(1) order.trans [OF assms(2,3)]]
      convert_to_fix_floor [OF order.trans [OF assms(1,2)] assms(3)] le whole by blast
qed

theorem fixed_price_order_witness:
  "\<exists>f g. convert_to_fix (Finite 10) = Some f \<and> convert_to_fix (Finite (21 / 2)) = Some g \<and> f \<le> g \<and> unat f = 10000"
proof -
  obtain f g where "convert_to_fix (Finite 10) = Some f" "convert_to_fix (Finite (21 / 2)) = Some g" "f \<le> g"
    "\<forall>n. (10 :: rat) = of_nat n \<longrightarrow> unat f = 1000 * n"
    using fixed_price_order [of 10 "21 / 2"] by auto
  then show ?thesis by (auto dest: spec [of _ 10])
qed

text \<open>A price that is a whole number of thousandths can lose one of them: 1.001, as the nearest
  double, becomes 1000, the fixed price of 1, because the product is truncated.\<close>

theorem fixed_price_loses_a_tick:
  "convert_to_fix (to_double (1001 / 1000)) = Some 1000 \<and> convert_to_fix (to_double 1) = Some 1000"
  by code_simp

end
