(* ===== verification/Engine_Contract.thy ===== *)
theory Engine_Contract imports
  Itch_Engine
begin

section \<open>Engine contract: the market an engine stands for\<close>

text \<open>
  The abstract state is one map from order references to the side and the order; \<open>market_step\<close> says
  what a record of the flow does to it. An engine refines it while its tables have distinct keys and no
  reference is on both sides, which the flow keeps when its references are unique, as the comment on the
  Add Order message of the source says the exchange guarantees (\<open>admissible\<close>).
\<close>

subsection \<open>Well-formed engines\<close>

definition tables_ok :: "engine \<Rightarrow> bool" where
  "tables_ok e \<longleftrightarrow> tbl_ok (all_buy_orders e) \<and> tbl_ok (all_sell_orders e)"

definition sides_disjoint :: "engine \<Rightarrow> bool" where
  "sides_disjoint e \<longleftrightarrow>
     (\<forall>r. tbl_find r (all_buy_orders e) = None \<or> tbl_find r (all_sell_orders e) = None)"

definition engine_ok :: "engine \<Rightarrow> bool" where
  "engine_ok e \<longleftrightarrow> tables_ok e \<and> sides_disjoint e"

type_synonym market = "u64 \<Rightarrow> (bool \<times> order_t) option"

definition live :: "engine \<Rightarrow> market" where
  "live e = (\<lambda>r. case tbl_find r (all_buy_orders e) of
      Some ord \<Rightarrow> Some (True, ord)
    | None \<Rightarrow> map_option (Pair False) (tbl_find r (all_sell_orders e)))"

text \<open>Every live order has shares left.\<close>

definition orders_filled :: "engine \<Rightarrow> bool" where
  "orders_filled e \<longleftrightarrow> (\<forall>r s ord. live e r = Some (s, ord) \<longrightarrow> ord_shares ord \<noteq> 0)"

subsection \<open>The abstract market\<close>

datatype market_event =
    Add_Order bool u64 u32 double
  | Reduce_Order u64 u32
  | Remove_Order u64
  | Replace_Order u64 u64 u32 double
  | Other_Event

definition event_of :: "order_record \<Rightarrow> market_event" where
  "event_of r =
     (if rec_order_type r \<in> set ''FA'' then Add_Order (rec_is_buy r) (rec_reference r) (rec_shares r) (rec_price r)
      else if rec_order_type r \<in> set ''ECX'' then Reduce_Order (rec_reference r) (rec_shares r)
      else if rec_order_type r = CHR ''D'' then Remove_Order (rec_reference r)
      else if rec_order_type r = CHR ''U''
      then Replace_Order (rec_reference r) (rec_new_reference r) (rec_shares r) (rec_price r)
      else Other_Event)"

definition fixed_price :: "double \<Rightarrow> u32" where
  "fixed_price p = (case convert_to_fix p of Some f \<Rightarrow> f | None \<Rightarrow> 0)"

fun market_step :: "market_event \<Rightarrow> market \<Rightarrow> bool \<times> market" where
  "market_step (Add_Order s r n p) m = (True, m(r \<mapsto> (s, Order (fixed_price p) n)))"
| "market_step (Reduce_Order r n) m =
     (case m r of
        None \<Rightarrow> (False, m)
      | Some (s, ord) \<Rightarrow> (True, m(r := if ord_shares ord = n then None
                                   else Some (s, Order (ord_price ord) (ord_shares ord - n)))))"
| "market_step (Remove_Order r) m = (m r \<noteq> None, m(r := None))"
| "market_step (Replace_Order r r' n p) m =
     (case m r of
        None \<Rightarrow> (False, m)
      | Some (s, _) \<Rightarrow> (True, m(r := None, r' \<mapsto> (s, Order (fixed_price p) n))))"
| "market_step Other_Event m = (False, m)"

fun market_run :: "market_event list \<Rightarrow> u64 \<Rightarrow> market \<Rightarrow> u64 \<times> market" where
  "market_run [] missed m = (missed, m)"
| "market_run (x # xs) missed m =
     (case market_step x m of (b, m') \<Rightarrow> market_run xs (if b then missed else missed + 1) m')"

text \<open>
  What the exchange promises about a record, given the live orders: a price in the range of the fixed
  point type, and references that are not in use.
\<close>

fun admissible_event :: "market_event \<Rightarrow> market \<Rightarrow> bool" where
  "admissible_event (Add_Order s r n p) m \<longleftrightarrow> convert_to_fix p \<noteq> None \<and> m r = None"
| "admissible_event (Replace_Order r r' n p) m \<longleftrightarrow>
     (m r \<noteq> None \<longrightarrow> convert_to_fix p \<noteq> None \<and> (r' = r \<or> m r' = None))"
| "admissible_event _ m \<longleftrightarrow> True"

fun admissible_flow :: "market_event list \<Rightarrow> market \<Rightarrow> bool" where
  "admissible_flow [] m \<longleftrightarrow> True"
| "admissible_flow (x # xs) m \<longleftrightarrow> admissible_event x m \<and> admissible_flow xs (snd (market_step x m))"

subsection \<open>Lookups on the two sides\<close>

lemma live_eq_None_iff:
  "live e r = None \<longleftrightarrow> tbl_find r (all_buy_orders e) = None \<and> tbl_find r (all_sell_orders e) = None"
  by (auto simp: live_def split: option.splits)

lemma engine_init_ok: "engine_ok engine_init"
  by (simp add: engine_ok_def tables_ok_def sides_disjoint_def engine_init_def)

lemma live_init [simp]: "live engine_init = Map.empty"
  by (simp add: live_def engine_init_def)

text \<open>An update of one side at one reference, as an update of the market.\<close>

lemma set_buy:
  assumes "engine_ok e" and "tbl_ok t" and "tbl_find r (all_sell_orders e) = None"
    and find: "\<And>k. tbl_find k t = (if k = r then v else tbl_find k (all_buy_orders e))"
  shows "engine_ok (e\<lparr>all_buy_orders := t\<rparr>)"
    and "live (e\<lparr>all_buy_orders := t\<rparr>) = (live e)(r := map_option (Pair True) v)"
  using assms
  by (auto simp: engine_ok_def tables_ok_def sides_disjoint_def live_def find fun_eq_iff split: option.splits)

lemma set_sell:
  assumes "engine_ok e" and "tbl_ok t" and "tbl_find r (all_buy_orders e) = None"
    and find: "\<And>k. tbl_find k t = (if k = r then v else tbl_find k (all_sell_orders e))"
  shows "engine_ok (e\<lparr>all_sell_orders := t\<rparr>)"
    and "live (e\<lparr>all_sell_orders := t\<rparr>) = (live e)(r := map_option (Pair False) v)"
  using assms
  by (auto simp: engine_ok_def tables_ok_def sides_disjoint_def live_def find fun_eq_iff split: option.splits)

lemma engine_ok_tables:
  "engine_ok e \<Longrightarrow> tbl_ok (all_buy_orders e)" "engine_ok e \<Longrightarrow> tbl_ok (all_sell_orders e)"
  by (simp_all add: engine_ok_def tables_ok_def)

text \<open>Where a live order is.\<close>

lemma live_Some_iff:
  assumes "engine_ok e"
  shows "live e r = Some (s, ord) \<longleftrightarrow>
     (if s then tbl_find r (all_buy_orders e) = Some ord \<and> tbl_find r (all_sell_orders e) = None
      else tbl_find r (all_buy_orders e) = None \<and> tbl_find r (all_sell_orders e) = Some ord)"
  using assms
  by (cases "tbl_find r (all_buy_orders e)"; cases "tbl_find r (all_sell_orders e)")
    (auto simp: live_def engine_ok_def sides_disjoint_def dest: spec [of _ r])

lemma add_refines:
  assumes ok: "engine_ok e" and free: "live e r = None" and p: "convert_to_fix p = Some f"
  shows "\<exists>e'. run_add_order s r n p e = Some e' \<and> engine_ok e' \<and> live e' = (live e)(r \<mapsto> (s, Order f n))"
proof -
  have n: "tbl_find r (all_buy_orders e) = None" "tbl_find r (all_sell_orders e) = None"
    using free by (simp_all add: live_eq_None_iff)
  show ?thesis
    using set_buy [OF ok, of "tbl_emplace r (Order f n) (all_buy_orders e)" r "Some (Order f n)"]
      set_sell [OF ok, of "tbl_emplace r (Order f n) (all_sell_orders e)" r "Some (Order f n)"]
      engine_ok_tables [OF ok] n p
    by (cases s) (simp_all add: run_add_order_def table_simps)
qed

lemma find_assign_found [table_simps]:
  "tbl_ok t \<Longrightarrow> tbl_find k t = Some w \<Longrightarrow>
   tbl_find k' (tbl_assign k v t) = (if k' = k then Some v else tbl_find k' t)"
  by (rule tbl.find_assign)

text \<open>What an execution leaves of an order.\<close>

definition left_over :: "order_t \<Rightarrow> u32 \<Rightarrow> order_t option" where
  "left_over ord n = (if ord_shares ord = n then None else Some (Order (ord_price ord) (ord_shares ord - n)))"

lemma run_execute_in_found:
  assumes "tbl_ok t" and "tbl_find r t = Some ord"
  obtains t' where "run_execute_in t r n = (True, t')" and "tbl_ok t'"
    and "\<And>k. tbl_find k t' = (if k = r then left_over ord n else tbl_find k t)"
  using assms that
  by (cases "ord_shares ord = n") (auto simp: run_execute_in_def Let_def left_over_def table_simps)

lemma run_execute_in_missing: "tbl_find r t = None \<Longrightarrow> run_execute_in t r n = (False, t)"
  by (simp add: run_execute_in_def)

lemma reduce_refines:
  assumes ok: "engine_ok e" and live: "live e r = Some (s, ord)"
  shows "\<exists>e'. run_execute_order r n e = (True, e') \<and> engine_ok e' \<and>
     live e' = (live e)(r := map_option (Pair s) (left_over ord n))"
proof (cases s)
  case True
  then have f: "tbl_find r (all_buy_orders e) = Some ord" "tbl_find r (all_sell_orders e) = None"
    using live live_Some_iff [OF ok] by simp_all
  obtain t where "run_execute_in (all_buy_orders e) r n = (True, t)" "tbl_ok t"
    "\<And>k. tbl_find k t = (if k = r then left_over ord n else tbl_find k (all_buy_orders e))"
    using run_execute_in_found [OF engine_ok_tables(1) [OF ok] f(1)] by blast
  then show ?thesis
    using set_buy [OF ok, of t r "left_over ord n"] f(2) True by (simp add: run_execute_order_def)
next
  case False
  then have f: "tbl_find r (all_buy_orders e) = None" "tbl_find r (all_sell_orders e) = Some ord"
    using live live_Some_iff [OF ok] by simp_all
  obtain t where "run_execute_in (all_sell_orders e) r n = (True, t)" "tbl_ok t"
    "\<And>k. tbl_find k t = (if k = r then left_over ord n else tbl_find k (all_sell_orders e))"
    using run_execute_in_found [OF engine_ok_tables(2) [OF ok] f(2)] by blast
  then show ?thesis
    using set_sell [OF ok, of t r "left_over ord n"] f(1) False
    by (simp add: run_execute_order_def run_execute_in_missing)
qed

lemma reduce_missing:
  "live e r = None \<Longrightarrow> run_execute_order r n e = (False, e)"
  by (simp add: run_execute_order_def run_execute_in_missing live_eq_None_iff)

lemma remove_refines:
  assumes ok: "engine_ok e"
  shows "\<exists>e'. run_delete_order r e = (live e r \<noteq> None, e') \<and> engine_ok e' \<and> live e' = (live e)(r := None)"
proof (cases "tbl_find r (all_buy_orders e)")
  case (Some ord)
  then have "tbl_find r (all_sell_orders e) = None"
    using ok by (auto simp: engine_ok_def sides_disjoint_def dest: spec [of _ r])
  then show ?thesis
    using set_buy [OF ok, of "tbl_erase r (all_buy_orders e)" r None] engine_ok_tables [OF ok] Some
    by (simp add: run_delete_order_def table_simps live_def)
next
  case None
  then show ?thesis
    using set_sell [OF ok, of "tbl_erase r (all_sell_orders e)" r None] engine_ok_tables [OF ok]
    by (simp add: run_delete_order_def table_simps live_def)
qed

lemma run_replace_live:
  assumes ok: "engine_ok e" and r: "live e r = Some (s, ord)"
  shows "run_replace_order r r' n p e =
     map_option (Pair True) (run_add_order s r' n p (snd (run_delete_order r e)))"
proof (cases s)
  case True
  then have "tbl_find r (all_buy_orders e) = Some ord"
    using r live_Some_iff [OF ok] by simp
  then show ?thesis
    using True
    by (cases "run_add_order True r' n p (e\<lparr>all_buy_orders := tbl_erase r (all_buy_orders e)\<rparr>)")
      (simp_all add: run_replace_order_def run_replace_in_def run_delete_order_def)
next
  case False
  then have "tbl_find r (all_buy_orders e) = None" "tbl_find r (all_sell_orders e) = Some ord"
    using r live_Some_iff [OF ok] by simp_all
  then show ?thesis
    using False by (simp add: run_replace_order_def run_replace_in_def run_delete_order_def)
qed

lemma replace_refines:
  assumes ok: "engine_ok e" and r: "live e r = Some (s, ord)"
    and r': "r' = r \<or> live e r' = None" and p: "convert_to_fix p = Some f"
  shows "\<exists>e'. run_replace_order r r' n p e = Some (True, e') \<and> engine_ok e' \<and>
     live e' = (live e)(r := None, r' \<mapsto> (s, Order f n))"
proof -
  obtain e1 where e1: "run_delete_order r e = (True, e1)" "engine_ok e1" "live e1 = (live e)(r := None)"
    using remove_refines [OF ok, of r] r by auto
  moreover have "live e1 r' = None" using r' e1(3) by auto
  ultimately obtain e2 where e2: "run_add_order s r' n p e1 = Some e2" "engine_ok e2"
    "live e2 = (live e1)(r' \<mapsto> (s, Order f n))"
    using add_refines [OF _ _ p] by blast
  have "run_replace_order r r' n p e = Some (True, e2)"
    using run_replace_live [OF ok r, of r' n p] e1(1) e2(1) by simp
  then show ?thesis using e2 e1(3) by (intro exI [of _ e2]) simp
qed

lemma replace_missing:
  assumes "live e r = None"
  shows "run_replace_order r r' n p e = Some (False, e)"
  using assms by (simp add: run_replace_order_def run_replace_in_def live_eq_None_iff)

text \<open>\<open>run_order\<close> dispatches on the record's type as the events do.\<close>

lemma run_order_event:
  "run_order r e =
     (case event_of r of
        Add_Order s a n p \<Rightarrow> map_option (Pair True) (run_add_order s a n p e)
      | Reduce_Order a n \<Rightarrow> Some (run_execute_order a n e)
      | Remove_Order a \<Rightarrow> Some (run_delete_order a e)
      | Replace_Order a a' n p \<Rightarrow> run_replace_order a a' n p e
      | Other_Event \<Rightarrow> Some (False, e))"
  by (auto simp: run_order_def event_of_def Let_def run_cancel_order_def tag_defs)

lemma step_refines:
  assumes ok: "engine_ok e" and adm: "admissible_event (event_of r) (live e)"
    and step: "market_step (event_of r) (live e) = (b, m)"
  shows "\<exists>e'. run_order r e = Some (b, e') \<and> engine_ok e' \<and> live e' = m"
proof (cases "event_of r")
  case (Add_Order s a n p)
  then obtain f where "convert_to_fix p = Some f" "live e a = None" using adm by auto
  then show ?thesis
    using add_refines [OF ok, of a p f s n] Add_Order step
    by (auto simp: run_order_event fixed_price_def)
next
  case (Reduce_Order a n)
  show ?thesis
  proof (cases "live e a")
    case None
    then show ?thesis using Reduce_Order step ok by (simp add: run_order_event reduce_missing)
  next
    case (Some so)
    then show ?thesis
      using reduce_refines [OF ok, of a "fst so" "snd so" n] Reduce_Order step
      by (cases so) (auto simp: run_order_event left_over_def split: if_splits)
  qed
next
  case (Remove_Order a)
  then show ?thesis using remove_refines [OF ok, of a] step by (auto simp: run_order_event)
next
  case (Replace_Order a a' n p)
  show ?thesis
  proof (cases "live e a")
    case None
    then show ?thesis using Replace_Order step ok by (simp add: run_order_event replace_missing)
  next
    case (Some so)
    then obtain s ord f where "live e a = Some (s, ord)" "convert_to_fix p = Some f" "a' = a \<or> live e a' = None"
      using adm Replace_Order by (cases so) auto
    then show ?thesis
      using replace_refines [OF ok, of a s ord a' p f n] Replace_Order step
      by (auto simp: run_order_event fixed_price_def)
  qed
next
  case Other_Event
  then show ?thesis using step ok by (simp add: run_order_event)
qed

lemma run_refines:
  assumes "engine_ok e" and "admissible_flow (map event_of rs) (live e)"
  shows "\<exists>e'. run_orders rs missed e = Some (fst (market_run (map event_of rs) missed (live e)), e') \<and>
     engine_ok e' \<and> live e' = snd (market_run (map event_of rs) missed (live e))"
  using assms
proof (induction rs arbitrary: missed e)
  case (Cons r rs)
  obtain b m where s: "market_step (event_of r) (live e) = (b, m)" by fastforce
  then obtain e1 where e1: "run_order r e = Some (b, e1)" "engine_ok e1" "live e1 = m"
    using step_refines [of e r b m] Cons.prems by auto
  have "admissible_flow (map event_of rs) (live e1)" using Cons.prems s e1 by simp
  then show ?case
    using Cons.IH [OF e1(2), of "if b then missed else missed + 1"] e1 s by simp
qed simp


subsection \<open>A run of the engine is a run of the market\<close>

text \<open>C3: While prices convert and references are new, running the records of a day on an engine gives
  the live orders and the number of missed records that the abstract market gives, and the engine
  still satisfies its invariant at the end.\<close>

theorem engine_refines_market:
  assumes "engine_ok e" and "admissible_flow (map event_of rs) (live e)"
  shows "\<exists>e'. run_orders rs missed e = Some (fst (market_run (map event_of rs) missed (live e)), e') \<and>
     engine_ok e' \<and> live e' = snd (market_run (map event_of rs) missed (live e))"
  using assms by (rule run_refines)

definition sample_record :: "char \<Rightarrow> u64 \<Rightarrow> u64 \<Rightarrow> u32 \<Rightarrow> int \<Rightarrow> bool \<Rightarrow> order_record" where
  "sample_record c reference new_reference shares dollars is_buy =
     \<lparr>rec_reference = reference, rec_new_reference = new_reference, rec_shares = shares,
      rec_price = Finite (of_int dollars), rec_order_type = c, rec_is_buy = is_buy\<rparr>"

definition sample_day :: "order_record list" where
  "sample_day =
     [sample_record CHR ''A'' 1 0 100 10 True, sample_record CHR ''F'' 2 0 50 11 False,
      sample_record CHR ''E'' 1 0 30 0 False, sample_record CHR ''U'' 2 3 60 12 False,
      sample_record CHR ''X'' 9 0 1 0 False, sample_record CHR ''D'' 1 0 0 0 False]"

lemma sample_day_admissible: "admissible_flow (map event_of sample_day) Map.empty"
  by code_simp

theorem engine_refines_market_witness:
  "(\<exists>e'. run_orders sample_day 0 engine_init = Some (1, e') \<and> engine_ok e' \<and>
     live e' 3 = Some (False, Order 12000 60) \<and> live e' 1 = None) \<and> sample_day \<noteq> []"
proof -
  have m: "fst (market_run (map event_of sample_day) 0 Map.empty) = 1"
    "snd (market_run (map event_of sample_day) 0 Map.empty) 3 = Some (False, Order 12000 60)"
    "snd (market_run (map event_of sample_day) 0 Map.empty) 1 = None" by code_simp+
  show ?thesis
    using engine_refines_market [OF engine_init_ok, of sample_day 0] sample_day_admissible m
    by (auto simp: sample_day_def)
qed

end
