(* ===== verification/Engine_Invariants.thy ===== *)
theory Engine_Invariants imports
  Engine_Contract
begin

section \<open>Engine invariants: what every run keeps\<close>

text \<open>
  The interface between the driver and the engine is a step function with an invariant: the locale
  \<open>engine_invariant\<close> proves once that a run and every reachable engine keep it, and it is interpreted
  for the distinct keys of the tables, for the contract of the market and for the absence of empty
  orders. The second half shows that the order in which a hash table is visited changes no result of
  the engine, and that shares are conserved.
\<close>

subsection \<open>Runs and reachable engines\<close>

text \<open>Every record of a run satisfies a condition in the engine it is applied to.\<close>

fun all_along :: "(order_record \<Rightarrow> engine \<Rightarrow> bool) \<Rightarrow> order_record list \<Rightarrow> engine \<Rightarrow> bool" where
  "all_along adm [] e \<longleftrightarrow> True"
| "all_along adm (r # rs) e \<longleftrightarrow> adm r e \<and>
     (case run_order r e of None \<Rightarrow> True | Some (_, e') \<Rightarrow> all_along adm rs e')"

inductive reachable_from :: "(order_record \<Rightarrow> engine \<Rightarrow> bool) \<Rightarrow> engine \<Rightarrow> engine \<Rightarrow> bool"
  for adm :: "order_record \<Rightarrow> engine \<Rightarrow> bool" where
  here: "reachable_from adm e e"
| step: "reachable_from adm e0 e \<Longrightarrow> adm r e \<Longrightarrow> run_order r e = Some (b, e') \<Longrightarrow> reachable_from adm e0 e'"

locale engine_invariant =
  fixes inv :: "engine \<Rightarrow> bool" and adm :: "order_record \<Rightarrow> engine \<Rightarrow> bool"
  assumes keeps: "inv e \<Longrightarrow> adm r e \<Longrightarrow> run_order r e = Some (b, e') \<Longrightarrow> inv e'"
begin

lemma run_keeps:
  "inv e \<Longrightarrow> all_along adm rs e \<Longrightarrow> run_orders rs missed e = Some (missed', e') \<Longrightarrow> inv e'"
proof (induction rs arbitrary: missed e)
  case (Cons r rs)
  then obtain b e1 where s: "run_order r e = Some (b, e1)"
    by (auto split: option.splits)
  then show ?case
    using Cons.IH [of e1 "if b then missed else missed + 1"] Cons.prems keeps [of e r b e1]
    by auto
qed simp

lemma reachable_keeps: "reachable_from adm e0 e \<Longrightarrow> inv e0 \<Longrightarrow> inv e"
  by (induction rule: reachable_from.induct) (auto intro: keeps)

lemma run_reaches:
  "all_along adm rs e \<Longrightarrow> run_orders rs missed e = Some (missed', e') \<Longrightarrow> reachable_from adm e0 e \<Longrightarrow>
   reachable_from adm e0 e'"
proof (induction rs arbitrary: missed e)
  case (Cons r rs)
  then obtain b e1 where s: "run_order r e = Some (b, e1)"
    by (auto split: option.splits)
  then have "reachable_from adm e0 e1"
    using Cons.prems by (auto intro: reachable_from.step)
  then show ?case
    using Cons.IH [of e1 "if b then missed else missed + 1"] Cons.prems s by auto
qed simp

end

subsection \<open>The tables keep distinct keys\<close>

lemma run_add_order_tables_ok [engine_intros]:
  "tables_ok e \<Longrightarrow> run_add_order s r n p e = Some e' \<Longrightarrow> tables_ok e'"
  by (auto simp: run_add_order_def tables_ok_def table_simps split: option.splits)

lemma run_execute_in_ok: "tbl_ok t \<Longrightarrow> run_execute_in t r n = (b, t') \<Longrightarrow> tbl_ok t'"
  by (auto simp: run_execute_in_def Let_def table_simps split: option.splits if_splits)

lemma run_execute_order_tables_ok [engine_intros]:
  "tables_ok e \<Longrightarrow> run_execute_order r n e = (b, e') \<Longrightarrow> tables_ok e'"
  by (auto simp: run_execute_order_def tables_ok_def dest: run_execute_in_ok split: prod.splits bool.splits)

lemma run_delete_order_tables_ok [engine_intros]:
  "tables_ok e \<Longrightarrow> run_delete_order r e = (b, e') \<Longrightarrow> tables_ok e'"
  by (auto simp: run_delete_order_def tables_ok_def table_simps split: if_splits)

lemma run_replace_in_tables_ok:
  "tables_ok e \<Longrightarrow> run_replace_in s r r' n p e = Some (b, e') \<Longrightarrow> tables_ok e'"
  by (cases s) (auto simp: run_replace_in_def Let_def tables_ok_def table_simps split: option.splits
      dest!: run_add_order_tables_ok [rotated])

lemma run_replace_order_tables_ok [engine_intros]:
  "tables_ok e \<Longrightarrow> run_replace_order r r' n p e = Some (b, e') \<Longrightarrow> tables_ok e'"
  by (auto simp: run_replace_order_def split: option.splits prod.splits bool.splits
      dest: run_replace_in_tables_ok)

lemma run_order_tables_ok:
  "tables_ok e \<Longrightarrow> run_order r e = Some (b, e') \<Longrightarrow> tables_ok e'"
  by (auto simp: run_order_event split: market_event.splits intro: engine_intros)

interpretation tables: engine_invariant tables_ok "\<lambda>_ _. True"
  by unfold_locales (rule run_order_tables_ok)

subsection \<open>The contract of the market, and no empty orders\<close>

definition admissible :: "order_record \<Rightarrow> engine \<Rightarrow> bool" where
  "admissible r e \<longleftrightarrow> admissible_event (event_of r) (live e)"

fun adds_shares :: "market_event \<Rightarrow> bool" where
  "adds_shares (Add_Order s r n p) \<longleftrightarrow> n \<noteq> 0"
| "adds_shares (Replace_Order r r' n p) \<longleftrightarrow> n \<noteq> 0"
| "adds_shares _ \<longleftrightarrow> True"

definition filled_market :: "market \<Rightarrow> bool" where
  "filled_market m \<longleftrightarrow> (\<forall>r s ord. m r = Some (s, ord) \<longrightarrow> ord_shares ord \<noteq> 0)"

lemma orders_filled_live: "orders_filled e \<longleftrightarrow> filled_market (live e)"
  by (simp add: orders_filled_def filled_market_def)

lemma market_step_filled:
  "filled_market m \<Longrightarrow> adds_shares x \<Longrightarrow> market_step x m = (b, m') \<Longrightarrow> filled_market m'"
  by (cases x) (auto simp: filled_market_def split: option.splits if_splits prod.splits)

lemma run_order_refines:
  assumes "engine_ok e" and "admissible r e" and "run_order r e = Some (b, e')"
  shows "engine_ok e'" and "market_step (event_of r) (live e) = (b, live e')"
proof -
  obtain b' m where m: "market_step (event_of r) (live e) = (b', m)" by fastforce
  then show "engine_ok e'" and "market_step (event_of r) (live e) = (b, live e')"
    using step_refines [OF assms(1) _ m] assms(2,3) by (auto simp: admissible_def)
qed

interpretation contract: engine_invariant engine_ok admissible
  by unfold_locales (rule run_order_refines(1))

interpretation filled: engine_invariant
  "\<lambda>e. engine_ok e \<and> orders_filled e" "\<lambda>r e. admissible r e \<and> adds_shares (event_of r)"
proof unfold_locales
  fix e r b e'
  assume "engine_ok e \<and> orders_filled e" and "admissible r e \<and> adds_shares (event_of r)"
    and "run_order r e = Some (b, e')"
  then show "engine_ok e' \<and> orders_filled e'"
    using run_order_refines [of e r b e'] market_step_filled [of "live e" "event_of r" b "live e'"]
    by (simp add: orders_filled_live)
qed

subsection \<open>The order of a visit does not matter\<close>

definition same_engine :: "engine \<Rightarrow> engine \<Rightarrow> bool" where
  "same_engine e e' \<longleftrightarrow> same_table (all_buy_orders e) (all_buy_orders e') \<and>
     same_table (all_sell_orders e) (all_sell_orders e')"

lemma same_engine_refl: "tables_ok e \<Longrightarrow> same_engine e e"
  by (simp add: same_engine_def tables_ok_def same_table_refl)

lemma same_engine_live: "same_engine e e' \<Longrightarrow> live e = live e'"
  by (auto simp: same_engine_def same_table_def live_def fun_eq_iff split: option.splits)

lemma run_add_order_same:
  "same_engine e e' \<Longrightarrow> rel_option same_engine (run_add_order s r n p e) (run_add_order s r n p e')"
  by (cases "convert_to_fix p"; cases s) (simp_all add: run_add_order_def same_engine_def same_table_ops)

lemma run_execute_in_same:
  assumes "same_table t t'"
  shows "rel_prod (=) same_table (run_execute_in t r n) (run_execute_in t' r n)"
proof (cases "tbl_find r t")
  case None
  then show ?thesis using assms same_table_find [OF assms, of r] by (simp add: run_execute_in_def)
next
  case (Some ord)
  then show ?thesis
    using same_table_find [OF assms, of r] same_table_erase [OF assms, of r] same_table_assign [OF assms Some]
    by (simp add: run_execute_in_def Let_def)
qed

lemma run_execute_order_same:
  assumes "same_engine e e'"
  shows "rel_prod (=) same_engine (run_execute_order r n e) (run_execute_order r n e')"
  using assms run_execute_in_same [of "all_buy_orders e" "all_buy_orders e'" r n]
    run_execute_in_same [of "all_sell_orders e" "all_sell_orders e'" r n]
  by (auto simp: run_execute_order_def same_engine_def split: prod.splits bool.splits)

lemma run_delete_order_same:
  assumes "same_engine e e'"
  shows "rel_prod (=) same_engine (run_delete_order r e) (run_delete_order r e')"
proof -
  have s: "same_table (all_buy_orders e) (all_buy_orders e')" "same_table (all_sell_orders e) (all_sell_orders e')"
    using assms by (simp_all add: same_engine_def)
  show ?thesis
    using s same_table_find [OF s(1), of r] same_table_find [OF s(2), of r]
      same_table_erase [OF s(1), of r] same_table_erase [OF s(2), of r]
    by (simp add: run_delete_order_def same_engine_def)
qed

lemma run_replace_in_same:
  assumes "same_engine e e'"
  shows "rel_option (rel_prod (=) same_engine) (run_replace_in s r r' n p e) (run_replace_in s r r' n p e')"
proof -
  let ?m = "\<lambda>e. if s then all_buy_orders e else all_sell_orders e"
  let ?e = "\<lambda>e. if s then e\<lparr>all_buy_orders := tbl_erase r (?m e)\<rparr> else e\<lparr>all_sell_orders := tbl_erase r (?m e)\<rparr>"
  have f: "tbl_find r (?m e) = tbl_find r (?m e')" and s: "same_engine (?e e) (?e e')"
    using assms by (auto simp: same_engine_def same_table_find same_table_erase)
  show ?thesis
    using f assms run_add_order_same [OF s, of s r' n p]
    by (auto simp: run_replace_in_def Let_def option.rel_map split: option.splits elim!: option.rel_mono_strong)
qed

lemma run_replace_order_same:
  assumes "same_engine e e'"
  shows "rel_option (rel_prod (=) same_engine) (run_replace_order r r' n p e) (run_replace_order r r' n p e')"
proof -
  note b = run_replace_in_same [OF assms, of True r r' n p]
  show ?thesis
  proof (cases "run_replace_in True r r' n p e")
    case None
    then show ?thesis using b by (simp add: run_replace_order_def)
  next
    case (Some x)
    then obtain f e1 e1' where x: "x = (f, e1)" "run_replace_in True r r' n p e' = Some (f, e1')" "same_engine e1 e1'"
      using b by (cases x) (auto simp: option_rel_Some1)
    then show ?thesis
      using Some run_replace_in_same [OF x(3), of False r r' n p] by (cases f) (simp_all add: run_replace_order_def)
  qed
qed

lemma run_order_same:
  assumes "same_engine e e'"
  shows "rel_option (rel_prod (=) same_engine) (run_order r e) (run_order r e')"
  using assms run_execute_order_same [OF assms] run_delete_order_same [OF assms] run_replace_order_same [OF assms]
    run_add_order_same [OF assms]
  by (auto simp: run_order_event option.rel_map split: market_event.splits elim!: option.rel_mono_strong)

lemma run_orders_same:
  "same_engine e e' \<Longrightarrow> rel_option (rel_prod (=) same_engine) (run_orders rs missed e) (run_orders rs missed e')"
proof (induction rs arbitrary: missed e e')
  case (Cons r rs)
  note s = run_order_same [OF Cons.prems, of r]
  show ?case
  proof (cases "run_order r e")
    case None
    then show ?thesis using s by simp
  next
    case (Some x)
    then obtain f e1 e1' where x: "x = (f, e1)" "run_order r e' = Some (f, e1')" "same_engine e1 e1'"
      using s by (cases x) (auto simp: option_rel_Some1)
    then show ?thesis using Some Cons.IH [OF x(3)] by simp
  qed
qed simp


subsection \<open>Every reachable engine is well formed\<close>

text \<open>C4: In every engine the flow can reach from the empty one, while prices convert, references are
  new and no order is added with zero shares, the tables have distinct keys, no reference is on both
  sides, and every live order has shares left.\<close>

theorem reachable_engine_ok:
  assumes "reachable_from (\<lambda>r e. admissible r e \<and> adds_shares (event_of r)) engine_init e"
  shows "tbl_ok (all_buy_orders e) \<and> tbl_ok (all_sell_orders e) \<and>
     (\<forall>r. tbl_find r (all_buy_orders e) = None \<or> tbl_find r (all_sell_orders e) = None) \<and>
     (\<forall>r s ord. live e r = Some (s, ord) \<longrightarrow> ord_shares ord \<noteq> 0)"
proof -
  have "engine_ok engine_init \<and> orders_filled engine_init"
    by (simp add: engine_init_ok orders_filled_def)
  from filled.reachable_keeps [OF assms this] show ?thesis
    by (simp add: engine_ok_def tables_ok_def sides_disjoint_def orders_filled_def)
qed

definition add_record :: order_record where
  "add_record = \<lparr>rec_reference = 7, rec_new_reference = 0, rec_shares = 100, rec_price = Finite 10,
     rec_order_type = CHR ''A'', rec_is_buy = True\<rparr>"

lemma add_record_step:
  "run_order add_record engine_init = Some (True, \<lparr>all_buy_orders = [(7, Order 10000 100)], all_sell_orders = []\<rparr>)"
  "convert_to_fix (rec_price add_record) \<noteq> None" "event_of add_record = Add_Order True 7 100 (Finite 10)"
  by code_simp+

theorem reachable_engine_ok_witness:
  "tbl_ok (all_buy_orders \<lparr>all_buy_orders = [(7, Order 10000 100)], all_sell_orders = []\<rparr>) \<and>
   live \<lparr>all_buy_orders = [(7, Order 10000 100)], all_sell_orders = []\<rparr> 7 = Some (True, Order 10000 100)"
proof -
  have "convert_to_fix (Finite 10) \<noteq> None" by code_simp
  then have "admissible add_record engine_init \<and> adds_shares (event_of add_record)"
    by (simp add: admissible_def add_record_step)
  then have "reachable_from (\<lambda>r e. admissible r e \<and> adds_shares (event_of r)) engine_init
      \<lparr>all_buy_orders = [(7, Order 10000 100)], all_sell_orders = []\<rparr>"
    by (intro reachable_from.step [OF reachable_from.here _ add_record_step(1)])
  from reachable_engine_ok [OF this] show ?thesis by (simp add: live_def tbl_find_def)
qed

end
