(* ===== verification/Share_Ledger.thy ===== *)
theory Share_Ledger imports
  Engine_Invariants
begin

section \<open>Share ledger: shares are conserved\<close>

text \<open>
  The shares resting in an engine, and what an event brings in and takes out. While executions and
  cancellations never exceed what an order has left (\<open>covered\<close>), the balance holds over every flow; an
  execution that exceeds it wraps the 32-bit count around.
\<close>

subsection \<open>Totals\<close>

fun entry_shares :: "(bool \<times> order_t) option \<Rightarrow> nat" where
  "entry_shares None = 0"
| "entry_shares (Some (_, ord)) = unat (ord_shares ord)"

definition table_shares :: "order_map \<Rightarrow> nat" where
  "table_shares t = sum_list (map (\<lambda>(_, ord). unat (ord_shares ord)) (tbl_entries t))"

definition total_shares :: "engine \<Rightarrow> nat" where
  "total_shares e = table_shares (all_buy_orders e) + table_shares (all_sell_orders e)"

definition market_shares :: "market \<Rightarrow> nat" where
  "market_shares m = (\<Sum>r\<in>dom m. entry_shares (m r))"

lemma market_shares_update:
  assumes "finite (dom m)"
  shows "market_shares (m(r := v)) + entry_shares (m r) = market_shares m + entry_shares v"
proof -
  have split: "market_shares f = (\<Sum>x\<in>dom f - {r}. entry_shares (f x)) + entry_shares (f r)" if "finite (dom f)" for f
  proof (cases "r \<in> dom f")
    case True
    then show ?thesis using that by (simp add: market_shares_def sum.remove add.commute)
  next
    case False
    then have "f r = None" by blast
    then show ?thesis using False by (simp add: market_shares_def)
  qed
  have "finite (dom (m(r := v)))" using assms by (cases v) auto
  moreover have "dom (m(r := v)) - {r} = dom m - {r}" by auto
  moreover have "(\<Sum>x\<in>dom m - {r}. entry_shares ((m(r := v)) x)) = (\<Sum>x\<in>dom m - {r}. entry_shares (m x))"
    by (rule sum.cong) auto
  ultimately show ?thesis using split [of m] split [of "m(r := v)"] assms by simp
qed

lemma table_shares_sum:
  assumes "tbl_ok t"
  shows "table_shares t = (\<Sum>r\<in>dom (\<lambda>r. tbl_find r t). unat (ord_shares (the (tbl_find r t))))"
proof -
  have d: "distinct t" "inj_on fst (set t)"
    using assms by (simp_all add: tbl_ok_def distinct_map)
  have dom: "dom (\<lambda>r. tbl_find r t) = fst ` set t"
    by (simp add: tbl_find_def dom_map_of_conv_image_fst)
  have "table_shares t = (\<Sum>x\<in>set t. unat (ord_shares (snd x)))"
    using d by (simp add: table_shares_def tbl_entries_def sum_list_distinct_conv_sum_set split_beta)
  also have "\<dots> = (\<Sum>x\<in>set t. unat (ord_shares (the (tbl_find (fst x) t))))"
    using assms by (intro sum.cong) (auto simp: tbl_find_def tbl_ok_def map_of_is_SomeI)
  also have "\<dots> = (\<Sum>r\<in>fst ` set t. unat (ord_shares (the (tbl_find r t))))"
    using d by (simp add: sum.reindex)
  finally show ?thesis by (simp add: dom)
qed

lemma finite_dom_find: "finite (dom (\<lambda>r. tbl_find r t))"
  by (simp add: tbl_find_def finite_dom_map_of)

lemma dom_live: "dom (live e) = dom (\<lambda>r. tbl_find r (all_buy_orders e)) \<union> dom (\<lambda>r. tbl_find r (all_sell_orders e))"
  by (intro set_eqI) (simp only: domIff Un_iff live_eq_None_iff de_Morgan_conj)

lemma finite_dom_live: "finite (dom (live e))"
  by (simp add: dom_live finite_dom_find)

lemma total_shares_live:
  assumes "engine_ok e"
  shows "total_shares e = market_shares (live e)"
proof -
  let ?b = "dom (\<lambda>r. tbl_find r (all_buy_orders e))" and ?s = "dom (\<lambda>r. tbl_find r (all_sell_orders e))"
  have disj: "?b \<inter> ?s = {}"
    using assms unfolding engine_ok_def sides_disjoint_def disjoint_iff domIff by metis
  have "market_shares (live e) = (\<Sum>r\<in>?b. entry_shares (live e r)) + (\<Sum>r\<in>?s. entry_shares (live e r))"
    unfolding market_shares_def dom_live by (rule sum.union_disjoint) (simp_all add: finite_dom_find disj)
  also have "(\<Sum>r\<in>?b. entry_shares (live e r)) = table_shares (all_buy_orders e)"
    using assms by (subst table_shares_sum) (auto simp: engine_ok_tables live_def intro!: sum.cong)
  also have "(\<Sum>r\<in>?s. entry_shares (live e r)) = table_shares (all_sell_orders e)"
  proof (subst table_shares_sum)
    show "(\<Sum>r\<in>?s. entry_shares (live e r)) = (\<Sum>r\<in>?s. unat (ord_shares (the (tbl_find r (all_sell_orders e)))))"
    proof (rule sum.cong)
      fix r assume "r \<in> ?s"
      then obtain ord where "tbl_find r (all_sell_orders e) = Some ord" "tbl_find r (all_buy_orders e) = None"
        using disj by (auto simp: domIff)
      then show "entry_shares (live e r) = unat (ord_shares (the (tbl_find r (all_sell_orders e))))"
        by (simp add: live_def)
    qed simp
  qed (use assms in \<open>simp add: engine_ok_tables\<close>)
  finally show ?thesis by (simp add: total_shares_def)
qed

subsection \<open>What an event brings in and takes out\<close>

fun shares_in :: "market_event \<Rightarrow> market \<Rightarrow> nat" where
  "shares_in (Add_Order s r n p) m = unat n"
| "shares_in (Replace_Order r r' n p) m = (if m r = None then 0 else unat n)"
| "shares_in _ m = 0"

fun shares_out :: "market_event \<Rightarrow> market \<Rightarrow> nat" where
  "shares_out (Reduce_Order r n) m = (if m r = None then 0 else unat n)"
| "shares_out (Remove_Order r) m = entry_shares (m r)"
| "shares_out (Replace_Order r r' n p) m = entry_shares (m r)"
| "shares_out _ m = 0"

fun covered :: "market_event \<Rightarrow> market \<Rightarrow> bool" where
  "covered (Reduce_Order r n) m \<longleftrightarrow> m r \<noteq> None \<longrightarrow> unat n \<le> entry_shares (m r)"
| "covered _ m \<longleftrightarrow> True"

fun flow_in :: "market_event list \<Rightarrow> market \<Rightarrow> nat" where
  "flow_in [] m = 0"
| "flow_in (x # xs) m = shares_in x m + flow_in xs (snd (market_step x m))"

fun flow_out :: "market_event list \<Rightarrow> market \<Rightarrow> nat" where
  "flow_out [] m = 0"
| "flow_out (x # xs) m = shares_out x m + flow_out xs (snd (market_step x m))"

fun covered_flow :: "market_event list \<Rightarrow> market \<Rightarrow> bool" where
  "covered_flow [] m \<longleftrightarrow> True"
| "covered_flow (x # xs) m \<longleftrightarrow> covered x m \<and> covered_flow xs (snd (market_step x m))"

lemma finite_dom_market_step: "finite (dom m) \<Longrightarrow> finite (dom (snd (market_step x m)))"
  by (cases x) (auto split: option.splits prod.splits)

lemma market_step_balance:
  assumes fin: "finite (dom m)" and adm: "admissible_event x m" and cov: "covered x m"
  shows "market_shares (snd (market_step x m)) + shares_out x m = market_shares m + shares_in x m"
proof (cases x)
  case (Add_Order s r n p)
  then show ?thesis using adm market_shares_update [OF fin, of r "Some (s, Order (fixed_price p) n)"] by simp
next
  case (Reduce_Order r n)
  show ?thesis
  proof (cases "m r")
    case None
    then show ?thesis using Reduce_Order by simp
  next
    case (Some so)
    then obtain s ord where so: "m r = Some (s, ord)" by (cases so) auto
    define v where "v = (if ord_shares ord = n then None else Some (s, Order (ord_price ord) (ord_shares ord - n)))"
    have "unat n \<le> unat (ord_shares ord)" using cov so Reduce_Order by simp
    then have "entry_shares v + unat n = entry_shares (m r)"
      by (auto simp: v_def so unat_sub_le)
    then show ?thesis
      using market_shares_update [OF fin, of r v] so Reduce_Order by (simp add: v_def)
  qed
next
  case (Remove_Order r)
  then show ?thesis using market_shares_update [OF fin, of r None] by simp
next
  case (Replace_Order r r' n p)
  show ?thesis
  proof (cases "m r")
    case None
    then show ?thesis using Replace_Order by simp
  next
    case (Some so)
    then obtain s ord where so: "m r = Some (s, ord)" by (cases so) auto
    have free: "(m(r := None)) r' = None" using adm so Replace_Order by auto
    have "finite (dom (m(r := None)))" using fin by simp
    from market_shares_update [OF this, of r' "Some (s, Order (fixed_price p) n)"]
      market_shares_update [OF fin, of r None] free
    show ?thesis using so Replace_Order by simp
  qed
qed simp

lemma market_run_balance:
  assumes "finite (dom m)" and "admissible_flow xs m" and "covered_flow xs m"
  shows "market_shares (snd (market_run xs missed m)) + flow_out xs m = market_shares m + flow_in xs m"
  using assms
proof (induction xs arbitrary: missed m)
  case (Cons x xs)
  obtain b m' where s: "market_step x m = (b, m')" by fastforce
  have "finite (dom m')" using finite_dom_market_step [OF Cons.prems(1), of x] s by simp
  then show ?case
    using Cons.IH [of m' "if b then missed else missed + 1"] market_step_balance [of m x] Cons.prems s by simp
qed simp


subsection \<open>The balance of a run\<close>

text \<open>C5: Shares are conserved. Over any flow of records with convertible prices and new references, whose
  executions and cancellations never exceed what an order has left, the shares resting in the engine's two tables at the end, plus what was executed,
  cancelled, deleted or replaced, are the shares at the start plus what was added.\<close>

theorem run_conserves_shares:
  assumes "engine_ok e" and "admissible_flow (map event_of rs) (live e)"
    and "covered_flow (map event_of rs) (live e)" and "run_orders rs missed e = Some (missed', e')"
  shows "total_shares e' + flow_out (map event_of rs) (live e) = total_shares e + flow_in (map event_of rs) (live e)"
proof -
  have "engine_ok e' \<and> live e' = snd (market_run (map event_of rs) missed (live e))"
    using run_refines [OF assms(1,2), of missed] assms(4) by auto
  then show ?thesis
    using market_run_balance [OF finite_dom_live assms(2,3), of missed] assms(1) by (simp add: total_shares_live)
qed

definition ledger_day :: "order_record list" where
  "ledger_day =
     [\<lparr>rec_reference = 7, rec_new_reference = 0, rec_shares = 100, rec_price = Finite 10,
       rec_order_type = CHR ''A'', rec_is_buy = True\<rparr>,
      \<lparr>rec_reference = 7, rec_new_reference = 0, rec_shares = 30, rec_price = Finite 0,
       rec_order_type = CHR ''E'', rec_is_buy = False\<rparr>]"

theorem run_conserves_shares_witness:
  "\<exists>e'. run_orders ledger_day 0 engine_init = Some (0, e') \<and> total_shares e' + 30 = 100"
proof -
  define e where "e = \<lparr>all_buy_orders = [(7, Order 10000 70)], all_sell_orders = []\<rparr>"
  have r: "run_orders ledger_day 0 engine_init = Some (0, e)" unfolding e_def by code_simp
  have a: "admissible_flow (map event_of ledger_day) Map.empty" "covered_flow (map event_of ledger_day) Map.empty"
    by code_simp+
  have f: "flow_out (map event_of ledger_day) Map.empty = 30" "flow_in (map event_of ledger_day) Map.empty = 100"
    by code_simp+
  have "total_shares engine_init = 0" by code_simp
  then have "total_shares e + 30 = 100"
    using run_conserves_shares [OF engine_init_ok, of ledger_day 0 0 e] a f r by simp
  then show ?thesis using r by blast
qed

subsection \<open>Executions beyond what is left\<close>

text \<open>C29: An execution of more shares than an order has left is accepted on either side of a well-formed engine,
  and the 32-bit count wraps around: the order stays in its table with 2 ^ 32 shares less the excess, and the
  shares of the engine go up by 2 ^ 32 less what was executed. Nothing else in the market changes.\<close>

theorem over_execution_wraps:
  assumes "engine_ok e" and "live e r = Some (side, Order p held)" and "unat held < unat n"
  shows "\<exists>e'. run_execute_order r n e = (True, e') \<and> engine_ok e' \<and>
     live e' = (live e)(r \<mapsto> (side, Order p (held - n))) \<and>
     unat (held - n) = 2 ^ 32 - (unat n - unat held) \<and> total_shares e' + unat n = total_shares e + 2 ^ 32"
proof -
  have ne: "held \<noteq> n" and lt: "unat n < 2 ^ 32" using assms(3) unsigned_less [of n] by auto
  have "left_over (Order p held) n = Some (Order p (held - n))" using ne by (simp add: left_over_def)
  then obtain e' where e': "run_execute_order r n e = (True, e')" "engine_ok e'"
    "live e' = (live e)(r \<mapsto> (side, Order p (held - n)))"
    using reduce_refines [OF assms(1,2), of n] by auto
  have wrap: "unat (held - n) = 2 ^ 32 - (unat n - unat held)"
    using assms(3) lt by (simp add: unat_sub_if')
  have "market_shares (live e') + unat held = market_shares (live e) + unat (held - n)"
    using market_shares_update [OF finite_dom_live, of e r "Some (side, Order p (held - n))"] assms(2) by (simp add: e'(3))
  then have "total_shares e' + unat n = total_shares e + 2 ^ 32"
    using wrap assms(3) lt total_shares_live [OF assms(1)] total_shares_live [OF e'(2)] by linarith
  then show ?thesis using e' wrap by blast
qed

theorem over_execution_wraps_witness:
  "\<exists>e'. run_execute_order 7 101 \<lparr>all_buy_orders = [], all_sell_orders = [(7, Order 10000 100)]\<rparr> = (True, e') \<and>
     live e' 7 = Some (False, Order 10000 4294967295)"
proof -
  let ?e = "\<lparr>all_buy_orders = [], all_sell_orders = [(7, Order 10000 100)]\<rparr>"
  have "tables_ok ?e" by code_simp
  then have "engine_ok ?e" by (simp add: engine_ok_def sides_disjoint_def tbl_find_def)
  moreover have "live ?e 7 = Some (False, Order 10000 100)" by code_simp
  ultimately obtain e' where "run_execute_order 7 101 ?e = (True, e')" "live e' = (live ?e)(7 \<mapsto> (False, Order 10000 (100 - 101)))"
    using over_execution_wraps [of ?e 7 False 10000 100 101] by auto
  then show ?thesis by simp
qed

end
