(* ===== verification/Bytes.thy ===== *)
theory Bytes imports
  Prelude
begin

section \<open>Bytes: loads, stores and byte order\<close>

text \<open>
  The primitives under the two binary codecs (the ITCH feed and the engine snapshots): a typed load
  or store through \<open>reinterpret_cast\<close> in the byte order of the host, the \<open>boost::endian\<close>
  conversions, and the read cursor. The sources keep a cursor as a pointer \<open>p\<close> and the number
  \<open>l\<close> of bytes left, always moved together; the model keeps the bytes left, so \<open>l\<close> is their
  length, and a read of more bytes than are left is an access outside the buffer, \<open>None\<close>.
\<close>

subsection \<open>Numbers as byte sequences\<close>

fun le_nat :: "u8 list \<Rightarrow> nat" where
  "le_nat [] = 0"
| "le_nat (b # bs) = unat b + 256 * le_nat bs"

definition be_nat :: "u8 list \<Rightarrow> nat" where
  "be_nat bs = le_nat (rev bs)"

fun le_bytes :: "nat \<Rightarrow> nat \<Rightarrow> u8 list" where
  "le_bytes 0 x = []"
| "le_bytes (Suc n) x = of_nat (x mod 256) # le_bytes n (x div 256)"

definition be_bytes :: "nat \<Rightarrow> nat \<Rightarrow> u8 list" where
  "be_bytes n x = rev (le_bytes n x)"

lemma unat_byte_lt: "unat (b :: u8) < 256"
  using unsigned_less [of b] by simp

lemma le_nat_bound: "le_nat bs < 256 ^ length bs"
proof (induction bs)
  case (Cons b bs)
  then show ?case using unat_byte_lt [of b] by simp
qed simp

lemma length_le_bytes [simp]: "length (le_bytes n x) = n"
  by (induction n x rule: le_bytes.induct) auto

lemma length_be_bytes [simp]: "length (be_bytes n x) = n"
  by (simp add: be_bytes_def)

lemma le_nat_le_bytes: "le_nat (le_bytes n x) = x mod 256 ^ n"
proof (induction n x rule: le_bytes.induct)
  case (2 n x)
  have "unat (of_nat (x mod 256) :: u8) = x mod 256"
    by (rule unat_of_nat_small) simp
  then show ?case
    using 2 by (simp add: mod_mult2_eq)
qed simp

lemma le_bytes_le_nat: "le_bytes (length bs) (le_nat bs) = bs"
proof (induction bs)
  case (Cons b bs)
  have "(unat b + 256 * le_nat bs) mod 256 = unat b" "(unat b + 256 * le_nat bs) div 256 = le_nat bs"
    using unat_byte_lt [of b] by simp_all
  then show ?case using Cons by simp
qed simp

lemma be_nat_be_bytes: "be_nat (be_bytes n x) = x mod 256 ^ n"
  by (simp add: be_nat_def be_bytes_def le_nat_le_bytes)

lemma be_nat_bound: "be_nat bs < 256 ^ length bs"
  using le_nat_bound [of "rev bs"] by (simp add: be_nat_def)

lemma le_nat_append: "le_nat (xs @ ys) = le_nat xs + 256 ^ length xs * le_nat ys"
  by (induction xs) (simp_all add: algebra_simps)

subsection \<open>Loads and stores in the host's byte order\<close>

definition load_native :: "endian \<Rightarrow> u8 list \<Rightarrow> 'a::len word" where
  "load_native en bs = of_nat (case en of Little_Endian \<Rightarrow> le_nat bs | Big_Endian \<Rightarrow> be_nat bs)"

definition byte_size :: "'a::len itself \<Rightarrow> nat" where
  "byte_size _ = LENGTH('a) div 8"

definition store_native :: "endian \<Rightarrow> 'a::len word \<Rightarrow> u8 list" where
  "store_native en w = (case en of Little_Endian \<Rightarrow> le_bytes (byte_size TYPE('a)) (unat w)
     | Big_Endian \<Rightarrow> be_bytes (byte_size TYPE('a)) (unat w))"

definition byte_swap :: "'a::len word \<Rightarrow> 'a word" where
  "byte_swap w = of_nat (be_nat (le_bytes (byte_size TYPE('a)) (unat w)))"

definition big_to_native :: "endian \<Rightarrow> 'a::len word \<Rightarrow> 'a word" where
  "big_to_native en w = (case en of Little_Endian \<Rightarrow> byte_swap w | Big_Endian \<Rightarrow> w)"

definition native_to_little :: "endian \<Rightarrow> 'a::len word \<Rightarrow> 'a word" where
  "native_to_little en w = (case en of Little_Endian \<Rightarrow> w | Big_Endian \<Rightarrow> byte_swap w)"

lemma byte_size_simps [simp]:
  "byte_size TYPE(8) = 1" "byte_size TYPE(16) = 2" "byte_size TYPE(32) = 4" "byte_size TYPE(64) = 8"
  by (simp_all add: byte_size_def)

text \<open>A word type made of whole bytes.\<close>

definition whole_bytes :: "'a::len itself \<Rightarrow> bool" where
  "whole_bytes _ \<longleftrightarrow> 8 dvd LENGTH('a)"

lemma whole_bytes_simps [simp]:
  "whole_bytes TYPE(8)" "whole_bytes TYPE(16)" "whole_bytes TYPE(32)" "whole_bytes TYPE(64)"
  by (simp_all add: whole_bytes_def)

lemma pow_byte_size: "whole_bytes TYPE('a::len) \<Longrightarrow> 256 ^ byte_size TYPE('a) = (2::nat) ^ LENGTH('a)"
  by (auto simp: whole_bytes_def byte_size_def power_mult [of "2::nat" 8, simplified])

lemma unat_of_le_nat:
  assumes "whole_bytes TYPE('a::len)" and "length bs = byte_size TYPE('a)"
  shows "unat (of_nat (le_nat bs) :: 'a word) = le_nat bs"
  using le_nat_bound [of bs] assms by (intro unat_of_nat_small) (simp add: pow_byte_size)

text \<open>A big-endian field read with a native load and \<open>big_to_native\<close> has the same value on every host.\<close>

lemma big_to_native_load:
  assumes "whole_bytes TYPE('a::len)" and "length bs = byte_size TYPE('a)"
  shows "big_to_native en (load_native en bs :: 'a word) = of_nat (be_nat bs)"
proof (cases en)
  case Little_Endian
  have "le_bytes (byte_size TYPE('a)) (le_nat bs) = bs"
    using le_bytes_le_nat [of bs] assms(2) by simp
  then show ?thesis
    using Little_Endian assms
    by (simp add: big_to_native_def load_native_def byte_swap_def unat_of_le_nat)
qed (simp add: big_to_native_def load_native_def)

text \<open>A store of \<open>native_to_little\<close> writes the little-endian bytes on every host.\<close>

lemma store_native_to_little:
  assumes "whole_bytes TYPE('a::len)"
  shows "store_native en (native_to_little en (w :: 'a word)) = le_bytes (byte_size TYPE('a)) (unat w)"
proof (cases en)
  case Big_Endian
  let ?bs = "rev (le_bytes (byte_size TYPE('a)) (unat w))"
  have "unat (byte_swap w) = le_nat ?bs"
    unfolding byte_swap_def be_nat_def using assms by (intro unat_of_le_nat) simp_all
  moreover have "le_bytes (byte_size TYPE('a)) (le_nat ?bs) = ?bs"
    using le_bytes_le_nat [of ?bs] by simp
  ultimately show ?thesis
    using Big_Endian by (simp add: store_native_def native_to_little_def be_bytes_def)
qed (simp add: store_native_def native_to_little_def)

lemma load_native_le_bytes:
  assumes "whole_bytes TYPE('a::len)"
  shows "load_native Little_Endian (le_bytes (byte_size TYPE('a)) (unat w)) = (w :: 'a word)"
  using assms by (simp add: load_native_def le_nat_le_bytes pow_byte_size)

subsection \<open>The read cursor\<close>

definition read_bytes :: "nat \<Rightarrow> u8 list \<Rightarrow> (u8 list \<times> u8 list) option" where
  "read_bytes n bs = (if n \<le> length bs then Some (take n bs, drop n bs) else None)"

lemma read_bytes_Some [cursor_simps]: "n \<le> length bs \<Longrightarrow> read_bytes n bs = Some (take n bs, drop n bs)"
  by (simp add: read_bytes_def)

definition byte_char :: "u8 \<Rightarrow> char" where
  "byte_char b = char_of (unat b)"

definition char_byte :: "char \<Rightarrow> u8" where
  "char_byte c = of_nat (of_char c)"

lemma byte_char_char_byte [simp]: "byte_char (char_byte c) = c"
proof -
  have "unat (of_nat (of_char c) :: u8) = of_char c"
    by (rule unat_of_nat_small) simp
  then show ?thesis by (simp add: byte_char_def char_byte_def)
qed

end
