(* ===== verification/Snapshot_Codec.thy ===== *)
theory Snapshot_Codec imports
  Bytes
  Engine_Invariants
begin

section \<open>Snapshot codec: the engine as bytes\<close>

text \<open>
  \<open>serialize_state\<close> and \<open>deserialize_state\<close> of \<open>src/src/nasdaq_exec/itch_exec.hpp\<close> with the helpers
  they call. A writer is the bytes written and the room \<open>l\<close> left in the vector, a write beyond it is
  outside the buffer (\<open>None\<close>); a reader is the bytes left. A failed read is the \<open>false\<close> of the code,
  and what the failed call has already changed stays changed. Integers are stored in little-endian
  order, but read back in the order of the host. Allocation failures are not modelled.
\<close>

subsection \<open>Integers\<close>

type_synonym writer = "u8 list \<times> nat"

definition serialize_integer :: "endian \<Rightarrow> 'a::len word \<Rightarrow> writer \<Rightarrow> writer option" where
  "serialize_integer en v = (\<lambda>(written, l).
     if l < byte_size TYPE('a) then None
     else Some (written @ store_native en (native_to_little en v), l - byte_size TYPE('a)))"

definition deserialize_integer :: "endian \<Rightarrow> u8 list \<Rightarrow> ('a::len word \<times> u8 list) option" where
  "deserialize_integer en bs =
     (if length bs < byte_size TYPE('a) then None
      else Some (load_native en (take (byte_size TYPE('a)) bs), drop (byte_size TYPE('a)) bs))"

subsection \<open>Order maps\<close>

fun serialize_orders :: "endian \<Rightarrow> (u64 \<times> order_t) list \<Rightarrow> writer \<Rightarrow> writer option" where
  "serialize_orders en [] w = Some w"
| "serialize_orders en ((reference, ord) # rest) w = do {
     w1 \<leftarrow> serialize_integer en reference w;
     w2 \<leftarrow> serialize_integer en (ord_price ord) w1;
     w3 \<leftarrow> serialize_integer en (ord_shares ord) w2;
     serialize_orders en rest w3
   }"

definition serialize_order_map :: "endian \<Rightarrow> order_map \<Rightarrow> writer \<Rightarrow> writer option" where
  "serialize_order_map en orders w = do {
     w1 \<leftarrow> serialize_integer en (of_nat (length (tbl_entries orders)) :: u64) w;
     serialize_orders en (tbl_entries orders) w1
   }"

text \<open>The loop of \<open>deserialize_order_map\<close>: whether all entries were there, the bytes left, the table.\<close>

fun deserialize_orders :: "endian \<Rightarrow> nat \<Rightarrow> u8 list \<Rightarrow> order_map \<Rightarrow> bool \<times> u8 list \<times> order_map" where
  "deserialize_orders en 0 bs orders = (True, bs, orders)"
| "deserialize_orders en (Suc n) bs orders =
     (case deserialize_integer en bs :: (u64 \<times> u8 list) option of
        None \<Rightarrow> (False, bs, orders)
      | Some (reference, bs1) \<Rightarrow>
          (case deserialize_integer en bs1 :: (u32 \<times> u8 list) option of
             None \<Rightarrow> (False, bs1, orders)
           | Some (price, bs2) \<Rightarrow>
               (case deserialize_integer en bs2 :: (u32 \<times> u8 list) option of
                  None \<Rightarrow> (False, bs2, orders)
                | Some (shares, bs3) \<Rightarrow>
                    deserialize_orders en n bs3 (tbl_emplace reference (Order price shares) orders))))"

text \<open>The reservation of the announced number of entries is left out; it throws when there is no memory for them.\<close>

definition deserialize_order_map :: "endian \<Rightarrow> u8 list \<Rightarrow> order_map \<Rightarrow> bool \<times> u8 list \<times> order_map" where
  "deserialize_order_map en bs orders =
     (case deserialize_integer en bs :: (u64 \<times> u8 list) option of
        None \<Rightarrow> (False, bs, orders)
      | Some (s, bs1) \<Rightarrow> deserialize_orders en (unat s) bs1 [])"

definition serialized_size :: "order_map \<Rightarrow> nat" where
  "serialized_size m = 8 + length (tbl_entries m) * (8 + 4 * 2)"

subsection \<open>The state of the engine\<close>

definition serialize_state :: "endian \<Rightarrow> engine \<Rightarrow> u8 list option" where
  "serialize_state en e = do {
     w1 \<leftarrow> serialize_order_map en (all_buy_orders e)
             ([], serialized_size (all_buy_orders e) + serialized_size (all_sell_orders e));
     (written, l) \<leftarrow> serialize_order_map en (all_sell_orders e) w1;
     Some (written @ replicate l 0)
   }"

definition deserialize_state :: "endian \<Rightarrow> u8 list \<Rightarrow> engine \<Rightarrow> bool \<times> u8 list \<times> engine" where
  "deserialize_state en bs e =
     (case deserialize_order_map en bs (all_buy_orders e) of
        (False, bs', m) \<Rightarrow> (False, bs', e\<lparr>all_buy_orders := m\<rparr>)
      | (True, bs', m) \<Rightarrow>
          (case deserialize_order_map en bs' (all_sell_orders e) of
             (b, bs'', m') \<Rightarrow> (b, bs'', e\<lparr>all_buy_orders := m, all_sell_orders := m'\<rparr>)))"

subsection \<open>Codecs of a fixed width\<close>

locale fixed_codec =
  fixes enc :: "'a \<Rightarrow> u8 list" and dec :: "u8 list \<Rightarrow> ('a \<times> u8 list) option" and width :: nat
  assumes enc_width: "length (enc x) = width"
    and dec_enc: "dec (enc x @ rest) = Some (x, rest)"
    and dec_None_iff: "dec bs = None \<longleftrightarrow> length bs < width"
    and dec_moves: "dec bs = Some (x, rest) \<Longrightarrow> rest = drop width bs"
begin

lemma enc_inject: "enc x = enc y \<longleftrightarrow> x = y"
  by (metis dec_enc option.inject prod.inject)

lemma dec_Some_length: "dec bs = Some (x, rest) \<Longrightarrow> length rest = length bs - width \<and> width \<le> length bs"
  using dec_None_iff [of bs] dec_moves [of bs x rest] by simp

lemma dec_total: "width \<le> length bs \<Longrightarrow> \<exists>x. dec bs = Some (x, drop width bs)"
  using dec_None_iff [of bs] dec_moves [of bs] by (cases "dec bs") auto

end

definition integer_bytes :: "'a::len word \<Rightarrow> u8 list" where
  "integer_bytes v = le_bytes (byte_size TYPE('a)) (unat v)"

lemma load_store_native:
  assumes "whole_bytes TYPE('a::len)"
  shows "load_native en (store_native en w) = (w :: 'a word)"
  using assms by (cases en) (simp_all add: load_native_def store_native_def le_nat_le_bytes be_nat_be_bytes pow_byte_size)

lemma integer_codec:
  assumes "whole_bytes TYPE('a::len)"
  shows "fixed_codec (store_native en :: 'a word \<Rightarrow> u8 list) (deserialize_integer en) (byte_size TYPE('a))"
proof
  show "length (store_native en (x :: 'a word)) = byte_size TYPE('a)" for x
    by (cases en) (simp_all add: store_native_def)
  then show "deserialize_integer en (store_native en x @ rest) = Some (x :: 'a word, rest)" for x rest
    by (simp add: deserialize_integer_def load_store_native assms)
qed (auto simp: deserialize_integer_def split: if_splits)

interpretation codec32: fixed_codec "store_native en :: u32 \<Rightarrow> u8 list" "deserialize_integer en" 4 for en
  using integer_codec [where 'a = 32] by simp

interpretation codec64: fixed_codec "store_native en :: u64 \<Rightarrow> u8 list" "deserialize_integer en" 8 for en
  using integer_codec [where 'a = 64] by simp

lemma integer_bytes_native: "integer_bytes v = store_native Little_Endian v"
  by (simp add: integer_bytes_def store_native_def)

lemma length_integer_bytes [simp]: "length (integer_bytes (v :: 'a::len word)) = byte_size TYPE('a)"
  by (simp add: integer_bytes_def)

lemmas read_integer_bytes =
  codec32.dec_enc [of Little_Endian, folded integer_bytes_native]
  codec64.dec_enc [of Little_Endian, folded integer_bytes_native]

lemma serialize_integer_bytes:
  assumes "whole_bytes TYPE('a::len)" and "byte_size TYPE('a) \<le> l"
  shows "serialize_integer en (v :: 'a word) (written, l) = Some (written @ integer_bytes v, l - byte_size TYPE('a))"
  using assms by (simp add: serialize_integer_def integer_bytes_def store_native_to_little)

subsection \<open>What is written\<close>

definition order_bytes :: "u64 \<times> order_t \<Rightarrow> u8 list" where
  "order_bytes e = integer_bytes (fst e) @ integer_bytes (ord_price (snd e)) @ integer_bytes (ord_shares (snd e))"

definition map_bytes :: "order_map \<Rightarrow> u8 list" where
  "map_bytes m = integer_bytes (of_nat (length m) :: u64) @ concat (map order_bytes m)"

definition state_bytes :: "engine \<Rightarrow> u8 list" where
  "state_bytes e = map_bytes (all_buy_orders e) @ map_bytes (all_sell_orders e)"

lemma length_order_bytes [simp]: "length (order_bytes e) = 16"
  by (simp add: order_bytes_def)

lemma length_concat_order_bytes [simp]: "length (concat (map order_bytes m)) = 16 * length m"
  by (induction m) simp_all

lemma length_map_bytes [simp]: "length (map_bytes m) = serialized_size m"
  by (simp add: map_bytes_def serialized_size_def tbl_entries_def)

lemma serialize_orders_bytes:
  "16 * length m \<le> l \<Longrightarrow>
   serialize_orders en m (written, l) = Some (written @ concat (map order_bytes m), l - 16 * length m)"
  by (induction m arbitrary: written l) (auto simp: serialize_integer_bytes order_bytes_def)

lemma serialize_order_map_bytes:
  "serialized_size m \<le> l \<Longrightarrow>
   serialize_order_map en m (written, l) = Some (written @ map_bytes m, l - serialized_size m)"
  by (simp add: serialize_order_map_def serialized_size_def serialize_integer_bytes tbl_entries_def
      serialize_orders_bytes map_bytes_def)

text \<open>The vector is exactly large enough, and what it holds does not depend on the host.\<close>

lemma serialize_state_bytes: "serialize_state en e = Some (state_bytes e)"
  by (simp add: serialize_state_def serialize_order_map_bytes state_bytes_def)

subsection \<open>Reading back\<close>

lemma deserialize_orders_bytes:
  "distinct (map fst (m0 @ m)) \<Longrightarrow>
   deserialize_orders Little_Endian (length m) (concat (map order_bytes m) @ rest) m0 = (True, rest, m0 @ m)"
proof (induction m arbitrary: m0)
  case (Cons e m)
  obtain r p s where e: "e = (r, Order p s)" by (metis order_t.exhaust prod.exhaust)
  have "tbl_emplace r (Order p s) m0 = m0 @ [e]"
    using Cons.prems e by (cases "map_of m0 r") (auto simp: tbl_emplace_def dest!: map_of_SomeD intro: rev_image_eqI)
  then show ?case
    using Cons e by (simp add: order_bytes_def read_integer_bytes)
qed simp

lemma deserialize_order_map_bytes:
  assumes "tbl_ok m" and "length m < 2 ^ 64"
  shows "deserialize_order_map Little_Endian (map_bytes m @ rest) m0 = (True, rest, m)"
  using assms deserialize_orders_bytes [of "[]" m rest]
  by (simp add: deserialize_order_map_def map_bytes_def read_integer_bytes unat_of_nat_small tbl_ok_def)

text \<open>How far a reader gets: it fails exactly when bytes are missing.\<close>

lemma deserialize_orders_enough:
  "fst (deserialize_orders en n bs m) \<longleftrightarrow> 16 * n \<le> length bs"
  "16 * n \<le> length bs \<Longrightarrow> fst (snd (deserialize_orders en n bs m)) = drop (16 * n) bs"
proof (induction n arbitrary: bs m)
  case (Suc n)
  { case 1 then show ?case
      using Suc(1) by (auto split: option.splits dest!: codec32.dec_Some_length codec64.dec_Some_length
        simp: codec32.dec_None_iff codec64.dec_None_iff) }
  { case 2 then show ?case
      using Suc(2) by (auto split: option.splits dest!: codec32.dec_Some_length codec64.dec_Some_length codec32.dec_moves codec64.dec_moves
        simp: ac_simps codec32.dec_None_iff codec64.dec_None_iff) }
qed simp_all

definition map_width :: "endian \<Rightarrow> u8 list \<Rightarrow> nat" where
  "map_width en bs = 8 + 16 * unat (load_native en (take 8 bs) :: u64)"

lemma deserialize_order_map_enough:
  "fst (deserialize_order_map en bs m) \<longleftrightarrow> 8 \<le> length bs \<and> map_width en bs \<le> length bs"
  "fst (deserialize_order_map en bs m) \<Longrightarrow>
     fst (snd (deserialize_order_map en bs m)) = drop (map_width en bs) bs"
  by (auto simp: deserialize_order_map_def deserialize_integer_def map_width_def deserialize_orders_enough ac_simps)

lemma map_width_bytes:
  assumes "length m < 2 ^ 64" and "8 \<le> k"
  shows "map_width Little_Endian (take k (map_bytes m @ rest)) = serialized_size m"
proof -
  have "take 8 (take k (map_bytes m @ rest)) = integer_bytes (of_nat (length m) :: u64)"
    using assms by (simp add: map_bytes_def min_absorb2)
  moreover have "load_native Little_Endian (integer_bytes w) = w" for w :: u64
    using load_native_le_bytes [where 'a = 64, of w] by (simp add: integer_bytes_def)
  ultimately show ?thesis
    using assms by (simp add: map_width_def serialized_size_def tbl_entries_def unat_of_nat_small)
qed

lemma deserialize_state_enough:
  "fst (deserialize_state en bs e) \<longleftrightarrow>
     (\<exists>rest m. deserialize_order_map en bs (all_buy_orders e) = (True, rest, m) \<and>
        fst (deserialize_order_map en rest (all_sell_orders e)))"
  by (auto simp: deserialize_state_def split: prod.splits bool.splits)

lemma take_append_drop_take: "n \<le> k \<Longrightarrow> length xs = n \<Longrightarrow> drop n (take k (xs @ ys)) = take (k - n) ys"
  by (simp add: drop_take)

definition small_tables :: "engine \<Rightarrow> bool" where
  "small_tables e \<longleftrightarrow> length (all_buy_orders e) < 2 ^ 64 \<and> length (all_sell_orders e) < 2 ^ 64"

lemma deserialize_state_bytes:
  assumes "tables_ok e" and "small_tables e"
  shows "deserialize_state Little_Endian (state_bytes e @ rest) e0 = (True, rest, e)"
  using assms deserialize_order_map_bytes [of "all_buy_orders e" "map_bytes (all_sell_orders e) @ rest" "all_buy_orders e0"]
    deserialize_order_map_bytes [of "all_sell_orders e" rest "all_sell_orders e0"]
  by (simp add: deserialize_state_def state_bytes_def tables_ok_def small_tables_def)

lemma deserialize_prefix_fails:
  assumes small: "small_tables e" and k: "k < length (state_bytes e)"
  shows "\<not> fst (deserialize_state Little_Endian (take k (state_bytes e)) e0)"
proof
  let ?b = "all_buy_orders e" and ?s = "all_sell_orders e" and ?bs = "take k (state_bytes e)"
  assume "fst (deserialize_state Little_Endian ?bs e0)"
  then obtain rest m where b: "deserialize_order_map Little_Endian ?bs (all_buy_orders e0) = (True, rest, m)"
    and s: "fst (deserialize_order_map Little_Endian rest (all_sell_orders e0))"
    by (auto simp: deserialize_state_enough)
  have k8: "8 \<le> k" "map_width Little_Endian ?bs \<le> k" "rest = drop (map_width Little_Endian ?bs) ?bs"
    using deserialize_order_map_enough [of Little_Endian ?bs "all_buy_orders e0"] b by auto
  have w: "map_width Little_Endian ?bs = serialized_size ?b"
    using map_width_bytes [of ?b k "map_bytes ?s"] small k8 by (simp add: state_bytes_def small_tables_def)
  let ?k = "k - serialized_size ?b"
  have rest: "rest = take ?k (map_bytes ?s)"
    using k8 w by (simp add: state_bytes_def take_append_drop_take)
  have "8 \<le> ?k" "map_width Little_Endian rest \<le> length rest"
    using deserialize_order_map_enough(1) [of Little_Endian rest] s rest by auto
  moreover have "map_width Little_Endian rest = serialized_size ?s"
    using map_width_bytes [of ?s ?k "[]"] small calculation(1) rest by (simp add: small_tables_def)
  ultimately show False
    using rest k by (simp add: state_bytes_def)
qed

subsection \<open>Where the two directions part\<close>

text \<open>On a big-endian host an integer comes back with its bytes reversed.\<close>

lemma big_endian_reads_swapped:
  "load_native Big_Endian (integer_bytes (w :: 'a::len word)) = byte_swap w"
  by (simp add: load_native_def byte_swap_def integer_bytes_def)

lemma le_bytes_add: "le_bytes (m + n) x = le_bytes m x @ le_bytes n (x div 256 ^ m)"
proof (induction m arbitrary: x)
  case (Suc m)
  then show ?case by (simp add: div_mult2_eq)
qed simp

lemma be_nat_append: "be_nat (xs @ ys) = be_nat ys + 256 ^ length ys * be_nat xs"
  by (simp add: be_nat_def le_nat_append)

lemma le_nat_zero_iff: "le_nat bs = 0 \<longleftrightarrow> (\<forall>b\<in>set bs. b = 0)"
  by (induction bs) (auto simp: unat_eq_0)

lemma byte_swap_large:
  assumes "0 < n" and "n < 2 ^ 32"
  shows "2 ^ 32 \<le> unat (byte_swap (of_nat n :: u64))"
proof -
  let ?w = "of_nat n :: u64"
  have n: "unat ?w = n" using assms by (intro unat_of_nat_small) simp
  have "le_nat (le_bytes 4 n) = n" using assms by (simp add: le_nat_le_bytes)
  then have nz: "be_nat (le_bytes 4 n) \<noteq> 0"
    using assms le_nat_zero_iff [of "le_bytes 4 n"] le_nat_zero_iff [of "rev (le_bytes 4 n)"] by (simp add: be_nat_def)
  have "le_bytes 8 n = le_bytes 4 n @ le_bytes 4 0"
    using le_bytes_add [of 4 4 n] assms by simp
  then have "be_nat (le_bytes 8 n) = be_nat (le_bytes 4 0) + 2 ^ 32 * be_nat (le_bytes 4 n)"
    by (simp add: be_nat_append)
  then have "2 ^ 32 \<le> be_nat (le_bytes 8 n)" using nz by simp
  moreover have "unat (byte_swap ?w) = be_nat (le_bytes 8 n)"
    using be_nat_bound [of "le_bytes 8 n"] n unfolding byte_swap_def by (subst unat_of_nat_small) simp_all
  ultimately show ?thesis by simp
qed

lemma big_endian_rejects:
  assumes "0 < length (all_buy_orders e)" and "length (all_buy_orders e) + length (all_sell_orders e) < 2 ^ 31"
  shows "\<not> fst (deserialize_state Big_Endian (state_bytes e) e0)"
proof
  let ?b = "all_buy_orders e" and ?bs = "state_bytes e"
  assume "fst (deserialize_state Big_Endian ?bs e0)"
  then have "map_width Big_Endian ?bs \<le> length ?bs"
    using deserialize_order_map_enough(1) [of Big_Endian ?bs "all_buy_orders e0"] by (auto simp: deserialize_state_enough)
  moreover have "take 8 ?bs = integer_bytes (of_nat (length ?b) :: u64)"
    by (simp add: state_bytes_def map_bytes_def)
  ultimately have "8 + 16 * unat (byte_swap (of_nat (length ?b) :: u64)) \<le> length ?bs"
    by (simp add: map_width_def big_endian_reads_swapped)
  then show False
    using byte_swap_large [of "length ?b"] assms by (simp add: state_bytes_def serialized_size_def tbl_entries_def)
qed


subsection \<open>Snapshots as a whole\<close>

definition snapshot_engine :: engine where
  "snapshot_engine = \<lparr>all_buy_orders = [(7, Order 10000 70), (8, Order 9900 5)], all_sell_orders = [(9, Order 10100 1)]\<rparr>"

lemma snapshot_engine_ok: "tables_ok snapshot_engine" "small_tables snapshot_engine" "length (state_bytes snapshot_engine) = 64"
  by (simp_all add: snapshot_engine_def tables_ok_def tbl_ok_def small_tables_def state_bytes_def serialized_size_def tbl_entries_def)

text \<open>C12: A snapshot written on a host of either byte order restores, on a little-endian host, exactly the
  engine it was taken of, whatever engine it is read into, and leaves the bytes after it.\<close>

theorem snapshot_roundtrip:
  assumes "tables_ok e" and "small_tables e"
  shows "\<exists>bs. serialize_state en e = Some bs \<and> deserialize_state Little_Endian (bs @ rest) e0 = (True, rest, e)"
  using deserialize_state_bytes [OF assms] serialize_state_bytes by blast

theorem snapshot_roundtrip_witness:
  "\<exists>bs. serialize_state Little_Endian snapshot_engine = Some bs \<and>
     deserialize_state Little_Endian (bs @ [1]) engine_init = (True, [1], snapshot_engine)"
  using snapshot_roundtrip snapshot_engine_ok by blast

lemma cut_leaves_buys:
  assumes "tables_ok e" and "small_tables e" and k: "serialized_size (all_buy_orders e) \<le> k"
  shows "all_buy_orders (snd (snd (deserialize_state Little_Endian (take k (state_bytes e)) e0))) = all_buy_orders e"
proof -
  have "take k (state_bytes e) = map_bytes (all_buy_orders e) @ take (k - serialized_size (all_buy_orders e)) (map_bytes (all_sell_orders e))"
    using k by (simp add: state_bytes_def)
  then show ?thesis
    using assms(1,2) deserialize_order_map_bytes [of "all_buy_orders e"]
    by (simp add: deserialize_state_def tables_ok_def small_tables_def split: prod.splits)
qed

text \<open>A snapshot cut short is rejected, but not without effect: when the cut leaves the buying side
  whole, the rejected call has already put that side into the engine.\<close>

theorem truncated_snapshot_rejected:
  assumes "tables_ok e" and "small_tables e" and "serialize_state en e = Some bs" and "k < length bs"
  shows "\<not> fst (deserialize_state Little_Endian (take k bs) e0) \<and>
    (serialized_size (all_buy_orders e) \<le> k \<longrightarrow>
      all_buy_orders (snd (snd (deserialize_state Little_Endian (take k bs) e0))) = all_buy_orders e)"
proof -
  have bs: "bs = state_bytes e" using assms(3) by (simp add: serialize_state_bytes)
  show ?thesis using deserialize_prefix_fails [OF assms(2)] cut_leaves_buys [OF assms(1,2)] assms(4) bs by blast
qed

theorem truncated_snapshot_rejected_witness:
  "\<exists>bs. serialize_state Little_Endian snapshot_engine = Some bs \<and>
     \<not> fst (deserialize_state Little_Endian (take 60 bs) engine_init) \<and>
     all_buy_orders (snd (snd (deserialize_state Little_Endian (take 60 bs) engine_init))) = all_buy_orders snapshot_engine"
  using truncated_snapshot_rejected [OF snapshot_engine_ok(1,2), of Little_Endian "state_bytes snapshot_engine" 60 engine_init]
  by (simp add: snapshot_engine_ok serialize_state_bytes) (simp add: snapshot_engine_def serialized_size_def tbl_entries_def)

text \<open>On a big-endian host no snapshot with buying orders is restored, not even one the same host has
  written: the integers are stored in little-endian order and read back in the order of the host.\<close>

theorem snapshot_lost_on_big_endian:
  assumes "all_buy_orders e \<noteq> []" and "length (all_buy_orders e) + length (all_sell_orders e) < 2 ^ 31"
    and "serialize_state Big_Endian e = Some bs"
  shows "\<not> fst (deserialize_state Big_Endian bs e0)"
  using big_endian_rejects [of e e0] assms by (simp add: serialize_state_bytes)

theorem snapshot_lost_on_big_endian_witness:
  "\<exists>bs. serialize_state Big_Endian snapshot_engine = Some bs \<and> \<not> fst (deserialize_state Big_Endian bs engine_init)"
  using snapshot_lost_on_big_endian [of snapshot_engine]
  by (simp add: serialize_state_bytes) (simp add: snapshot_engine_def)

subsection \<open>Snapshots of any bytes\<close>

lemma integer_bytes_load:
  assumes "deserialize_integer Little_Endian bs = Some (v, rest)" and "whole_bytes TYPE('a::len)"
  shows "bs = integer_bytes (v :: 'a word) @ rest"
proof -
  let ?n = "byte_size TYPE('a)"
  have l: "?n \<le> length bs" and v: "v = load_native Little_Endian (take ?n bs)" and r: "rest = drop ?n bs"
    using assms(1) by (auto simp: deserialize_integer_def split: if_splits)
  have "integer_bytes v = take ?n bs"
    using assms(2) l le_bytes_le_nat [of "take ?n bs"]
    by (simp add: integer_bytes_def v load_native_def unat_of_le_nat min_absorb2)
  then show ?thesis using r by simp
qed

lemmas bytes_of_loads = integer_bytes_load [where 'a = 32, simplified] integer_bytes_load [where 'a = 64, simplified]

lemma length_emplace: "length (tbl_emplace k v t) \<le> length t + 1"
  by (simp add: tbl_emplace_def split: option.splits)

lemma emplace_grows: "length (tbl_emplace k v t) = length t + 1 \<Longrightarrow> tbl_emplace k v t = t @ [(k, v)]"
  by (simp add: tbl_emplace_def split: option.splits)

text \<open>One turn of the loop: it fails inside the buffer, or takes the sixteen bytes of an order.\<close>

lemma deserialize_orders_short:
  assumes "length bs < 16"
  shows "\<exists>k. k \<le> length bs \<and> deserialize_orders en (Suc n) bs m = (False, drop k bs, m)"
proof -
  consider "length bs < 8" | "8 \<le> length bs" "length bs < 12" | "12 \<le> length bs" using assms by linarith
  then show ?thesis
  proof cases
    case 1
    then show ?thesis by (intro exI [of _ 0]) (simp add: deserialize_integer_def)
  next
    case 2
    then show ?thesis by (intro exI [of _ 8]) (simp add: deserialize_integer_def)
  next
    case 3
    then show ?thesis using assms by (intro exI [of _ 12]) (simp add: deserialize_integer_def)
  qed
qed

lemma deserialize_orders_step:
  assumes "16 \<le> length bs"
  shows "\<exists>e. deserialize_orders en (Suc n) bs m = deserialize_orders en n (drop 16 bs) (tbl_emplace (fst e) (snd e) m) \<and>
    (en = Little_Endian \<longrightarrow> bs = order_bytes e @ drop 16 bs)"
proof -
  have l: "8 \<le> length bs" "4 \<le> length (drop 8 bs)" "4 \<le> length (drop 12 bs)" using assms by simp_all
  obtain r :: u64 where r: "deserialize_integer en bs = Some (r, drop 8 bs)"
    using codec64.dec_total [OF l(1), of en] by blast
  obtain p :: u32 where p: "deserialize_integer en (drop 8 bs) = Some (p, drop 12 bs)"
    using codec32.dec_total [OF l(2), of en] by auto
  obtain s :: u32 where s: "deserialize_integer en (drop 12 bs) = Some (s, drop 16 bs)"
    using codec32.dec_total [OF l(3), of en] by auto
  have "bs = order_bytes (r, Order p s) @ drop 16 bs" if "en = Little_Endian"
    using bytes_of_loads(2) [of bs r] bytes_of_loads(1) [of "drop 8 bs" p] bytes_of_loads(1) [of "drop 12 bs" s] r p s that
    by (simp add: order_bytes_def)
  then show ?thesis using r p s by (intro exI [of _ "(r, Order p s)"]) simp
qed

text \<open>
  Whatever the bytes are, the table stays a table, the reader stays inside them, and a table with as
  many new entries as were read is what the bytes are the serialization of.
\<close>

definition reads_table :: "endian \<Rightarrow> nat \<Rightarrow> u8 list \<Rightarrow> order_map \<Rightarrow> bool \<times> u8 list \<times> order_map \<Rightarrow> bool" where
  "reads_table en n bs m = (\<lambda>(b, rest, m'). tbl_ok m' \<and> (\<exists>k. k \<le> length bs \<and> rest = drop k bs) \<and> length m' \<le> length m + n \<and>
     (b \<longrightarrow> length bs = 16 * n + length rest) \<and>
     (b \<and> en = Little_Endian \<and> length m' = length m + n \<longrightarrow> (\<exists>xs. m' = m @ xs \<and> bs = concat (map order_bytes xs) @ rest)))"

lemma deserialize_orders_any: "tbl_ok m \<Longrightarrow> reads_table en n bs m (deserialize_orders en n bs m)"
proof (induction n arbitrary: bs m)
  case 0
  then show ?case by (auto simp: reads_table_def intro: exI [of _ "[]"] exI [of _ 0])
next
  case (Suc n)
  show ?case
  proof (cases "length bs < 16")
    case True
    then show ?thesis
      using deserialize_orders_short [of bs en n m] Suc.prems by (auto simp: reads_table_def simp del: deserialize_orders.simps)
  next
    case False
    then obtain e where e: "deserialize_orders en (Suc n) bs m = deserialize_orders en n (drop 16 bs) (tbl_emplace (fst e) (snd e) m)"
      "en = Little_Endian \<Longrightarrow> bs = order_bytes e @ drop 16 bs"
      using deserialize_orders_step [of bs en n m] by (auto simp del: deserialize_orders.simps)
    let ?m = "tbl_emplace (fst e) (snd e) m"
    obtain b rest m' where r: "deserialize_orders en n (drop 16 bs) ?m = (b, rest, m')" by (metis prod_cases3)
    have IH: "reads_table en n (drop 16 bs) ?m (b, rest, m')"
      using Suc.IH [of ?m "drop 16 bs"] Suc.prems r by (simp add: tbl.preserves)
    then obtain k where k: "k \<le> length (drop 16 bs)" "rest = drop k (drop 16 bs)" by (auto simp: reads_table_def)
    have inside: "\<exists>k. k \<le> length bs \<and> rest = drop k bs"
      using k False by (intro exI [of _ "k + 16"]) auto
    have whole: "\<exists>xs. m' = m @ xs \<and> bs = concat (map order_bytes xs) @ rest"
      if w: "b" "en = Little_Endian" "length m' = length m + Suc n"
    proof -
      have grown: "length ?m = length m + 1" and m': "length m' = length ?m + n"
        using IH w length_emplace [of "fst e" "snd e" m] by (auto simp: reads_table_def)
      then obtain xs where "m' = ?m @ xs" "drop 16 bs = concat (map order_bytes xs) @ rest"
        using IH w by (auto simp: reads_table_def)
      then show ?thesis
        using emplace_grows [OF grown] e(2) [OF w(2)] by (intro exI [of _ "e # xs"]) simp
    qed
    have "length m' \<le> length m + Suc n" "b \<longrightarrow> length bs = 16 * Suc n + length rest" "tbl_ok m'"
      using IH False length_emplace [of "fst e" "snd e" m] by (auto simp: reads_table_def)
    then show ?thesis unfolding e(1) r using inside whole by (simp add: reads_table_def)
  qed
qed

lemma deserialize_order_map_any:
  assumes "tbl_ok m" and "deserialize_order_map en bs m = (b, rest, m')"
  shows "tbl_ok m' \<and> (\<exists>k. k \<le> length bs \<and> rest = drop k bs) \<and>
    (b \<longrightarrow> serialized_size m' + length rest \<le> length bs) \<and>
    (b \<and> en = Little_Endian \<and> serialized_size m' + length rest = length bs \<longrightarrow> bs = map_bytes m' @ rest)"
proof (cases "length bs < 8")
  case True
  then show ?thesis using assms by (auto simp: deserialize_order_map_def deserialize_integer_def intro: exI [of _ 0])
next
  case False
  then obtain s :: u64 where s: "deserialize_integer en bs = Some (s, drop 8 bs)"
    using codec64.dec_total [of bs en] by auto
  have "reads_table en (unat s) (drop 8 bs) [] (b, rest, m')"
    using deserialize_orders_any [of "[]" en "unat s" "drop 8 bs"] assms(2) s
    by (simp add: deserialize_order_map_def tbl_ok_def)
  then have ok: "tbl_ok m'" and k: "\<exists>k. k \<le> length bs - 8 \<and> rest = drop k (drop 8 bs)" and le: "length m' \<le> unat s"
    and len: "b \<Longrightarrow> length bs - 8 = 16 * unat s + length rest"
    and whole: "b \<Longrightarrow> en = Little_Endian \<Longrightarrow> length m' = unat s \<Longrightarrow> drop 8 bs = concat (map order_bytes m') @ rest"
    by (auto simp: reads_table_def)
  have inside: "\<exists>k. k \<le> length bs \<and> rest = drop k bs"
  proof -
    from k obtain k where "k \<le> length bs - 8" "rest = drop k (drop 8 bs)" by blast
    then show ?thesis using False by (intro exI [of _ "k + 8"]) simp
  qed
  have canonical: "bs = map_bytes m' @ rest"
    if w: "b" "en = Little_Endian" "serialized_size m' + length rest = length bs"
  proof -
    have n: "length m' = unat s" using len [OF w(1)] w(3) False by (simp add: serialized_size_def tbl_entries_def)
    then have "of_nat (length m') = s" by simp
    then show ?thesis
      using whole [OF w(1,2) n] bytes_of_loads(2) [of bs s "drop 8 bs"] s w(2) by (simp add: map_bytes_def)
  qed
  have "serialized_size m' + length rest \<le> length bs" if "b"
    using len [OF that] le False by (simp add: serialized_size_def tbl_entries_def)
  then show ?thesis using ok inside canonical by blast
qed

text \<open>C13: Whatever bytes are read into an engine, no access is outside them, the engine that results has distinct
  keys in both tables and needs no more bytes than were taken; and bytes that are accepted and repeat no
  reference are exactly the serialization of the engine they give.\<close>

theorem any_bytes_give_an_engine:
  assumes "tables_ok e"
  shows "\<exists>b k e'. deserialize_state en bs e = (b, drop k bs, e') \<and> k \<le> length bs \<and> tables_ok e' \<and>
    (b \<longrightarrow> length (state_bytes e') \<le> k) \<and>
    (b \<and> en = Little_Endian \<and> length (state_bytes e') = k \<longrightarrow> serialize_state en e' = Some (take k bs))"
proof -
  obtain b1 rest1 m1 where buy: "deserialize_order_map en bs (all_buy_orders e) = (b1, rest1, m1)" by (metis prod_cases3)
  obtain b2 rest2 m2 where sell: "deserialize_order_map en rest1 (all_sell_orders e) = (b2, rest2, m2)" by (metis prod_cases3)
  have ok: "tbl_ok (all_buy_orders e)" "tbl_ok (all_sell_orders e)" using assms by (simp_all add: tables_ok_def)
  note B = deserialize_order_map_any [OF ok(1) buy] and S = deserialize_order_map_any [OF ok(2) sell]
  obtain k1 where k1: "k1 \<le> length bs" "rest1 = drop k1 bs" using B by blast
  show ?thesis
  proof (cases b1)
    case False
    then have "deserialize_state en bs e = (False, drop k1 bs, e\<lparr>all_buy_orders := m1\<rparr>)"
      using buy k1 by (simp add: deserialize_state_def)
    moreover have "tables_ok (e\<lparr>all_buy_orders := m1\<rparr>)" using B ok by (simp add: tables_ok_def)
    ultimately show ?thesis using k1 by blast
  next
    case True
    obtain k2 where k2: "k2 \<le> length rest1" "rest2 = drop k2 rest1" using S by blast
    let ?e = "e\<lparr>all_buy_orders := m1, all_sell_orders := m2\<rparr>" and ?k = "k1 + k2"
    have r: "deserialize_state en bs e = (b2, drop ?k bs, ?e)"
      using buy sell True k1 k2 by (simp add: deserialize_state_def ac_simps)
    have le: "?k \<le> length bs" using k1 k2 by simp
    have t: "tables_ok ?e" using B S by (simp add: tables_ok_def)
    have B2: "serialized_size m1 + length rest1 \<le> length bs"
      "en = Little_Endian \<Longrightarrow> serialized_size m1 + length rest1 = length bs \<Longrightarrow> bs = map_bytes m1 @ rest1"
      using B True by blast+
    have S2: "b2 \<Longrightarrow> serialized_size m2 + length rest2 \<le> length rest1"
      "b2 \<Longrightarrow> en = Little_Endian \<Longrightarrow> serialized_size m2 + length rest2 = length rest1 \<Longrightarrow> rest1 = map_bytes m2 @ rest2"
      using S by blast+
    have l1: "length rest1 = length bs - k1" and l2: "length rest2 = length rest1 - k2" using k1 k2 by simp_all
    have size: "serialized_size m1 \<le> k1" using B2(1) l1 k1(1) by linarith
    have size2: "b2 \<Longrightarrow> serialized_size m2 \<le> k2" using S2(1) l2 k2(1) by linarith
    have parts: "state_bytes ?e = map_bytes m1 @ map_bytes m2" by (simp add: state_bytes_def)
    have canonical: "serialize_state en ?e = Some (take ?k bs)"
      if w: "b2" "en = Little_Endian" "length (state_bytes ?e) = ?k"
    proof -
      have "serialized_size m1 + serialized_size m2 = ?k" using w(3) by (simp add: parts)
      then have "serialized_size m1 = k1" "serialized_size m2 = k2" using size size2 [OF w(1)] by linarith+
      then have "serialized_size m1 + length rest1 = length bs" "serialized_size m2 + length rest2 = length rest1"
        using l1 l2 k1(1) k2(1) by linarith+
      note bytes = B2(2) [OF w(2) this(1)] S2(2) [OF w(1,2) this(2)]
      have bs: "bs = state_bytes ?e @ rest2"
        unfolding parts by (subst bytes(1), subst bytes(2)) simp
      then have "take ?k bs = state_bytes ?e" using w(3) by (metis append_eq_conv_conj)
      then show ?thesis by (simp only: serialize_state_bytes)
    qed
    have "b2 \<Longrightarrow> length (state_bytes ?e) \<le> ?k" using size size2 by (simp add: parts)
    then show ?thesis using r le t canonical by blast
  qed
qed

theorem any_bytes_give_an_engine_witness:
  "\<exists>b k e'. deserialize_state Little_Endian [3, 0, 0, 0, 0, 0, 0, 0, 9] snapshot_engine = (b, drop k [3, 0, 0, 0, 0, 0, 0, 0, 9], e') \<and>
     k \<le> 9 \<and> tables_ok e'"
proof -
  let ?bs = "[3, 0, 0, 0, 0, 0, 0, 0, 9] :: u8 list"
  obtain b k e' where "deserialize_state Little_Endian ?bs snapshot_engine = (b, drop k ?bs, e')" "k \<le> length ?bs" "tables_ok e'"
    using any_bytes_give_an_engine [OF snapshot_engine_ok(1), of Little_Endian ?bs] by blast
  moreover have "length ?bs = 9" by simp
  ultimately show ?thesis by metis
qed

end
