(* ===== verification/Order_Books.thy ===== *)
theory Order_Books imports
  Engine_Invariants
  "HOL-Library.Product_Lexorder"
begin

section \<open>Order books: sorted, collapsed and printed\<close>

text \<open>
  \<open>make_book\<close> and \<open>collapse_book\<close> of \<open>src/src/nasdaq_exec/itch_exec.hpp\<close>, and the rows that
  \<open>print_books\<close> and \<open>print_collapsed_books\<close> of \<open>nasdaq_exec.cpp\<close> hand to the formatter. The flat
  containers of Boost are sorted sequences: \<open>flat_multimap\<close> is the list of its pairs, \<open>flat_map\<close> the
  list of its pairs with distinct keys.
\<close>

subsection \<open>The books\<close>

type_synonym order_book = "(order_t \<times> u64) list"

type_synonym collapsed_book = "(u32 \<times> u32) list"

text \<open>The entries are copied in the order of a visit and sorted; \<open>std::pair\<close> compares lexicographically.\<close>

definition make_book :: "order_map \<Rightarrow> order_book" where
  "make_book m = sort (map (\<lambda>(reference, ord). (ord, reference)) (tbl_entries m))"

definition buy_book :: "engine \<Rightarrow> order_book" where
  "buy_book e = make_book (all_buy_orders e)"

definition sell_book :: "engine \<Rightarrow> order_book" where
  "sell_book e = make_book (all_sell_orders e)"

text \<open>\<open>flat_map::emplace\<close>: in key order, and nothing when the key is there.\<close>

definition flat_map_emplace :: "u32 \<Rightarrow> u32 \<Rightarrow> collapsed_book \<Rightarrow> collapsed_book" where
  "flat_map_emplace p s res = (if p \<in> fst ` set res then res else insort_key fst (p, s) res)"

text \<open>\<open>it_dest->second += s\<close>, where \<open>it_dest\<close> is the entry of the key \<open>p\<close>.\<close>

definition add_at :: "u32 \<Rightarrow> u32 \<Rightarrow> collapsed_book \<Rightarrow> collapsed_book" where
  "add_at p s res = map (\<lambda>e. if fst e = p then (p, snd e + s) else e) res"

fun collapse_loop :: "order_book \<Rightarrow> u32 \<Rightarrow> collapsed_book \<Rightarrow> collapsed_book" where
  "collapse_loop [] it_dest res = res"
| "collapse_loop ((ord, _) # src) it_dest res =
     (if it_dest = ord_price ord then collapse_loop src it_dest (add_at it_dest (ord_shares ord) res)
      else collapse_loop src (ord_price ord) (flat_map_emplace (ord_price ord) (ord_shares ord) res))"

fun collapse_book :: "order_book \<Rightarrow> collapsed_book" where
  "collapse_book [] = []"
| "collapse_book ((ord, _) # src) =
     collapse_loop src (ord_price ord) (flat_map_emplace (ord_price ord) (ord_shares ord) [])"

subsection \<open>Sorted books\<close>

lemma make_book_sorted: "sorted (make_book m)"
  by (simp add: make_book_def)

lemma mset_make_book: "mset (make_book m) = image_mset (\<lambda>(r, ord). (ord, r)) (mset (tbl_entries m))"
  by (simp add: make_book_def)

lemma make_book_permutation: "mset m = mset m' \<Longrightarrow> make_book m = make_book m'"
  unfolding make_book_def tbl_entries_def
  by (intro properties_for_sort [symmetric]) simp_all

lemma in_make_book_iff: "tbl_ok m \<Longrightarrow> (ord, r) \<in> set (make_book m) \<longleftrightarrow> tbl_find r m = Some ord"
  by (auto simp: make_book_def tbl.in_entries_iff [symmetric] image_iff split: prod.splits)

lemma sorted_prices: "sorted b \<Longrightarrow> sorted (map (\<lambda>e. ord_price (fst e)) (b :: order_book))"
proof (induction b)
  case (Cons e b)
  have "ord_price (fst e) \<le> ord_price (fst x)" if "x \<in> set b" for x
    using Cons.prems that by (cases e; cases x) (auto simp: less_order_t_def less_eq_order_t_def less_eq_prod_def)
  then show ?case using Cons by simp
qed simp

subsection \<open>Collapsed books\<close>

definition price_shares :: "order_book \<Rightarrow> u32 \<Rightarrow> u32" where
  "price_shares b p = sum_list (map (\<lambda>e. ord_shares (fst e)) (filter (\<lambda>e. ord_price (fst e) = p) b))"

definition prices :: "order_book \<Rightarrow> u32 set" where
  "prices b = (\<lambda>e. ord_price (fst e)) ` set b"

lemma price_shares_simps [simp]:
  "price_shares [] p = 0"
  "price_shares (e # b) p = (if ord_price (fst e) = p then ord_shares (fst e) else 0) + price_shares b p"
  by (simp_all add: price_shares_def)

lemma prices_simps [simp]:
  "prices [] = {}" "prices (e # b) = insert (ord_price (fst e)) (prices b)"
  by (simp_all add: prices_def)

lemma insort_key_last: "\<forall>x\<in>set res. fst x < (p :: u32) \<Longrightarrow> insort_key fst (p, s) res = res @ [(p, s :: u32)]"
  by (induction res) auto

lemma map_of_add_at: "map_of (add_at p s res) q = (if q = p then map_option (\<lambda>a. a + s) (map_of res p) else map_of res q)"
  by (induction res) (auto simp: add_at_def)

lemma map_fst_add_at: "map fst (add_at p s res) = map fst res"
  by (induction res) (auto simp: add_at_def)

lemma collapse_loop_correct:
  assumes "sorted (map (\<lambda>e. ord_price (fst e)) src)" and "\<forall>p\<in>prices src. dest \<le> p"
    and "sorted_wrt (<) (map fst res)" and "\<forall>k\<in>fst ` set res. k \<le> dest" and "map_of res dest \<noteq> None"
  shows "sorted_wrt (<) (map fst (collapse_loop src dest res)) \<and>
     (\<forall>p. map_of (collapse_loop src dest res) p =
       (case map_of res p of
          Some a \<Rightarrow> Some (a + price_shares src p)
        | None \<Rightarrow> if p \<in> prices src then Some (price_shares src p) else None))"
  using assms
proof (induction src dest res rule: collapse_loop.induct)
  case (1 dest res)
  then show ?case by (auto split: option.splits)
next
  case (2 ord r src dest res)
  note srt = 2(3) and ge = 2(4) and res = 2(5-7)
  have srt': "sorted (map (\<lambda>e. ord_price (fst e)) src)" and ge': "\<forall>p\<in>prices src. ord_price ord \<le> p"
    using srt by (auto simp: prices_def)
  show ?case
  proof (cases "dest = ord_price ord")
    case True
    let ?res = "add_at dest (ord_shares ord) res"
    have keys: "fst ` set ?res = fst ` set res"
      by (metis map_fst_add_at list.set_map)
    have "sorted_wrt (<) (map fst (collapse_loop src dest ?res)) \<and>
       (\<forall>p. map_of (collapse_loop src dest ?res) p =
       (case map_of ?res p of
          Some a \<Rightarrow> Some (a + price_shares src p)
        | None \<Rightarrow> if p \<in> prices src then Some (price_shares src p) else None))"
      using True srt' ge' res keys by (intro 2(1)) (auto simp: map_fst_add_at map_of_add_at)
    then show ?thesis
      using True res(3) by (auto simp: map_of_add_at ac_simps split: option.splits)
  next
    case False
    then have gt: "\<forall>x\<in>set res. fst x < ord_price ord"
      using ge res(2) by fastforce
    let ?res = "res @ [(ord_price ord, ord_shares ord)]"
    have new: "map_of res (ord_price ord) = None"
      using gt by (auto simp: map_of_eq_None_iff)
    have emp: "flat_map_emplace (ord_price ord) (ord_shares ord) res = ?res"
      using gt by (auto simp: flat_map_emplace_def insort_key_last)
    have "sorted_wrt (<) (map fst (collapse_loop src (ord_price ord) ?res)) \<and>
       (\<forall>p. map_of (collapse_loop src (ord_price ord) ?res) p =
       (case map_of ?res p of
          Some a \<Rightarrow> Some (a + price_shares src p)
        | None \<Rightarrow> if p \<in> prices src then Some (price_shares src p) else None))"
    proof -
      have "sorted_wrt (<) (map fst ?res)" using res(1) gt by (simp add: sorted_wrt_append)
      moreover have "\<forall>k\<in>fst ` set ?res. k \<le> ord_price ord" using gt by (auto simp: less_imp_le)
      moreover have "map_of ?res (ord_price ord) \<noteq> None" using new by simp
      ultimately show ?thesis using 2(2) [OF False] srt' ge' unfolding emp by blast
    qed
    then show ?thesis
      using False new emp by (auto simp: map_add_def split: option.splits)
  qed
qed

lemma collapse_book_correct:
  assumes "sorted b"
  shows "sorted_wrt (<) (map fst (collapse_book b)) \<and>
     (\<forall>p. map_of (collapse_book b) p = (if p \<in> prices b then Some (price_shares b p) else None))"
proof (cases b)
  case (Cons e src)
  obtain ord r where e: "e = (ord, r)" by fastforce
  have s: "sorted (map (\<lambda>e. ord_price (fst e)) b)" using sorted_prices [OF assms] .
  have "sorted_wrt (<) (map fst (collapse_loop src (ord_price ord) [(ord_price ord, ord_shares ord)])) \<and>
     (\<forall>p. map_of (collapse_loop src (ord_price ord) [(ord_price ord, ord_shares ord)]) p =
       (case map_of [(ord_price ord, ord_shares ord)] p of
          Some a \<Rightarrow> Some (a + price_shares src p)
        | None \<Rightarrow> if p \<in> prices src then Some (price_shares src p) else None))"
    using s Cons e by (intro collapse_loop_correct) (auto simp: prices_def)
  then show ?thesis
    using Cons e by (auto simp: flat_map_emplace_def split: option.splits)
qed simp


subsection \<open>What the books hold\<close>

text \<open>C6: The book of a side lists every order of its table exactly once, in ascending order of price, then
  shares, then reference, and two tables with the same entries have the same book, whatever the order
  a visit of the hash table takes.\<close>

theorem make_book_correct:
  assumes "tbl_ok m"
  shows "sorted (make_book m) \<and> sorted (map (\<lambda>e. ord_price (fst e)) (make_book m)) \<and> distinct (make_book m) \<and>
    length (make_book m) = length (tbl_entries m) \<and>
    (\<forall>ord r. (ord, r) \<in> set (make_book m) \<longleftrightarrow> tbl_find r m = Some ord) \<and>
    (\<forall>m'. same_table m m' \<longrightarrow> make_book m' = make_book m)"
proof -
  have "distinct (map (\<lambda>(r, ord). (ord, r)) m)"
    using assms by (auto simp: tbl_ok_def distinct_map inj_on_def)
  then have d: "distinct (make_book m)" by (simp add: make_book_def tbl_entries_def)
  have p: "make_book m' = make_book m" if "same_table m m'" for m'
    using that make_book_permutation [of m' m] by (auto simp: same_table_iff_mset)
  show ?thesis
    using make_book_sorted [of m] sorted_prices [of "make_book m"] d p in_make_book_iff [OF assms]
    by (simp add: make_book_def [of m])
qed

theorem make_book_correct_witness:
  "make_book [(7, Order 300 5), (9, Order 200 8), (8, Order 300 4)] =
     [(Order 200 8, 9), (Order 300 4, 8), (Order 300 5, 7)] \<and>
   length (make_book [(7 :: u64, Order 300 5), (9, Order 200 8), (8, Order 300 4)]) = 3"
proof -
  have ok: "tbl_ok [(7 :: u64, Order 300 5), (9, Order 200 8), (8, Order 300 4)]" by code_simp
  have "make_book [(7, Order 300 5), (9, Order 200 8), (8, Order 300 4)] =
     [(Order 200 8, 9), (Order 300 4, 8), (Order 300 5, 7)]" by code_simp
  then show ?thesis using make_book_correct [OF ok] by (simp add: tbl_entries_def)
qed

text \<open>C7: Collapsing a sorted book gives one entry per price, in strictly ascending order of price, whose
  shares are the 32-bit sum of the shares of all orders at that price; no price is added or lost.\<close>

theorem collapse_book_sums:
  assumes "sorted b"
  shows "sorted_wrt (<) (map fst (collapse_book b)) \<and>
     (\<forall>p. map_of (collapse_book b) p = (if p \<in> prices b then Some (price_shares b p) else None))"
  using assms by (rule collapse_book_correct)

theorem collapse_book_sums_witness:
  "collapse_book (make_book [(7, Order 300 5), (9, Order 200 8), (8, Order 300 4)]) = [(200, 8), (300, 9)] \<and>
   sorted_wrt (<) (map fst (collapse_book (make_book [(7, Order 300 5), (9, Order 200 8), (8, Order 300 4)])))"
proof -
  have "collapse_book (make_book [(7, Order 300 5), (9, Order 200 8), (8, Order 300 4)]) = [(200, 8), (300, 9)]"
    by code_simp
  then show ?thesis using collapse_book_sums [OF make_book_sorted] by blast
qed

end
