(* ===== verification/Book_Printing.thy ===== *)
theory Book_Printing imports
  Order_Books
begin

section \<open>Book printing: bars and rows\<close>

text \<open>
  \<open>build_bar\<close>, \<open>print_books\<close> and \<open>print_collapsed_books\<close> of \<open>src/src/nasdaq_exec/nasdaq_exec.cpp\<close>,
  up to the call of the formatter: the rows in the order they are printed, each with its price as a
  double, its shares, its reference and its bar. The layout of a row is the formatting library's.
  The length of a bar is computed in floating point; \<open>build_bar_exact\<close> shows that it is nevertheless
  the integer quotient.
\<close>

subsection \<open>The rows\<close>

text \<open>\<open>None\<close> is the undefined conversion of a double that is no \<open>size_type\<close>.\<close>

definition build_bar :: "nat \<Rightarrow> u32 \<Rightarrow> u32 \<Rightarrow> string option" where
  "build_bar max_length current_value max_value =
     (if max_value \<le> current_value then Some (replicate max_length CHR ''#'')
      else map_option (\<lambda>l. replicate (nat l) CHR ''#'')
        (dbl_to_unsigned 64
          (dbl_div (dbl_mul (dbl_of_int (int max_length)) (dbl_of_int (uint current_value)))
            (dbl_of_int (uint max_value)))))"

text \<open>\<open>std::max_element\<close>: the first entry no later one exceeds; the caller has checked for an empty book.\<close>

fun max_element :: "('a \<Rightarrow> 'b::linorder) \<Rightarrow> 'a \<Rightarrow> 'a list \<Rightarrow> 'a" where
  "max_element f largest [] = largest"
| "max_element f largest (x # xs) = max_element f (if f largest < f x then x else largest) xs"

record book_row =
  row_price :: double
  row_shares :: u32
  row_reference :: u64
  row_bar :: string

record collapsed_row =
  crow_price :: double
  crow_shares :: u32
  crow_bar :: string

text \<open>What a printing function hands on: nothing, or the selling rows and then the buying rows.\<close>

datatype 'r printout = No_Rows | Rows (selling_rows: "'r list") (buying_rows: "'r list")

definition book_row_of :: "u32 \<Rightarrow> order_t \<times> u64 \<Rightarrow> book_row option" where
  "book_row_of the_max e =
     map_option (\<lambda>bar. \<lparr>row_price = dbl_div (dbl_of_int (uint (ord_price (fst e)))) (to_double 1000),
         row_shares = ord_shares (fst e), row_reference = snd e, row_bar = bar\<rparr>)
       (build_bar 20 (ord_shares (fst e)) the_max)"

definition print_books :: "order_book \<Rightarrow> order_book \<Rightarrow> book_row printout option" where
  "print_books buying_book selling_book =
     (if buying_book = [] \<or> selling_book = [] then Some No_Rows
      else
        let it_max_sell = max_element (\<lambda>e. ord_shares (fst e)) (hd selling_book) (tl selling_book);
            it_max_buy = max_element (\<lambda>e. ord_shares (fst e)) (hd buying_book) (tl buying_book);
            the_max = max (ord_shares (fst it_max_sell)) (ord_shares (fst it_max_buy))
        in do {
             selling \<leftarrow> those (map (book_row_of the_max) (rev selling_book));
             buying \<leftarrow> those (map (book_row_of the_max) (rev buying_book));
             Some (Rows selling buying)
           })"

definition collapsed_row_of :: "u32 \<Rightarrow> u32 \<times> u32 \<Rightarrow> collapsed_row option" where
  "collapsed_row_of the_max e =
     map_option (\<lambda>bar. \<lparr>crow_price = dbl_div (dbl_of_int (uint (fst e))) (to_double 1000),
         crow_shares = snd e, crow_bar = bar\<rparr>)
       (build_bar 20 (snd e) the_max)"

definition print_collapsed_books :: "collapsed_book \<Rightarrow> collapsed_book \<Rightarrow> collapsed_row printout option" where
  "print_collapsed_books buying_book selling_book =
     (if buying_book = [] \<or> selling_book = [] then Some No_Rows
      else
        let it_max_sell = max_element snd (hd selling_book) (tl selling_book);
            it_max_buy = max_element snd (hd buying_book) (tl buying_book);
            the_max = max (snd it_max_sell) (snd it_max_buy)
        in do {
             selling \<leftarrow> those (map (collapsed_row_of the_max) (rev selling_book));
             buying \<leftarrow> those (map (collapsed_row_of the_max) (rev buying_book));
             Some (Rows selling buying)
           })"

subsection \<open>The bars\<close>

definition bar_length :: "nat \<Rightarrow> u32 \<Rightarrow> u32 \<Rightarrow> nat" where
  "bar_length max_length current_value max_value =
     (if max_value \<le> current_value then max_length
      else max_length * unat current_value div unat max_value)"

lemma scaled_quotient:
  assumes L: "0 \<le> L" "L < 2 ^ 20" and c: "0 \<le> c" "c < m" "m < 2 ^ 32"
  shows "dbl_to_unsigned 64 (dbl_div (dbl_mul (dbl_of_int L) (dbl_of_int c)) (dbl_of_int m)) = Some (L * c div m)"
proof -
  have m: "0 < m" using c by linarith
  have Lc: "0 \<le> L * c" "L * c \<le> 2 ^ 20 * 2 ^ 32"
    using c L by (intro mult_nonneg_nonneg mult_mono; linarith)+
  have "L * c div m \<le> L * m div m"
    using c m L by (intro zdiv_mono1 mult_left_mono) linarith+
  then have q: "0 \<le> L * c div m" "L * c div m \<le> L" using m Lc by (simp_all add: pos_imp_zdiv_nonneg_iff)
  have "(of_int (L * c) / of_int m :: rat) \<le> of_int (L * c)"
    using m Lc(1) by (simp add: divide_le_eq mult_le_cancel_left1 flip: of_int_mult)
  also have "(of_int (L * c) :: rat) \<le> of_int (2 ^ 20 * 2 ^ 32)" using Lc by (simp only: of_int_le_iff)
  also have "(of_int (2 ^ 20 * 2 ^ 32) :: rat) \<le> 2 ^ 1000" by simp
  finally have fin: "\<bar>of_int (L * c) / of_int m :: rat\<bar> \<le> 2 ^ 1000"
    using m L c(1) by (subst abs_of_nonneg) (simp_all add: mult_nonneg_nonneg)
  have "dbl_mul (dbl_of_int L) (dbl_of_int c) = Finite (of_int (L * c))"
    using c L Lc to_double_of_int [of "L * c"] by (simp add: dbl_of_int_exact)
  then have "dbl_div (dbl_mul (dbl_of_int L) (dbl_of_int c)) (dbl_of_int m)
      = Finite (round53 (of_int (L * c) / of_int m))"
    using c m fin by (simp add: dbl_of_int_exact to_double_finite)
  moreover have "\<lfloor>round53 (of_int (L * c) / of_int m)\<rfloor> = L * c div m"
    using c m q L Lc by (intro floor_round53_quotient) linarith+
  moreover have "0 \<le> round53 (of_int (L * c) / of_int m)"
    using m L c(1) by (intro round53_nonneg divide_nonneg_pos) simp_all
  ultimately show ?thesis
    using q L by (simp add: trunc_rat_def)
qed

lemma build_bar_exact:
  assumes "max_length < 2 ^ 20"
  shows "build_bar max_length current max_value = Some (replicate (bar_length max_length current max_value) CHR ''#'')"
proof (cases "max_value \<le> current")
  case False
  then have lt: "uint current < uint max_value" by (simp add: word_le_def)
  have "uint max_value < 2 ^ LENGTH(32)" by (rule uint_lt2p)
  then have c: "0 \<le> uint current" "uint current < uint max_value" "uint max_value < 2 ^ 32"
    using lt by simp_all
  have "int (max_length * unat current div unat max_value) = int max_length * uint current div uint max_value"
    by (simp only: zdiv_int of_nat_mult uint_nat)
  then have "nat (int max_length * uint current div uint max_value) = max_length * unat current div unat max_value"
    by (metis nat_int)
  then show ?thesis
    using False assms scaled_quotient [OF _ _ c, of "int max_length"]
    by (simp add: build_bar_def bar_length_def)
qed (simp add: build_bar_def bar_length_def)

lemma bar_length_le: "bar_length l c m \<le> l"
proof -
  have "l * unat c div unat m \<le> l" if "unat c < unat m"
    using that div_le_mono [of "l * unat c" "l * unat m" "unat m"] by (simp add: order.trans)
  then show ?thesis by (simp add: bar_length_def word_less_nat_alt not_le)
qed

lemma bar_length_mono: "c \<le> c' \<Longrightarrow> bar_length l c m \<le> bar_length l c' m"
  using bar_length_le [of l c m]
  by (auto simp: bar_length_def word_le_nat_alt intro: div_le_mono)

lemma max_element_ge: "f largest \<le> f (max_element f largest xs) \<and> (\<forall>x\<in>set xs. f x \<le> f (max_element f largest xs))"
  by (induction f largest xs rule: max_element.induct) (auto split: if_splits intro: order.trans less_imp_le)

lemma max_element_in: "max_element f largest xs \<in> insert largest (set xs)"
  by (induction f largest xs rule: max_element.induct) (auto split: if_splits)


subsection \<open>The rows of the books\<close>

definition book_row_with :: "u32 \<Rightarrow> order_t \<times> u64 \<Rightarrow> book_row" where
  "book_row_with the_max e = \<lparr>row_price = dbl_div (dbl_of_int (uint (ord_price (fst e)))) (to_double 1000),
     row_shares = ord_shares (fst e), row_reference = snd e,
     row_bar = replicate (bar_length 20 (ord_shares (fst e)) the_max) CHR ''#''\<rparr>"

lemma book_row_of_with: "book_row_of the_max e = Some (book_row_with the_max e)"
  by (simp add: book_row_of_def build_bar_exact book_row_with_def)

lemma book_rows_with: "those (map (book_row_of the_max) es) = Some (map (book_row_with the_max) es)"
  by (induction es) (simp_all add: book_row_of_with)

text \<open>The price of a row is rounded, which keeps the order of the prices.\<close>

lemma row_price_mono:
  assumes "ord_price (fst e) \<le> ord_price (fst e')"
  shows "dbl_ge (row_price (book_row_with m e')) (row_price (book_row_with m e))"
proof -
  have price: "row_price (book_row_with m e) = Finite (round53 (of_int (uint (ord_price (fst e))) / 1000))" for e
  proof -
    have u: "uint (ord_price (fst e)) < 2 ^ 32" using uint_lt2p [of "ord_price (fst e)"] by simp
    then have "(of_int (uint (ord_price (fst e))) :: rat) \<le> of_int (2 ^ 32)" by (simp only: of_int_le_iff)
    also have "(of_int (2 ^ 32) :: rat) \<le> 2 ^ 1000 * 1000" by simp
    finally have le: "(of_int (uint (ord_price (fst e))) :: rat) \<le> 2 ^ 1000 * 1000" .
    have "(0 :: rat) \<le> of_int (uint (ord_price (fst e)))" by (simp only: of_int_0_le_iff uint_ge_0)
    then have "\<bar>of_int (uint (ord_price (fst e))) / 1000 :: rat\<bar> \<le> 2 ^ 1000"
      using le by (simp add: divide_le_eq)
    moreover have "to_double 1000 = Finite 1000" using to_double_of_int [of 1000] by simp
    ultimately show ?thesis using u by (simp add: book_row_with_def dbl_of_int_exact to_double_finite)
  qed
  have "(of_int (uint (ord_price (fst e))) :: rat) \<le> of_int (uint (ord_price (fst e')))"
    using assms by (simp only: of_int_le_iff word_le_def)
  then have "(of_int (uint (ord_price (fst e))) / 1000 :: rat) \<le> of_int (uint (ord_price (fst e'))) / 1000"
    by (rule divide_right_mono) simp
  then have "round53 (of_int (uint (ord_price (fst e))) / 1000) \<le> round53 (of_int (uint (ord_price (fst e'))) / 1000)"
    by (rule round53_mono)
  then show ?thesis unfolding dbl_ge_def price by auto
qed

lemma rows_descend:
  assumes "sorted book"
  shows "sorted_wrt (\<lambda>x y. dbl_ge (row_price x) (row_price y)) (map (book_row_with m) (rev book))"
proof -
  have "sorted_wrt (\<lambda>x y. ord_price (fst x) \<le> ord_price (fst y)) book"
    using sorted_prices [OF assms] by (simp add: sorted_wrt_map)
  then have "sorted_wrt (\<lambda>x y. ord_price (fst y) \<le> ord_price (fst x)) (rev book)" by (simp add: sorted_wrt_rev)
  then show ?thesis unfolding sorted_wrt_map by (rule sorted_wrt_mono_rel [rotated]) (simp add: row_price_mono)
qed

text \<open>C27: The detailed book of sorted sides prints nothing when either of them is empty. Otherwise it prints one
  row per order, the selling side and then the buying side, each from the highest price down. A bar is twenty
  characters scaled by the shares of the row over the largest order of both sides: the exact integer quotient
  although it is computed in floating point, never more than twenty, and longer for more shares.\<close>

theorem print_books_rows:
  assumes "sorted buying" and "sorted selling"
  shows "if buying = [] \<or> selling = [] then print_books buying selling = Some No_Rows
    else \<exists>the_max. print_books buying selling =
         Some (Rows (map (book_row_with the_max) (rev selling)) (map (book_row_with the_max) (rev buying))) \<and>
       (\<forall>rows\<in>{map (book_row_with the_max) (rev selling), map (book_row_with the_max) (rev buying)}.
          sorted_wrt (\<lambda>x y. dbl_ge (row_price x) (row_price y)) rows) \<and>
       the_max \<in> (\<lambda>e. ord_shares (fst e)) ` (set buying \<union> set selling) \<and>
       (\<forall>e\<in>set buying \<union> set selling. ord_shares (fst e) \<le> the_max) \<and>
       (\<forall>e\<in>set buying \<union> set selling. length (row_bar (book_row_with the_max e)) =
          (if ord_shares (fst e) = the_max then 20 else 20 * unat (ord_shares (fst e)) div unat the_max))"
proof (cases "buying = [] \<or> selling = []")
  case False
  then have ne: "buying \<noteq> []" "selling \<noteq> []" by simp_all
  let ?f = "\<lambda>e :: order_t \<times> u64. ord_shares (fst e)"
  let ?s = "max_element ?f (hd selling) (tl selling)" and ?b = "max_element ?f (hd buying) (tl buying)"
  define the_max where "the_max = max (?f ?s) (?f ?b)"
  have s: "set selling = insert (hd selling) (set (tl selling))" and b: "set buying = insert (hd buying) (set (tl buying))"
    using ne by (cases selling; cases buying; simp)+
  have "?s \<in> set selling" "?b \<in> set buying"
    unfolding s b by (rule max_element_in)+
  then have in_max: "the_max \<in> ?f ` (set buying \<union> set selling)" by (auto simp: the_max_def max_def)
  have ge: "?f e \<le> the_max" if "e \<in> set buying \<union> set selling" for e
    using that max_element_ge [of ?f "hd selling" "tl selling"] max_element_ge [of ?f "hd buying" "tl buying"]
    unfolding s b the_max_def by (auto intro: order.trans max.cobounded1 max.cobounded2)
  have len: "length (row_bar (book_row_with the_max e)) =
      (if ?f e = the_max then 20 else 20 * unat (?f e) div unat the_max)" if "e \<in> set buying \<union> set selling" for e
    using ge [OF that] by (simp add: book_row_with_def bar_length_def)
  have "print_books buying selling =
      Some (Rows (map (book_row_with the_max) (rev selling)) (map (book_row_with the_max) (rev buying)))"
    using ne by (simp add: print_books_def Let_def book_rows_with the_max_def)
  then show ?thesis
    unfolding if_not_P [OF False] using in_max ge len rows_descend [OF assms(1)] rows_descend [OF assms(2)] by blast
qed (simp add: print_books_def)

theorem print_books_rows_witness:
  "\<exists>the_max. print_books [(Order 200 8, 9)] [(Order 300 4, 8), (Order 400 2, 7)] =
     Some (Rows [book_row_with the_max (Order 400 2, 7), book_row_with the_max (Order 300 4, 8)]
       [book_row_with the_max (Order 200 8, 9)]) \<and> the_max \<in> {2, 4, 8}"
proof -
  have "sorted [(Order 200 8, 9 :: u64)]" "sorted [(Order 300 4, 8 :: u64), (Order 400 2, 7)]" by code_simp+
  from print_books_rows [OF this] show ?thesis by auto
qed

end
