(* ===== verification/Timespec.thy ===== *)
theory Timespec imports
  Prelude
  "HOL-Library.Signed_Division"
begin

section \<open>Timespec: points in time with nanoseconds\<close>

text \<open>
  \<open>utils::timespec\<close> of \<open>src/src/utils/timespec.hpp\<close>. Both counts are 64-bit signed integers, so an
  operation whose intermediate result does not fit is undefined behaviour: \<open>i64\<close> is the check, and
  \<open>None\<close> the outcome of an operation that fails it or an assertion. Division and remainder truncate
  towards zero, so the assertions on the remainder of a duration always hold.
  The contract is stated over \<open>nanos\<close>, the point in time as one number of nanoseconds.
\<close>

subsection \<open>The structure\<close>

datatype timespec = Timespec (ts_sec: int) (ts_nsec: int)

definition i64 :: "int \<Rightarrow> int option" where
  "i64 x = (if - (2 ^ 63) \<le> x \<and> x < 2 ^ 63 then Some x else None)"

definition ns_per_s :: int where
  "ns_per_s = 1000000000"

definition timespec_zero :: timespec where
  "timespec_zero = Timespec 0 0"

text \<open>
  \<open>reset\<close> sets both counts to zero. The client's \<open>qdb_timespec_t\<close> is a pair of 64-bit counts too, and a
  time is built from one and converted to one.
\<close>

definition timespec_reset :: "timespec \<Rightarrow> timespec" where
  [simp]: "timespec_reset t = timespec_zero"

record qdb_timespec =
  qts_sec :: int
  qts_nsec :: int

definition timespec_of_qdb :: "qdb_timespec \<Rightarrow> timespec" where
  "timespec_of_qdb ts = Timespec (qts_sec ts) (qts_nsec ts)"

definition as_timespec :: "timespec \<Rightarrow> qdb_timespec" where
  "as_timespec t = \<lparr>qts_sec = ts_sec t, qts_nsec = ts_nsec t\<rparr>"

text \<open>The constructor from a duration, here in nanoseconds, and the conversion of seconds.\<close>

definition timespec_of_duration :: "int \<Rightarrow> timespec" where
  "timespec_of_duration d = Timespec (d sdiv ns_per_s) (d smod ns_per_s)"

definition timespec_of_seconds :: "int \<Rightarrow> timespec" where
  "timespec_of_seconds s = Timespec s 0"

definition timespec_bool :: "timespec \<Rightarrow> bool" where
  "timespec_bool t \<longleftrightarrow> ts_sec t \<noteq> 0 \<or> ts_nsec t \<noteq> 0"

definition never_expires :: timespec where
  "never_expires = timespec_zero"

definition preserve_expiration :: timespec where
  "preserve_expiration = Timespec 0 (-1)"

definition as_ms_timestamp :: "timespec \<Rightarrow> u64 option" where
  "as_ms_timestamp t = do {
     ms \<leftarrow> i64 (ts_sec t * 1000);
     total \<leftarrow> i64 (ts_nsec t sdiv 1000000 + ms);
     Some (word_of_int total)
   }"

subsection \<open>Arithmetic\<close>

definition timespec_add :: "timespec \<Rightarrow> int \<Rightarrow> timespec option" where
  "timespec_add t duration = do {
     new_nsec \<leftarrow> i64 (ts_nsec t + duration);
     let dur_sec = new_nsec sdiv ns_per_s;
     new_nsec' \<leftarrow> i64 (new_nsec - dur_sec * ns_per_s);
     sec \<leftarrow> i64 (ts_sec t + dur_sec);
     Some (Timespec sec new_nsec')
   }"

text \<open>The last step of \<open>operator-=\<close>, between its two assertions.\<close>

definition take_nsec :: "int \<Rightarrow> int \<Rightarrow> int option" where
  "take_nsec nsec dur_nsec =
     (if dur_nsec \<le> nsec then do {nsec' \<leftarrow> i64 (nsec - dur_nsec); if nsec' < ns_per_s then Some nsec' else None} else None)"

definition timespec_sub :: "timespec \<Rightarrow> int \<Rightarrow> timespec option" where
  "timespec_sub t duration = (let dur_sec = duration sdiv ns_per_s in
     if ts_sec t < dur_sec then Some (timespec_reset t)
     else do {
       sec \<leftarrow> i64 (ts_sec t - dur_sec);
       let dur_nsec = duration - dur_sec * ns_per_s;
       if ts_nsec t < dur_nsec then
         (if sec = 0 then Some (timespec_reset t)
          else do {
            sec' \<leftarrow> i64 (sec - 1);
            nsec \<leftarrow> i64 (ts_nsec t + ns_per_s);
            nsec' \<leftarrow> take_nsec nsec dur_nsec;
            Some (Timespec sec' nsec')
          })
       else do {
         nsec \<leftarrow> take_nsec (ts_nsec t) dur_nsec;
         Some (Timespec sec nsec)
       }
     })"

text \<open>\<open>operator+\<close> and \<open>operator-\<close> work on a copy; the duration is converted to nanoseconds on the way.\<close>

definition timespec_plus :: "timespec \<Rightarrow> int \<Rightarrow> timespec option" where
  "timespec_plus ts duration = timespec_add ts duration"

definition timespec_minus :: "timespec \<Rightarrow> int \<Rightarrow> timespec option" where
  "timespec_minus ts duration = timespec_sub ts duration"

subsection \<open>Comparison\<close>

definition timespec_equal :: "timespec \<Rightarrow> timespec \<Rightarrow> bool" where
  "timespec_equal left right \<longleftrightarrow> ts_sec left = ts_sec right \<and> ts_nsec left = ts_nsec right"

definition timespec_unequal :: "timespec \<Rightarrow> timespec \<Rightarrow> bool" where
  "timespec_unequal left right \<longleftrightarrow> ts_sec left \<noteq> ts_sec right \<or> ts_nsec left \<noteq> ts_nsec right"

definition timespec_less :: "timespec \<Rightarrow> timespec \<Rightarrow> bool" where
  [simp]: "timespec_less left right \<longleftrightarrow>
     ts_sec left < ts_sec right \<or> (ts_sec left = ts_sec right \<and> ts_nsec left < ts_nsec right)"

definition timespec_greater :: "timespec \<Rightarrow> timespec \<Rightarrow> bool" where
  [simp]: "timespec_greater left right \<longleftrightarrow>
     ts_sec left > ts_sec right \<or> (ts_sec left = ts_sec right \<and> ts_nsec left > ts_nsec right)"

text \<open>\<open>operator<=\<close> is the negation of \<open>operator>\<close>, \<open>operator>=\<close> of \<open>operator<\<close>.\<close>

definition timespec_less_eq :: "timespec \<Rightarrow> timespec \<Rightarrow> bool" where
  [simp]: "timespec_less_eq left right \<longleftrightarrow> \<not> timespec_greater left right"

definition timespec_greater_eq :: "timespec \<Rightarrow> timespec \<Rightarrow> bool" where
  "timespec_greater_eq left right \<longleftrightarrow> \<not> timespec_less left right"

instantiation timespec :: linorder
begin

definition less_timespec :: "timespec \<Rightarrow> timespec \<Rightarrow> bool" where
  "less_timespec left right \<longleftrightarrow> timespec_less left right"

definition less_eq_timespec :: "timespec \<Rightarrow> timespec \<Rightarrow> bool" where
  "less_eq_timespec left right \<longleftrightarrow> timespec_less_eq left right"

instance
  by standard (auto simp: less_timespec_def less_eq_timespec_def intro: timespec.expand)

end

text \<open>The six operators are the equality and the linear order of the type.\<close>

lemma timespec_operators:
  "timespec_equal a b \<longleftrightarrow> a = b" "timespec_unequal a b \<longleftrightarrow> a \<noteq> b"
  "timespec_less a b \<longleftrightarrow> a < b" "timespec_greater a b \<longleftrightarrow> b < a"
  "timespec_less_eq a b \<longleftrightarrow> a \<le> b" "timespec_greater_eq a b \<longleftrightarrow> b \<le> a"
  by (cases a; cases b; auto simp: timespec_equal_def timespec_unequal_def timespec_greater_eq_def
      less_timespec_def less_eq_timespec_def)+

definition timespec_delta :: "timespec \<Rightarrow> timespec \<Rightarrow> int option" where
  "timespec_delta t other =
     (let (a, b) = (if timespec_greater t other then (t, other) else (other, t)) in do {
        s \<leftarrow> i64 (ts_sec a - ts_sec b);
        whole \<leftarrow> i64 (s * ns_per_s);
        n \<leftarrow> i64 (ts_nsec a - ts_nsec b);
        i64 (whole + n)
      })"

subsection \<open>What the operations compute\<close>

definition nanos :: "timespec \<Rightarrow> int" where
  "nanos t = ts_sec t * ns_per_s + ts_nsec t"

text \<open>The invariant the assertions of the source check: the nanoseconds are below one second.\<close>

definition normal :: "timespec \<Rightarrow> bool" where
  "normal t \<longleftrightarrow> 0 \<le> ts_nsec t \<and> ts_nsec t < ns_per_s"

definition dated :: "timespec \<Rightarrow> bool" where
  "dated t \<longleftrightarrow> normal t \<and> 0 \<le> ts_sec t \<and> ts_sec t < 2 ^ 62"

lemma sdiv_ns: "0 \<le> d \<Longrightarrow> d sdiv ns_per_s = d div ns_per_s"
  by (cases "d = 0") (simp_all add: signed_divide_int_eq_divide_int ns_per_s_def sgn_if)

lemma smod_ns: "0 \<le> d \<Longrightarrow> d smod ns_per_s = d mod ns_per_s"
  by (cases "d = 0") (simp_all add: signed_modulo_int_eq_modulo_int ns_per_s_def sgn_if)

lemma i64_Some: "- (2 ^ 63) \<le> x \<Longrightarrow> x < 2 ^ 63 \<Longrightarrow> i64 x = Some x"
  by (simp add: i64_def)

lemma timespec_of_duration_nanos:
  "0 \<le> d \<Longrightarrow> normal (timespec_of_duration d) \<and> nanos (timespec_of_duration d) = d"
  by (simp add: timespec_of_duration_def normal_def nanos_def sdiv_ns smod_ns)
    (simp add: ns_per_s_def)

lemma less_nanos: "normal a \<Longrightarrow> normal b \<Longrightarrow> a < b \<longleftrightarrow> nanos a < nanos b"
  by (cases a; cases b) (auto simp: normal_def nanos_def less_timespec_def ns_per_s_def)

lemma normal_eqI: "normal a \<Longrightarrow> normal b \<Longrightarrow> nanos a = nanos b \<Longrightarrow> a = b"
  by (metis less_nanos not_less_iff_gr_or_eq)

lemma timespec_add_nanos:
  assumes "dated t" and "0 \<le> d" and "d < 2 ^ 62"
  shows "\<exists>t'. timespec_add t d = Some t' \<and> normal t' \<and> 0 \<le> ts_sec t' \<and> nanos t' = nanos t + d"
proof -
  obtain s n where t: "t = Timespec s n" by (cases t)
  have b: "0 \<le> s" "s < 2 ^ 62" "0 \<le> n" "n < 1000000000"
    using assms(1) by (simp_all add: t dated_def normal_def ns_per_s_def)
  let ?q = "(n + d) div 1000000000"
  have q: "0 \<le> ?q" "?q < 2 ^ 62" "(n + d) - ?q * 1000000000 = (n + d) mod 1000000000"
    using b assms(2,3) by (simp_all add: pos_imp_zdiv_nonneg_iff minus_div_mult_eq_mod)
  have "timespec_add t d = Some (Timespec (s + ?q) ((n + d) mod 1000000000))"
    using b q assms(2,3) by (simp add: timespec_add_def t i64_Some sdiv_ns Let_def) (simp add: ns_per_s_def i64_Some)
  then show ?thesis
    using b q by (simp add: normal_def nanos_def t ns_per_s_def)
qed

lemma timespec_sub_nanos:
  assumes "dated t" and "0 \<le> d"
  shows "\<exists>t'. timespec_sub t d = Some t' \<and> dated t' \<and> nanos t' = max 0 (nanos t - d)"
proof -
  obtain s n where t: "t = Timespec s n" by (cases t)
  have b: "0 \<le> s" "s < 2 ^ 62" "0 \<le> n" "n < 1000000000"
    using assms(1) by (simp_all add: t dated_def normal_def ns_per_s_def)
  define q r where "q = d div 1000000000" and "r = d mod 1000000000"
  have d: "d = q * 1000000000 + r" "0 \<le> q" "0 \<le> r" "r < 1000000000"
    using assms(2) by (simp_all add: q_def r_def pos_imp_zdiv_nonneg_iff)
  have dur: "d sdiv ns_per_s = q" "d - q * ns_per_s = r"
    using sdiv_ns [OF assms(2)] d(1) unfolding ns_per_s_def q_def [symmetric] by linarith+
  consider "s < q" | "s = q" "n < r" | "q < s" "n < r" | "q \<le> s" "r \<le> n" by linarith
  then show ?thesis
  proof cases
    case 1
    then have "nanos t - d \<le> 0" using b d by (simp add: nanos_def t ns_per_s_def)
    moreover have "timespec_sub t d = Some timespec_zero"
      unfolding timespec_sub_def dur Let_def using 1 by (simp add: t)
    ultimately show ?thesis by (simp add: timespec_zero_def dated_def normal_def nanos_def ns_per_s_def)
  next
    case 2
    then have "nanos t - d \<le> 0" using d by (simp add: nanos_def t ns_per_s_def)
    moreover have "timespec_sub t d = Some timespec_zero"
      unfolding timespec_sub_def dur Let_def using 2 by (simp add: t i64_Some)
    ultimately show ?thesis by (simp add: timespec_zero_def dated_def normal_def nanos_def ns_per_s_def)
  next
    case 3
    have "timespec_sub t d = Some (Timespec (s - q - 1) (n + 1000000000 - r))"
      unfolding timespec_sub_def dur Let_def using 3 b d by (simp add: t i64_Some take_nsec_def) (simp add: ns_per_s_def i64_Some)
    then show ?thesis using 3 b d by (simp add: t dated_def normal_def nanos_def ns_per_s_def)
  next
    case 4
    have "timespec_sub t d = Some (Timespec (s - q) (n - r))"
      unfolding timespec_sub_def dur Let_def using 4 b d by (simp add: t i64_Some take_nsec_def ns_per_s_def)
    then show ?thesis using 4 b d by (simp add: t dated_def normal_def nanos_def ns_per_s_def)
  qed
qed

lemma timespec_delta_nanos:
  assumes "dated a" and "dated b" and "ts_sec a < 2 ^ 33" and "ts_sec b < 2 ^ 33"
  shows "timespec_delta a b = Some \<bar>nanos a - nanos b\<bar>"
proof -
  obtain s n s' n' where t: "a = Timespec s n" "b = Timespec s' n'" by (cases a; cases b)
  show ?thesis
    using assms less_nanos [of b a]
    by (auto simp: timespec_delta_def t i64_def dated_def normal_def nanos_def ns_per_s_def Let_def less_timespec_def)
qed


subsection \<open>Times and durations\<close>

text \<open>Adding a duration to a dated time moves it by exactly that many nanoseconds and leaves the
  nanoseconds of the second below one second, and subtracting the same duration gives the time back.\<close>

theorem add_then_subtract:
  assumes "dated t" and "ts_sec t < 2 ^ 61" and "0 \<le> d" and "d < 2 ^ 62"
  shows "\<exists>t'. timespec_add t d = Some t' \<and> normal t' \<and> nanos t' = nanos t + d \<and> timespec_sub t' d = Some t"
proof -
  obtain t' where t': "timespec_add t d = Some t'" "normal t'" "0 \<le> ts_sec t'" "nanos t' = nanos t + d"
    using timespec_add_nanos [OF assms(1,3,4)] by blast
  have "ts_sec t' * 1000000000 \<le> nanos t'" "nanos t < (ts_sec t + 1) * 1000000000"
    using t'(2) assms(1) by (simp_all add: normal_def dated_def nanos_def ns_per_s_def)
  then have "ts_sec t' < 2 ^ 62" using t'(4) assms(2,4) by simp
  then have "dated t'" using t' by (simp add: dated_def)
  from timespec_sub_nanos [OF this assms(3)] obtain u where
    u: "timespec_sub t' d = Some u" "dated u" "nanos u = max 0 (nanos t' - d)" by blast
  have "0 \<le> nanos t" using assms(1) by (simp add: dated_def normal_def nanos_def ns_per_s_def)
  then have "u = t" using u(2,3) t'(4) assms(1) by (intro normal_eqI) (simp_all add: dated_def)
  then show ?thesis using t' u(1) by blast
qed

theorem add_then_subtract_witness:
  "\<exists>t'. timespec_add (Timespec 5 999999999) 2 = Some t' \<and> nanos t' = 6000000001 \<and>
     timespec_sub t' 2 = Some (Timespec 5 999999999)"
proof -
  have "dated (Timespec 5 999999999)" "nanos (Timespec 5 999999999) = 5999999999"
    by (simp_all add: dated_def normal_def ns_per_s_def nanos_def)
  then show ?thesis using add_then_subtract [of "Timespec 5 999999999" 2] by auto
qed

text \<open>The comparison of two dated times is the comparison of their nanoseconds, and their difference is
  the distance of the nanoseconds, whichever of the two is subtracted from the other; a subtraction that
  would go below zero stops at the zero time.\<close>

theorem order_and_distance:
  assumes "dated a" and "dated b" and "ts_sec a < 2 ^ 33" and "ts_sec b < 2 ^ 33" and "0 \<le> d"
  shows "(a < b \<longleftrightarrow> nanos a < nanos b) \<and> (a \<le> b \<longleftrightarrow> nanos a \<le> nanos b) \<and>
    timespec_delta a b = Some \<bar>nanos a - nanos b\<bar> \<and> timespec_delta b a = timespec_delta a b \<and>
    (nanos a \<le> d \<longrightarrow> timespec_sub a d = Some timespec_zero)"
proof -
  have n: "normal a" "normal b" using assms by (simp_all add: dated_def)
  have "timespec_sub a d = Some timespec_zero" if le: "nanos a \<le> d"
  proof -
    obtain u where u: "timespec_sub a d = Some u" "dated u" "nanos u = 0"
      using timespec_sub_nanos [OF assms(1,5)] le by auto
    then have "u = timespec_zero"
      by (intro normal_eqI) (simp_all add: dated_def timespec_zero_def normal_def nanos_def ns_per_s_def)
    then show ?thesis using u by simp
  qed
  moreover have "timespec_delta b a = timespec_delta a b"
    using timespec_delta_nanos [OF assms(1-4)] timespec_delta_nanos [OF assms(2,1,4,3)] by simp
  ultimately show ?thesis
    using less_nanos [OF n] less_nanos [OF n(2,1)] timespec_delta_nanos [OF assms(1-4)] by (auto simp: not_less [symmetric])
qed

theorem order_and_distance_witness:
  "Timespec 5 7 < Timespec 6 3 \<and> timespec_delta (Timespec 5 7) (Timespec 6 3) = Some 999999996 \<and>
   timespec_sub (Timespec 5 7) 6000000000 = Some timespec_zero"
proof -
  have "dated (Timespec 5 7)" "dated (Timespec 6 3)" "nanos (Timespec 5 7) = 5000000007" "nanos (Timespec 6 3) = 6000000003"
    by (simp_all add: dated_def normal_def ns_per_s_def nanos_def)
  then show ?thesis using order_and_distance [of "Timespec 5 7" "Timespec 6 3" 6000000000] by simp
qed

end
