(* ===== verification/Calendar.thy ===== *)
theory Calendar imports
  Timespec
begin

section \<open>Calendar: dates, days and seconds\<close>

text \<open>
  \<open>src/src/utils/gregorian.hpp\<close> and \<open>mktime.cpp\<close>, with the arithmetic of the vendored date library
  they rest on (\<open>gregorian_calendar.ipp\<close>): a date is a day number, and its year, month and day are
  computed from it. \<open>gmtime\<close> and \<open>timegm\<close> of the C library are the same calendar in seconds since
  1970. The day of a time is computed in the library's own words, 64 bits of microseconds and 32 bits
  of days, with the check of the year; the calendar itself is stated in integers, and the two agree on
  the years 1400 to 9999 the library accepts. \<open>gmtime\<close> is used for times whose year fits an \<open>int\<close>: for
  others the C library's fails, and the code does not look at its result.
\<close>

subsection \<open>The calendar\<close>

datatype ymd = YMD (ymd_year: int) (ymd_month: int) (ymd_day: int)

definition is_leap_year :: "int \<Rightarrow> bool" where
  "is_leap_year y \<longleftrightarrow> y mod 4 = 0 \<and> (y mod 100 \<noteq> 0 \<or> y mod 400 = 0)"

definition end_of_month_day :: "int \<Rightarrow> int \<Rightarrow> int" where
  "end_of_month_day y m =
     (if m = 2 then (if is_leap_year y then 29 else 28) else if m \<in> {4, 6, 9, 11} then 30 else 31)"

definition day_number :: "ymd \<Rightarrow> int" where
  "day_number d = (let a = (14 - ymd_month d) div 12;
      y = ymd_year d + 4800 - a;
      m = ymd_month d + 12 * a - 3
    in ymd_day d + (153 * m + 2) div 5 + 365 * y + y div 4 - y div 100 + y div 400 - 32045)"

definition from_day_number :: "int \<Rightarrow> ymd" where
  "from_day_number n = (let a = n + 32044;
      b = (4 * a + 3) div 146097;
      c = a - (146097 * b) div 4;
      d = (4 * c + 3) div 1461;
      e = c - (1461 * d) div 4;
      m = (5 * e + 2) div 153
    in YMD (100 * b + d - 4800 + m div 10) (m + 3 - 12 * (m div 10)) (e - (153 * m + 2) div 5 + 1))"

definition valid_date :: "ymd \<Rightarrow> bool" where
  "valid_date d \<longleftrightarrow> 1 \<le> ymd_month d \<and> ymd_month d \<le> 12 \<and>
     1 \<le> ymd_day d \<and> ymd_day d \<le> end_of_month_day (ymd_year d) (ymd_month d)"

subsection \<open>Dates of points in time\<close>

definition epoch_date :: int where
  "epoch_date = day_number (YMD 1970 1 1)"

text \<open>The library's own version, in words of 32 bits and, for the fields of a date, of 16.\<close>

definition from_day_number_u32 :: "u32 \<Rightarrow> u16 \<times> u16 \<times> u16" where
  "from_day_number_u32 n = (let a = n + 32044;
      b = (4 * a + 3) div 146097;
      c = a - (146097 * b) div 4;
      d = (4 * c + 3) div 1461;
      e = c - (1461 * d) div 4;
      m = (5 * e + 2) div 153
    in (ucast (100 * b + d - 4800 + m div 10), ucast (m + 3 - 12 * (m div 10)), ucast (e - (153 * m + 2) div 5 + 1)))"

text \<open>
  \<open>epoch_ptime + seconds\<close> in microseconds, where an overflow is undefined, and the date of the result: a
  year, a month or a day the date library refuses ends the program, as the function is declared not to
  throw. Both are \<open>None\<close>.
\<close>

definition extract_date :: "timespec \<Rightarrow> int option" where
  "extract_date ts = do {
     ticks \<leftarrow> i64 (ts_sec ts * 1000000);
     time_count \<leftarrow> i64 (epoch_date * 86400000000 + ticks);
     let (y, m, d) = from_day_number_u32 (word_of_int (time_count sdiv 86400000000));
     if 1400 \<le> y \<and> y \<le> 9999 \<and> 1 \<le> m \<and> m \<le> 12 \<and> 1 \<le> d \<and> d \<le> 31
     then Some (day_number (YMD (uint y) (uint m) (uint d))) else None
   }"

definition extract_seconds :: "int \<Rightarrow> int" where
  "extract_seconds d = (d - epoch_date) * 86400"

definition split_date_time :: "timespec \<Rightarrow> (int \<times> int \<times> int) option" where
  "split_date_time ts = do { d \<leftarrow> extract_date ts; Some (d, ts_sec ts - extract_seconds d, ts_nsec ts) }"

definition make_timespec :: "int \<Rightarrow> timespec" where
  "make_timespec d = timespec_of_seconds (extract_seconds d)"

text \<open>
  From a year, a month and a day: the date library rejects a day the month does not have by an
  exception, which ends the program here, as the function is declared not to throw (\<open>None\<close>).
\<close>

definition make_timespec_ymd :: "int \<Rightarrow> int \<Rightarrow> int \<Rightarrow> timespec option" where
  "make_timespec_ymd y m d =
     (if valid_date (YMD y m d) then Some (timespec_of_seconds (extract_seconds (day_number (YMD y m d)))) else None)"

subsection \<open>Broken-down time\<close>

record tm =
  tm_year :: int
  tm_mon :: int
  tm_mday :: int
  tm_hour :: int
  tm_min :: int
  tm_sec :: int

definition to_time_stamp :: "int \<Rightarrow> int \<Rightarrow> int \<Rightarrow> int \<Rightarrow> int \<Rightarrow> int \<Rightarrow> tm" where
  "to_time_stamp year month day hour minute seconds =
     \<lparr>tm_year = year - 1900, tm_mon = month - 1, tm_mday = day, tm_hour = hour, tm_min = minute, tm_sec = seconds\<rparr>"

text \<open>\<open>timegm\<close> takes fields out of range: months carry into years, everything else is linear.\<close>

definition mkgmtime :: "tm \<Rightarrow> int" where
  "mkgmtime t = (day_number (YMD (tm_year t + 1900 + tm_mon t div 12) (tm_mon t mod 12 + 1) 1)
       + (tm_mday t - 1) - epoch_date) * 86400 + tm_hour t * 3600 + tm_min t * 60 + tm_sec t"

definition gmtime :: "int \<Rightarrow> tm" where
  "gmtime t = (let d = from_day_number (epoch_date + t div 86400); s = t mod 86400 in
     \<lparr>tm_year = ymd_year d - 1900, tm_mon = ymd_month d - 1, tm_mday = ymd_day d,
      tm_hour = s div 3600, tm_min = s mod 3600 div 60, tm_sec = s mod 60\<rparr>)"

text \<open>
  The seconds of a UTC time given by its fields. A \<open>time_point\<close> counts nanoseconds in 64 bits, so the
  conversion of seconds that do not fit is undefined (\<open>None\<close>).
\<close>

definition utc_seconds :: "int \<Rightarrow> int \<Rightarrow> int \<Rightarrow> int \<Rightarrow> int \<Rightarrow> int \<Rightarrow> int" where
  "utc_seconds year month day hour minute seconds =
     mkgmtime (to_time_stamp year month day hour minute seconds)"

definition from_time_t :: "int \<Rightarrow> int option" where
  "from_time_t t = i64 (t * ns_per_s)"

definition mktime_utc :: "int \<Rightarrow> int \<Rightarrow> int \<Rightarrow> int \<Rightarrow> int \<Rightarrow> int \<Rightarrow> int option" where
  "mktime_utc year month day hour minute seconds =
     (let t = to_time_stamp year month day hour minute seconds in from_time_t (mkgmtime t))"

definition mktime_utc_day :: "int \<Rightarrow> int \<Rightarrow> int \<Rightarrow> int option" where
  "mktime_utc_day year month day = mktime_utc year month day 0 0 0"

text \<open>The C library's \<open>mktime\<close> reads the time zone data of the host: it is the argument \<open>std_mktime\<close>.\<close>

definition mktime :: "(tm \<Rightarrow> int) \<Rightarrow> int \<Rightarrow> int \<Rightarrow> int \<Rightarrow> int \<Rightarrow> int \<Rightarrow> int \<Rightarrow> int option" where
  "mktime std_mktime year month day hour minute seconds =
     (let t = to_time_stamp year month day hour minute seconds in from_time_t (std_mktime t))"

definition mktime_day :: "(tm \<Rightarrow> int) \<Rightarrow> int \<Rightarrow> int \<Rightarrow> int \<Rightarrow> int option" where
  "mktime_day std_mktime year month day = mktime std_mktime year month day 0 0 0"

subsection \<open>Years that start in March\<close>

text \<open>
  The algorithm counts years from the first of March, so that the leap day is the last day of such
  a year: \<open>march_day m d\<close> is the day of that year, from 0 to 365.
\<close>

definition march_day :: "int \<Rightarrow> int \<Rightarrow> int" where
  "march_day m d = (153 * (m + 12 * ((14 - m) div 12) - 3) + 2) div 5 + d - 1"

definition march_month :: "int \<Rightarrow> int" where
  "march_month e = (5 * e + 2) div 153"

definition march_start :: "int \<Rightarrow> int" where
  "march_start k = (153 * k + 2) div 5"

definition month_rows :: bool where
  "month_rows \<longleftrightarrow> (\<forall>m\<in>set [1..12]. let a = (14 - m) div 12; k = m + 12 * a - 3 in
     0 \<le> k \<and> k \<le> 11 \<and> k + 3 - 12 * (k div 10) = m \<and> k div 10 = a \<and> 0 \<le> march_start k \<and>
     march_start k + end_of_month_day 4 m \<le> march_start (k + 1) \<and>
     march_start k + end_of_month_day 4 m \<le> (if m = 2 then 366 else 365))"

definition march_rows :: bool where
  "march_rows \<longleftrightarrow> (\<forall>k\<in>set [0..11]. let m = k + 3 - 12 * (k div 10) in
     1 \<le> m \<and> m \<le> 12 \<and> (14 - m) div 12 = k div 10 \<and> (m = 2 \<longleftrightarrow> k = 11) \<and>
     march_start k + end_of_month_day 4 m = min 366 (march_start (k + 1)))"

lemma month_rows: month_rows
  by code_simp

lemma march_rows: march_rows
  by code_simp

lemma march_start_le: "march_start k \<le> e \<longleftrightarrow> 153 * k + 2 < 5 * e + 5"
  unfolding march_start_def by linarith

lemma march_month_eq:
  assumes "march_start k \<le> e" and "e < march_start (k + 1)"
  shows "march_month e = k"
proof -
  have "153 * k + 2 < 5 * e + 5" "\<not> 153 * (k + 1) + 2 < 5 * e + 5"
    using assms march_start_le [of k e] march_start_le [of "k + 1" e] by simp_all
  then show ?thesis
    unfolding march_month_def by (intro int_div_pos_eq [where r = "5 * e + 2 - 153 * k"]) simp_all
qed

lemma march_month_bounds: "march_start (march_month e) \<le> e \<and> e < march_start (march_month e + 1)"
proof -
  have "153 * march_month e \<le> 5 * e + 2" "5 * e + 2 < 153 * march_month e + 153"
    using div_mult_mod_eq [of "5 * e + 2" 153] pos_mod_bound [of 153 "5 * e + 2"] pos_mod_sign [of 153 "5 * e + 2"]
    unfolding march_month_def by linarith+
  then show ?thesis
    using march_start_le [of "march_month e" e] march_start_le [of "march_month e + 1" e] by (simp add: not_le)
qed

lemma march_start_11: "march_start 11 = 337"
  by (simp add: march_start_def)

lemma end_of_month_leap: "d \<le> end_of_month_day y m \<Longrightarrow> d \<le> end_of_month_day 4 m"
  by (auto simp: end_of_month_day_def is_leap_year_def split: if_splits)

lemma march_day_start: "march_day m d = march_start (m + 12 * ((14 - m) div 12) - 3) + d - 1"
  by (simp add: march_day_def march_start_def)

lemma march_day_facts:
  assumes "valid_date (YMD y m d)"
  shows "0 \<le> march_day m d" "march_day m d \<le> 365" "march_day m d = 365 \<Longrightarrow> is_leap_year y \<and> (14 - m) div 12 = 1"
    and "march_month (march_day m d) + 3 - 12 * (march_month (march_day m d) div 10) = m"
    and "march_day m d - march_start (march_month (march_day m d)) + 1 = d"
    and "march_month (march_day m d) div 10 = (14 - m) div 12"
proof -
  define a k e where "a = (14 - m) div 12" and "k = m + 12 * a - 3" and "e = march_day m d"
  have v: "1 \<le> m" "m \<le> 12" "1 \<le> d" "d \<le> end_of_month_day y m"
    using assms by (simp_all add: valid_date_def)
  note d = end_of_month_leap [OF v(4)]
  have "m \<in> set [1..12]" using v by simp
  then have row: "0 \<le> k" "k \<le> 11" "k + 3 - 12 * (k div 10) = m" "k div 10 = a" "0 \<le> march_start k"
    "march_start k + end_of_month_day 4 m \<le> march_start (k + 1)"
    "march_start k + end_of_month_day 4 m \<le> (if m = 2 then 366 else 365)"
    using month_rows unfolding month_rows_def Let_def a_def k_def by blast+
  have e: "e = march_start k + d - 1" by (simp add: e_def march_day_start k_def a_def)
  then have month: "march_month e = k" using row v d by (intro march_month_eq) linarith+
  show "0 \<le> march_day m d" "march_day m d \<le> 365"
    using e row v d unfolding e_def [symmetric] by (auto split: if_splits)
  show "is_leap_year y \<and> (14 - m) div 12 = 1" if "march_day m d = 365"
    using that
  proof (cases "m = 2")
    case True
    then have "k = 11" by (simp add: k_def a_def)
    then show ?thesis
      using that True e v march_start_11 unfolding e_def [symmetric] by (auto simp: end_of_month_day_def split: if_splits)
  next
    case False
    then show ?thesis using that e row v d unfolding e_def [symmetric] by simp
  qed
  show "march_month (march_day m d) + 3 - 12 * (march_month (march_day m d) div 10) = m"
    "march_day m d - march_start (march_month (march_day m d)) + 1 = d"
    "march_month (march_day m d) div 10 = (14 - m) div 12"
    unfolding e_def [symmetric] month a_def [symmetric] using row e by simp_all
qed

lemma day_facts:
  assumes "0 \<le> e" and "e \<le> 365"
  defines "k \<equiv> march_month e"
  defines "m \<equiv> k + 3 - 12 * (k div 10)" and "d \<equiv> e - march_start k + 1"
  shows "1 \<le> m" "m \<le> 12" "1 \<le> d" "d \<le> end_of_month_day 4 m" "m = 2 \<and> d = 29 \<longleftrightarrow> e = 365"
    "march_day m d = e" "(14 - m) div 12 = k div 10"
proof -
  have b: "march_start k \<le> e" "e < march_start (k + 1)"
    using march_month_bounds [of e] by (simp_all add: k_def)
  have k: "0 \<le> k" "k \<le> 11" using assms(1,2) unfolding k_def march_month_def by linarith+
  then have "k \<in> set [0..11]" by simp
  then have row: "1 \<le> m" "m \<le> 12" "(14 - m) div 12 = k div 10" "m = 2 \<longleftrightarrow> k = 11"
    "march_start k + end_of_month_day 4 m = min 366 (march_start (k + 1))"
    using march_rows unfolding march_rows_def Let_def m_def by blast+
  show "1 \<le> m" "m \<le> 12" "(14 - m) div 12 = k div 10" "1 \<le> d" "d \<le> end_of_month_day 4 m"
    using row b assms(2) by (simp_all add: d_def)
  have "m + 12 * ((14 - m) div 12) - 3 = k" using row by (simp add: m_def)
  then show "march_day m d = e" by (simp add: march_day_start d_def)
  have "e \<noteq> 365" if "k \<noteq> 11"
    using that k b row(5) by (auto simp: end_of_month_day_def march_start_def)
  then show "m = 2 \<and> d = 29 \<longleftrightarrow> e = 365" using row(4) march_start_11 by (auto simp: d_def)
qed

subsection \<open>Centuries and years\<close>

definition leap_march :: "int \<Rightarrow> bool" where
  "leap_march y \<longleftrightarrow> is_leap_year (y + 1)"

text \<open>Day \<open>e\<close> of the March year \<open>y\<close>, and back.\<close>

definition march_number :: "int \<Rightarrow> int \<Rightarrow> int" where
  "march_number y e = e + 365 * y + y div 4 - y div 100 + y div 400"

lemma century_of_march_number:
  assumes "0 \<le> e" and "e \<le> 365" and "e = 365 \<Longrightarrow> leap_march y"
  shows "(4 * march_number y e + 3) div 146097 = y div 100"
    and "march_number y e - (146097 * (y div 100)) div 4 = 365 * (y mod 100) + y mod 100 div 4 + e"
proof -
  define b q where "b = y div 100" and "q = y mod 100"
  have y: "y = 100 * b + q" "0 \<le> q" "q < 100" by (simp_all add: b_def q_def)
  define c where "c = 365 * q + q div 4 + e"
  have d4: "y div 4 = 25 * b + q div 4" "y div 400 = b div 4"
    using y by (simp, simp add: b_def flip: zdiv_zmult2_eq)
  have n: "march_number y e = 36524 * b + b div 4 + c"
    unfolding march_number_def c_def d4 b_def [symmetric] using y(1) by linarith
  show "march_number y e - (146097 * (y div 100)) div 4 = 365 * (y mod 100) + y mod 100 div 4 + e"
  proof -
    have "(146097 * b) div 4 = 36524 * b + b div 4"
      using div_mult_self2 [of 4 b "36524 * b"] by simp
    then show ?thesis using n by (simp add: c_def flip: b_def q_def)
  qed
  have "c \<le> 36523 \<or> (c = 36524 \<and> b mod 4 = 3)"
  proof (cases "q = 99 \<and> e = 365")
    case True
    then have "is_leap_year (100 * (b + 1))" using assms(3) y by (simp add: leap_march_def algebra_simps)
    then have "(100 * (b + 1)) mod 400 = 0" by (simp add: is_leap_year_def)
    then have "(b + 1) mod 4 = 0" using mod_mult_mult1 [of 100 "b + 1" 4] by simp
    then have "b mod 4 = 3" by presburger
    then show ?thesis using True by (simp add: c_def)
  next
    case False
    then have "q \<le> 98 \<or> e \<le> 364" using y assms(2) by linarith
    then show ?thesis using y assms(2) by (auto simp: c_def)
  qed
  moreover have "0 \<le> c" using y assms(1) by (simp add: c_def)
  moreover have m: "4 * (b div 4) = b - b mod 4" "0 \<le> b mod 4" "b mod 4 \<le> 3" by (simp_all add: minus_mod_eq_mult_div)
  ultimately have "0 \<le> 4 * c + 3 - b mod 4 \<and> 4 * c + 3 - b mod 4 < 146097" by linarith
  moreover have "4 * march_number y e + 3 = 146097 * b + (4 * c + 3 - b mod 4)"
    using m(1) by (simp add: n algebra_simps)
  ultimately show "(4 * march_number y e + 3) div 146097 = y div 100"
    unfolding b_def [symmetric] by (intro int_div_pos_eq) auto
qed

lemma year_of_century_day:
  assumes "0 \<le> e" and "e \<le> 365" and "0 \<le> (q :: int)" and "q mod 4 \<noteq> 3 \<Longrightarrow> e \<noteq> 365"
  shows "(4 * (365 * q + q div 4 + e) + 3) div 1461 = q"
    and "365 * q + q div 4 + e - (1461 * q) div 4 = e"
proof -
  have q: "4 * (q div 4) = q - q mod 4" "0 \<le> q mod 4" "q mod 4 \<le> 3" by (simp_all add: minus_mod_eq_mult_div)
  have r: "0 \<le> 4 * e + 3 - q mod 4" using assms(1) q by linarith
  have r': "4 * e + 3 - q mod 4 < 1461"
    using assms q by (cases "q mod 4 = 3"; cases "e = 365") linarith+
  have "4 * (365 * q + q div 4 + e) + 3 = 1461 * q + (4 * e + 3 - q mod 4)"
    using q(1) by (simp add: algebra_simps)
  then show "(4 * (365 * q + q div 4 + e) + 3) div 1461 = q"
    using r r' by (intro int_div_pos_eq)
  have "(1461 * q) div 4 = 365 * q + q div 4"
    using div_mult_self2 [of 4 q "365 * q"] by simp
  then show "365 * q + q div 4 + e - (1461 * q) div 4 = e" by simp
qed


subsection \<open>Day numbers and dates\<close>

lemma day_number_march:
  "day_number (YMD y m d) = march_number (y + 4800 - (14 - m) div 12) (march_day m d) - 32044"
  by (simp add: day_number_def march_number_def march_day_def Let_def algebra_simps)

lemma is_leap_year_shift: "is_leap_year (4800 + y) = is_leap_year y"
proof -
  have "(y + 4800) mod 4 = y mod 4" "(y + 4800) mod 100 = y mod 100" "(y + 4800) mod 400 = y mod 400"
    using mod_mult_self1 [of y 1200 4] mod_mult_self1 [of y 48 100] mod_mult_self1 [of y 12 400] by simp_all
  then show ?thesis by (simp add: is_leap_year_def add.commute)
qed

lemma leap_march_mod4: "leap_march y \<Longrightarrow> y mod 100 mod 4 = 3"
proof -
  assume "leap_march y"
  then have "(y + 1) mod 4 = 0" by (simp add: leap_march_def is_leap_year_def)
  then have "y mod 4 = 3" by presburger
  moreover have "y mod 100 mod 4 = y mod 4" by (rule mod_mod_cancel) simp
  ultimately show ?thesis by simp
qed

lemma march_fields:
  assumes "0 \<le> e" and "e \<le> 365" and "e = 365 \<Longrightarrow> leap_march y"
  defines "k \<equiv> march_month e"
  shows "from_day_number (march_number y e - 32044) =
     YMD (y - 4800 + k div 10) (k + 3 - 12 * (k div 10)) (e - march_start k + 1)"
proof -
  define n where "n = march_number y e"
  have b: "(4 * n + 3) div 146097 = y div 100"
    and c: "n - (146097 * (y div 100)) div 4 = 365 * (y mod 100) + y mod 100 div 4 + e"
    using century_of_march_number [OF assms(1-3)] by (simp_all add: n_def)
  have "y mod 100 mod 4 \<noteq> 3 \<Longrightarrow> e \<noteq> 365" using assms(3) leap_march_mod4 by blast
  then have d: "(4 * (365 * (y mod 100) + y mod 100 div 4 + e) + 3) div 1461 = y mod 100"
    "365 * (y mod 100) + y mod 100 div 4 + e - (1461 * (y mod 100)) div 4 = e"
    using year_of_century_day [OF assms(1,2), of "y mod 100"] by simp_all
  have a: "n - 32044 + 32044 = n" and y: "100 * (y div 100) + y mod 100 = y" by simp_all
  show ?thesis
    unfolding from_day_number_def Let_def n_def [symmetric] a b c d march_month_def [symmetric] k_def [symmetric]
      march_start_def [symmetric]
    using y by simp
qed

lemma from_day_number_day_number:
  assumes "valid_date d"
  shows "from_day_number (day_number d) = d"
proof -
  obtain y m dd where d: "d = YMD y m dd" by (cases d)
  note f = march_day_facts [OF assms [unfolded d]]
  have "march_day m dd = 365 \<Longrightarrow> leap_march (y + 4800 - (14 - m) div 12)"
    using f(3) is_leap_year_shift [of y] by (simp add: leap_march_def)
  from march_fields [OF f(1,2) this] show ?thesis
    using f(4-6) by (simp add: d day_number_march)
qed

text \<open>Every day number is the number of the date computed from it, and that date exists.\<close>

lemma div_next:
  assumes "0 < (k :: int)"
  shows "(y + 1) div k = y div k + (if (y + 1) mod k = 0 then 1 else 0)"
proof -
  define a r where "a = y div k" and "r = y mod k"
  have y: "y = k * a + r" "0 \<le> r" "r < k" using assms by (simp_all add: a_def r_def)
  show ?thesis
  proof (cases "r + 1 = k")
    case True
    then have e: "y + 1 = k * (a + 1)" using y by (simp add: algebra_simps)
    show ?thesis using assms unfolding e a_def [symmetric] by simp
  next
    case False
    then have "(y + 1) div k = a" "(y + 1) mod k = r + 1"
      using y int_div_pos_eq [of "y + 1" k a "r + 1"] int_mod_pos_eq [of "y + 1" k a "r + 1"] by simp_all
    then show ?thesis using y(2) unfolding a_def [symmetric] by simp
  qed
qed

lemma march_year_length: "march_number (y + 1) 0 = march_number y (if leap_march y then 365 else 364) + 1"
proof -
  define A B C where "A \<longleftrightarrow> (y + 1) mod 4 = 0" and "B \<longleftrightarrow> (y + 1) mod 100 = 0" and "C \<longleftrightarrow> (y + 1) mod 400 = 0"
  have imp: "C \<longrightarrow> B" "B \<longrightarrow> A"
    using mod_mod_cancel [of 100 400 "y + 1"] mod_mod_cancel [of 4 100 "y + 1"] by (auto simp: A_def B_def C_def)
  have leap: "leap_march y \<longleftrightarrow> A \<and> (\<not> B \<or> C)"
    by (simp add: leap_march_def is_leap_year_def A_def B_def C_def)
  have next_div: "(y + 1) div 4 = y div 4 + (if A then 1 else 0)" "(y + 1) div 100 = y div 100 + (if B then 1 else 0)"
    "(y + 1) div 400 = y div 400 + (if C then 1 else 0)"
    unfolding A_def B_def C_def by (rule div_next; simp)+
  have sum: "0 + 365 * (y + 1) + (a + (if A then 1 else 0)) - (b + (if B then 1 else 0)) + (c + (if C then 1 else 0)) =
     (if A \<and> (\<not> B \<or> C) then 365 else 364) + 365 * y + a - b + c + 1" for a b c :: int
    using imp by (cases A; cases B; cases C) simp_all
  show ?thesis
    unfolding march_number_def leap next_div by (rule sum)
qed

lemma march_year_exists: "\<exists>y e. int n = march_number y e \<and> 0 \<le> y \<and> 0 \<le> e \<and> e \<le> 365 \<and> (e = 365 \<longrightarrow> leap_march y)"
proof (induction n)
  case 0
  show ?case by (intro exI [of _ 0]) (simp add: march_number_def)
next
  case (Suc n)
  then obtain y e where n: "int n = march_number y e" "0 \<le> y" "0 \<le> e" "e \<le> 365" "e = 365 \<longrightarrow> leap_march y" by blast
  show ?case
  proof (cases "e = (if leap_march y then 365 else 364)")
    case True
    have "int (Suc n) = march_number (y + 1) 0"
      unfolding of_nat_Suc n(1) march_year_length True by (rule add.commute)
    then show ?thesis using n by (intro exI [of _ "y + 1"] exI [of _ 0]) simp
  next
    case False
    then have "int (Suc n) = march_number y (e + 1)" using n by (simp add: march_number_def)
    then show ?thesis using n False by (intro exI [of _ y] exI [of _ "e + 1"]) (auto split: if_splits)
  qed
qed

lemma day_number_from_day_number:
  assumes "- 32044 \<le> n"
  shows "valid_date (from_day_number n) \<and> day_number (from_day_number n) = n"
proof -
  obtain y e where n: "n + 32044 = march_number y e" "0 \<le> e" "e \<le> 365" "e = 365 \<longrightarrow> leap_march y"
    using march_year_exists [of "nat (n + 32044)"] assms by auto
  define k where "k = march_month e"
  define m d where "m = k + 3 - 12 * (k div 10)" and "d = e - march_start k + 1"
  note f = day_facts [OF n(2,3), folded k_def, folded m_def d_def]
  have ymd: "from_day_number n = YMD (y - 4800 + k div 10) m d"
    using march_fields [OF n(2,3), of y] n(4) unfolding n(1) [symmetric] m_def d_def k_def by simp
  have "d \<le> end_of_month_day (y - 4800 + k div 10) m"
  proof (cases "e = 365")
    case True
    then have "is_leap_year (y + 1)" and m: "m = 2" "d = 29" using n f by (auto simp: leap_march_def)
    moreover have "k div 10 = 1" using f(7) m by simp
    ultimately show ?thesis
      using is_leap_year_shift [of "y - 4800 + 1"] by (simp add: end_of_month_day_def add.commute)
  next
    case False
    then show ?thesis using f by (auto simp: end_of_month_day_def is_leap_year_def split: if_splits)
  qed
  then show ?thesis
    using f n(1) by (simp add: ymd valid_date_def day_number_march)
qed


subsection \<open>Order\<close>

text \<open>Dates compare as their day numbers, field by field from the year.\<close>

definition ymd_less :: "ymd \<Rightarrow> ymd \<Rightarrow> bool" where
  "ymd_less a b \<longleftrightarrow> ymd_year a < ymd_year b \<or> (ymd_year a = ymd_year b \<and>
     (ymd_month a < ymd_month b \<or> (ymd_month a = ymd_month b \<and> ymd_day a < ymd_day b)))"

text \<open>The first day of month \<open>M\<close>, months counted from the year 0; months follow one another.\<close>

definition month_start :: "int \<Rightarrow> int" where
  "month_start M = day_number (YMD (M div 12) (M mod 12 + 1) 1)"

lemma day_number_month:
  assumes "1 \<le> m" and "m \<le> 12"
  shows "day_number (YMD y m d) = month_start (12 * y + (m - 1)) + (d - 1)"
proof -
  have "(12 * y + (m - 1)) div 12 = y" "(12 * y + (m - 1)) mod 12 = m - 1"
    using assms by (intro int_div_pos_eq [where r = "m - 1"] int_mod_pos_eq [where q = y]; simp)+
  then show ?thesis by (simp add: month_start_def day_number_def Let_def)
qed

lemma march_number_day: "march_number y e = march_number y 0 + e"
  by (simp add: march_number_def)

lemma month_start_next: "month_start (M + 1) = month_start M + end_of_month_day (M div 12) (M mod 12 + 1)"
proof -
  define y k where "y = M div 12" and "k = M mod 12"
  have M: "M = 12 * y + k" by (simp add: y_def k_def)
  have month: "month_start (12 * z + j) = march_number (z + 4800 - (13 - j) div 12) 0 + march_day (j + 1) 1 - 32044"
    if "0 \<le> j" "j \<le> 11" for z j
    using day_number_month [of "j + 1" z 1] that
    by (simp add: day_number_march march_number_day [of _ "march_day _ _"])
  have feb: "march_number (4800 + y) 0 = march_number (4799 + y) 0 + (if is_leap_year y then 366 else 365)"
    using march_year_length [of "4799 + y"] is_leap_year_shift [of y]
    by (simp add: leap_march_def march_number_day [of _ "if _ then _ else _"])
  have "0 \<le> k" "k \<le> 11" by (simp_all add: k_def)
  then have "k = 0 \<or> k = 1 \<or> k = 2 \<or> k = 3 \<or> k = 4 \<or> k = 5 \<or> k = 6 \<or> k = 7 \<or> k = 8 \<or> k = 9 \<or> k = 10 \<or> k = 11"
    by presburger
  moreover have "month_start (12 * y + 11 + 1) = month_start (12 * (y + 1) + 0)" by (simp add: algebra_simps)
  ultimately show ?thesis
    unfolding y_def [symmetric] k_def [symmetric] unfolding M
    using month [of 0 y] month [of 1 y] month [of 2 y] month [of 3 y] month [of 4 y] month [of 5 y] month [of 6 y]
      month [of 7 y] month [of 8 y] month [of 9 y] month [of 10 y] month [of 11 y] month [of 0 "y + 1"] feb
    by (elim disjE) (simp_all add: end_of_month_day_def march_day_def ac_simps)
qed

lemma month_start_le: "M \<le> M' \<Longrightarrow> month_start M \<le> month_start M'"
proof (induction M' rule: int_ge_induct)
  case (step M')
  have "0 \<le> end_of_month_day (M' div 12) (M' mod 12 + 1)" by (simp add: end_of_month_day_def)
  then show ?case using step month_start_next [of M'] by linarith
qed simp

lemma day_number_mono:
  assumes "valid_date a" and "valid_date b" and "ymd_less a b"
  shows "day_number a < day_number b"
proof -
  obtain y m d y' m' d' where ab: "a = YMD y m d" "b = YMD y' m' d'" by (cases a; cases b)
  let ?M = "12 * y + (m - 1)" and ?M' = "12 * y' + (m' - 1)"
  have v: "1 \<le> m" "m \<le> 12" "1 \<le> d" "d \<le> end_of_month_day y m" "1 \<le> m'" "m' \<le> 12" "1 \<le> d'"
    using assms(1,2) by (simp_all add: ab valid_date_def)
  have n: "day_number a = month_start ?M + (d - 1)" "day_number b = month_start ?M' + (d' - 1)"
    using v by (simp_all add: ab day_number_month)
  show ?thesis
  proof (cases "?M < ?M'")
    case True
    have "?M div 12 = y" "?M mod 12 = m - 1"
      using v by (intro int_div_pos_eq [where r = "m - 1"] int_mod_pos_eq [where q = y]; simp)+
    then have "month_start ?M + end_of_month_day y m \<le> month_start ?M'"
      using True month_start_next [of ?M] month_start_le [of "?M + 1" ?M'] by simp
    then show ?thesis using n v by linarith
  next
    case False
    then have "y = y'" "m = m'" "d < d'"
      using assms(3) v by (auto simp: ab ymd_less_def)
    then show ?thesis using n by simp
  qed
qed

lemma ymd_less_iff_day_number:
  assumes "valid_date a" and "valid_date b"
  shows "ymd_less a b \<longleftrightarrow> day_number a < day_number b"
proof -
  have "ymd_less a b \<or> a = b \<or> ymd_less b a"
    by (cases a; cases b) (auto simp: ymd_less_def)
  then show ?thesis
    using day_number_mono [OF assms] day_number_mono [OF assms(2,1)] by auto
qed

subsection \<open>Points in time\<close>

lemma epoch_date_value: "epoch_date = 2440588"
  by (simp add: epoch_date_def day_number_def Let_def)

text \<open>The day of a time, and the times the date library has a date for.\<close>

definition day_of :: "timespec \<Rightarrow> int" where
  "day_of ts = epoch_date + ts_sec ts div 86400"

definition library_day :: "int \<Rightarrow> bool" where
  "library_day n \<longleftrightarrow> day_number (YMD 1400 1 1) \<le> n \<and> n \<le> day_number (YMD 9999 12 31)"

lemma library_day_bounds: "library_day n \<longleftrightarrow> 2232400 \<le> n \<and> n \<le> 5373484"
  by (simp add: library_day_def day_number_def Let_def)

lemma uint_fits: "0 \<le> x \<Longrightarrow> x < 2 ^ 32 \<Longrightarrow> uint (word_of_int x :: u32) = x"
  by (simp add: uint_word_of_int)

lemma word_div_numeral:
  assumes "0 \<le> x" and "x < 2 ^ 32" and "numeral k < (2 ^ 32 :: int)"
  shows "(word_of_int x :: u32) div numeral k = word_of_int (x div numeral k)"
proof -
  have "uint (numeral k :: u32) = numeral k"
    using uint_fits [of "numeral k"] assms(3) by (simp only: of_int_numeral zero_le_numeral)
  moreover have "uint (word_of_int x :: u32) = x" using assms(1,2) by (simp add: uint_word_of_int)
  ultimately show ?thesis by (simp only: word_div_def)
qed

lemma ucast_of_int: "ucast (word_of_int x :: u32) = (word_of_int x :: u16)"
proof -
  have "x mod 2 ^ 32 mod 2 ^ 16 = x mod (2 ^ 16 :: int)" by (rule mod_mod_cancel) simp
  then show ?thesis by (simp add: ucast_eq uint_word_of_int word_of_int_eq_iff take_bit_eq_mod)
qed

text \<open>The words of the library compute the calendar, as long as a day number is small.\<close>

lemma from_day_number_u32:
  assumes "0 \<le> n" and "n < 6000000"
  shows "from_day_number_u32 (word_of_int n) = (case from_day_number n of YMD y m d \<Rightarrow> (word_of_int y, word_of_int m, word_of_int d))"
proof -
  define A where "A = n + 32044"
  define B where "B = (4 * A + 3) div 146097"
  define C where "C = A - (146097 * B) div 4"
  define D where "D = (4 * C + 3) div 1461"
  define E where "E = C - (1461 * D) div 4"
  define M where "M = (5 * E + 2) div 153"
  have a: "32044 \<le> A" "A < 6032044" using assms by (simp_all add: A_def)
  have b: "0 \<le> B" "B < 1000" "146097 * B \<le> 4 * A + 3" "4 * A + 3 < 146097 * B + 146097" using a unfolding B_def by linarith+
  have c: "0 \<le> C" "C < 36525" using b unfolding C_def by linarith+
  have d: "0 \<le> D" "D \<le> 100" "1461 * D \<le> 4 * C + 3" "4 * C + 3 < 1461 * D + 1461" using c unfolding D_def by linarith+
  have e: "0 \<le> E" "E < 367" using d unfolding E_def by linarith+
  have m: "0 \<le> M" "M < 13" using e unfolding M_def by linarith+
  have 1: "word_of_int n + 32044 = (word_of_int A :: u32)" by (simp add: A_def)
  have 2: "(4 * word_of_int A + 3) div 146097 = (word_of_int B :: u32)"
    using word_div_numeral [of "4 * A + 3"] a by (simp add: B_def)
  have 3: "word_of_int A - (146097 * word_of_int B) div 4 = (word_of_int C :: u32)"
    using word_div_numeral [of "146097 * B"] b(1,2) by (simp add: C_def)
  have 4: "(4 * word_of_int C + 3) div 1461 = (word_of_int D :: u32)"
    using word_div_numeral [of "4 * C + 3"] c by (simp add: D_def)
  have 5: "word_of_int C - (1461 * word_of_int D) div 4 = (word_of_int E :: u32)"
    using word_div_numeral [of "1461 * D"] d(1,2) by (simp add: E_def)
  have 6: "(5 * word_of_int E + 2) div 153 = (word_of_int M :: u32)"
    using word_div_numeral [of "5 * E + 2"] e by (simp add: M_def)
  have 7: "(word_of_int M :: u32) div 10 = word_of_int (M div 10)" "(153 * word_of_int M + 2) div 5 = (word_of_int ((153 * M + 2) div 5) :: u32)"
    using word_div_numeral [of M] word_div_numeral [of "153 * M + 2"] m by simp_all
  have 8: "100 * word_of_int B + word_of_int D - 4800 + word_of_int (M div 10) = (word_of_int (100 * B + D - 4800 + M div 10) :: u32)"
    "word_of_int M + 3 - 12 * word_of_int (M div 10) = (word_of_int (M + 3 - 12 * (M div 10)) :: u32)"
    "word_of_int E - word_of_int ((153 * M + 2) div 5) + 1 = (word_of_int (E - (153 * M + 2) div 5 + 1) :: u32)" by simp_all
  have "from_day_number n = YMD (100 * B + D - 4800 + M div 10) (M + 3 - 12 * (M div 10)) (E - (153 * M + 2) div 5 + 1)"
    unfolding from_day_number_def Let_def by (simp only: A_def [symmetric] B_def [symmetric] C_def [symmetric] D_def [symmetric] E_def [symmetric] M_def [symmetric])
  then show ?thesis
    by (simp only: from_day_number_u32_def Let_def 1 2 3 4 5 6 7 8 ucast_of_int ymd.case)
qed

text \<open>The times of day and the seconds of a broken-down time.\<close>

definition valid_tm :: "tm \<Rightarrow> bool" where
  "valid_tm t \<longleftrightarrow> valid_date (YMD (tm_year t + 1900) (tm_mon t + 1) (tm_mday t)) \<and>
     0 \<le> tm_hour t \<and> tm_hour t < 24 \<and> 0 \<le> tm_min t \<and> tm_min t < 60 \<and> 0 \<le> tm_sec t \<and> tm_sec t < 60"

definition tm_date :: "tm \<Rightarrow> ymd" where
  "tm_date t = YMD (tm_year t + 1900) (tm_mon t + 1) (tm_mday t)"

definition day_second :: "tm \<Rightarrow> int" where
  "day_second t = tm_hour t * 3600 + tm_min t * 60 + tm_sec t"

lemma mkgmtime_valid:
  assumes "valid_tm t"
  shows "mkgmtime t = (day_number (tm_date t) - epoch_date) * 86400 + day_second t"
proof -
  have "0 \<le> tm_mon t" "tm_mon t < 12" using assms by (simp_all add: valid_tm_def valid_date_def)
  then have "tm_mon t div 12 = 0" "tm_mon t mod 12 = tm_mon t" by simp_all
  then show ?thesis by (simp add: mkgmtime_def tm_date_def day_second_def day_number_def Let_def)
qed

lemma day_second_bounds: "valid_tm t \<Longrightarrow> 0 \<le> day_second t \<and> day_second t < 86400"
  by (simp add: valid_tm_def day_second_def)

definition first_second :: int where
  "first_second = - (epoch_date + 32044) * 86400"

lemma day_second_split:
  "(0::int) \<le> s \<Longrightarrow> s < 86400 \<Longrightarrow> s div 3600 < 24 \<and> s mod 3600 div 60 < 60 \<and>
     s div 3600 * 3600 + s mod 3600 div 60 * 60 + s mod 60 = s"
proof -
  assume "0 \<le> s" "s < 86400"
  moreover have "s mod 3600 mod 60 = s mod 60" by (rule mod_mod_cancel) simp
  moreover have "s div 3600 \<le> 86399 div 3600" using \<open>s < 86400\<close> by (intro zdiv_mono1) simp_all
  moreover have "s mod 3600 div 60 \<le> 3599 div 60"
    using pos_mod_bound [of 3600 s] by (intro zdiv_mono1) linarith+
  moreover have "s div 3600 * 3600 + s mod 3600 div 60 * 60 + s mod 60 = s"
    by (metis add.assoc div_mult_mod_eq calculation(3))
  ultimately show ?thesis by simp
qed

lemma gmtime_correct:
  assumes "first_second \<le> t"
  shows "valid_tm (gmtime t)" and "tm_date (gmtime t) = from_day_number (epoch_date + t div 86400)"
    and "day_second (gmtime t) = t mod 86400" and "mkgmtime (gmtime t) = t"
proof -
  let ?n = "epoch_date + t div 86400" and ?s = "t mod 86400"
  have "first_second div 86400 \<le> t div 86400" using assms by (rule zdiv_mono1) simp
  then have "- 32044 \<le> ?n" by (simp add: first_second_def epoch_date_value)
  note d = day_number_from_day_number [OF this]
  have s: "?s div 3600 < 24" "?s mod 3600 div 60 < 60"
    "?s div 3600 * 3600 + ?s mod 3600 div 60 * 60 + ?s mod 60 = ?s"
    using day_second_split [of ?s] pos_mod_sign [of 86400 t] pos_mod_bound [of 86400 t] by (simp_all only: zero_less_numeral)
  show date: "tm_date (gmtime t) = from_day_number ?n" by (simp add: tm_date_def gmtime_def Let_def)
  have fields: "tm_hour (gmtime t) = ?s div 3600" "tm_min (gmtime t) = ?s mod 3600 div 60" "tm_sec (gmtime t) = ?s mod 60"
    by (simp_all add: gmtime_def Let_def)
  show sec: "day_second (gmtime t) = ?s" unfolding day_second_def fields by (rule s(3))
  have "0 \<le> ?s div 3600" "0 \<le> ?s mod 3600 div 60" "0 \<le> ?s mod 60" "?s mod 60 < 60"
    by (simp_all only: pos_imp_zdiv_nonneg_iff pos_mod_sign pos_mod_bound zero_less_numeral)
  then show v: "valid_tm (gmtime t)"
    unfolding valid_tm_def tm_date_def [symmetric] date fields using d s(1,2) by blast
  show "mkgmtime (gmtime t) = t"
    unfolding mkgmtime_valid [OF v] date sec using d by simp
qed


subsection \<open>Days of the week\<close>

text \<open>The date library counts them from Sunday, 0, to Saturday, 6.\<close>

definition day_of_week :: "ymd \<Rightarrow> int" where
  "day_of_week d = (let a = (14 - ymd_month d) div 12; y = ymd_year d - a; m = ymd_month d + 12 * a - 2
     in (ymd_day d + y + y div 4 - y div 100 + y div 400 + (31 * m) div 12) mod 7)"

lemma centuries: "(y + 4800) div 4 = y div 4 + (1200::int)" "(y + 4800) div 100 = y div 100 + (48::int)"
  "(y + 4800) div 400 = y div 400 + (12::int)"
  by linarith+

definition week_rows :: bool where
  "week_rows \<longleftrightarrow> (\<forall>k\<in>set [0..11::int]. (153 * k + 2) div 5 - (31 * (k + 1)) div 12 = 7 * (((153 * k + 2) div 5 - (31 * (k + 1)) div 12 + 2) div 7) - 2)"

lemma week_rows: week_rows
  by code_simp

lemma day_of_week_day_number:
  assumes "valid_date d"
  shows "day_of_week d = (day_number d + 1) mod 7"
proof -
  define a where "a = (14 - ymd_month d) div 12"
  define y k where "y = ymd_year d - a" and "k = ymd_month d + 12 * a - 3"
  have "ymd_month d \<in> set [1..12]" using assms by (simp add: valid_date_def)
  then have "k \<in> set [0..11]"
    using month_rows by (fastforce simp: month_rows_def Let_def k_def a_def)
  then obtain q where q: "(153 * k + 2) div 5 - (31 * (k + 1)) div 12 = 7 * q - 2"
    using week_rows unfolding week_rows_def by blast
  define A B C D E where "A = y div 4" and "B = y div 100" and "C = y div 400" and "D = (153 * k + 2) div 5"
    and "E = (31 * (k + 1)) div 12"
  have m: "ymd_month d + 12 * a - 2 = k + 1" by (simp add: k_def)
  then have w: "day_of_week d = (ymd_day d + y + A - B + C + E) mod 7"
    by (simp only: day_of_week_def Let_def a_def [symmetric] y_def [symmetric] m A_def B_def C_def E_def)
  have yy: "ymd_year d + 4800 - a = y + 4800" by (simp add: y_def)
  have "day_number d = ymd_day d + D + 365 * (y + 4800) + (y + 4800) div 4 - (y + 4800) div 100 + (y + 4800) div 400 - 32045"
    by (simp only: day_number_def Let_def a_def [symmetric] k_def [symmetric] D_def yy)
  then have "day_number d + 1 = (ymd_day d + y + A - B + C + E) + (D - E) + 364 * y + 1721120"
    unfolding centuries by (simp add: A_def B_def C_def)
  also have "D - E = 7 * q - 2" using q by (simp add: D_def E_def)
  finally have "day_number d + 1 = (ymd_day d + y + A - B + C + E) + 7 * (q + 52 * y + 245874)" by simp
  then show ?thesis unfolding w by (simp only: mod_mult_self2)
qed

subsection \<open>Dates and day numbers\<close>

text \<open>The day number of a date determines the date, every day number of the calendar's range belongs to a
  valid date, and later dates have greater numbers.\<close>

theorem dates_are_day_numbers:
  assumes "valid_date d" and "valid_date d'" and "- 32044 \<le> n"
  shows "from_day_number (day_number d) = d \<and> valid_date (from_day_number n) \<and> day_number (from_day_number n) = n \<and>
    (ymd_less d d' \<longleftrightarrow> day_number d < day_number d')"
  using from_day_number_day_number [OF assms(1)] day_number_from_day_number [OF assms(3)]
    ymd_less_iff_day_number [OF assms(1,2)] by blast

theorem dates_are_day_numbers_witness:
  "from_day_number (day_number (YMD 2008 2 29)) = YMD 2008 2 29 \<and> day_number (YMD 2008 2 29) < day_number (YMD 2008 3 1) \<and>
   day_number (from_day_number 0) = 0"
proof -
  have "valid_date (YMD 2008 2 29)" "valid_date (YMD 2008 3 1)" "ymd_less (YMD 2008 2 29) (YMD 2008 3 1)" by code_simp+
  then show ?thesis using dates_are_day_numbers [of "YMD 2008 2 29" "YMD 2008 3 1" 0] by simp
qed

text \<open>The year of a day between the first of one year and the last of another.\<close>

lemma year_of_day_number:
  assumes "day_number (YMD a 1 1) \<le> n" and "n \<le> day_number (YMD b 12 31)" and "- 32044 \<le> n"
  shows "a \<le> ymd_year (from_day_number n) \<and> ymd_year (from_day_number n) \<le> b"
proof -
  have v: "valid_date (from_day_number n)" "day_number (from_day_number n) = n"
    using day_number_from_day_number [OF assms(3)] by auto
  have ends: "valid_date (YMD a 1 1)" "valid_date (YMD b 12 31)"
    by (simp_all add: valid_date_def end_of_month_day_def)
  have "\<not> ymd_less (from_day_number n) (YMD a 1 1)" "\<not> ymd_less (YMD b 12 31) (from_day_number n)"
    using ymd_less_iff_day_number [OF v(1) ends(1)] ymd_less_iff_day_number [OF ends(2) v(1)] v(2) assms(1,2) by simp_all
  then show ?thesis by (auto simp: ymd_less_def)
qed

text \<open>On the years the library accepts, the day of a time is its day of the calendar.\<close>

lemma extract_date_eq:
  assumes "library_day (day_of ts)"
  shows "extract_date ts = Some (day_of ts)"
proof -
  define n where "n = day_of ts"
  have n: "2232400 \<le> n" "n \<le> 5373484" using assms by (simp_all add: n_def library_day_bounds)
  have "ts_sec ts = 86400 * (n - epoch_date) + ts_sec ts mod 86400" by (simp add: n_def day_of_def)
  moreover have "0 \<le> ts_sec ts mod 86400" "ts_sec ts mod 86400 < 86400" by simp_all
  ultimately obtain s where s: "ts_sec ts = 86400 * (n - 2440588) + s" "0 \<le> s" "s < 86400"
    by (simp only: epoch_date_value)
  have ticks: "i64 (ts_sec ts * 1000000) = Some (ts_sec ts * 1000000)" using s n by (intro i64_Some) simp_all
  have cnt: "i64 (epoch_date * 86400000000 + ts_sec ts * 1000000) = Some (86400000000 * n + s * 1000000)"
    using s n by (simp add: epoch_date_value i64_def)
  have q: "(86400000000 * n + s * 1000000) sdiv 86400000000 = n"
    using s n by (simp add: signed_divide_int_eq_divide_int)
  obtain y m d where ymd: "from_day_number n = YMD y m d" by (cases "from_day_number n")
  have v: "valid_date (YMD y m d)" "day_number (YMD y m d) = n"
    using day_number_from_day_number [of n] n(1) by (simp_all add: ymd)
  have y: "1400 \<le> y" "y \<le> 9999"
    using year_of_day_number [of 1400 n 9999] n ymd by (simp_all add: day_number_def Let_def)
  have "d \<le> 31" using v(1) by (auto simp: valid_date_def end_of_month_day_def split: if_splits)
  then have r: "1 \<le> m" "m \<le> 12" "1 \<le> d" "d \<le> 31" using v(1) by (auto simp: valid_date_def)
  have "from_day_number_u32 (word_of_int n) = (word_of_int y, word_of_int m, word_of_int d)"
    using from_day_number_u32 [of n] n by (simp add: ymd)
  moreover have "uint (word_of_int y :: u16) = y" "uint (word_of_int m :: u16) = m" "uint (word_of_int d :: u16) = d"
    using y r by (simp_all add: uint_word_of_int)
  ultimately show ?thesis
    using y r v(2) unfolding n_def [symmetric] by (simp add: extract_date_def ticks cnt q word_le_def)
qed

lemma split_date_time_div:
  "library_day (day_of ts) \<Longrightarrow> split_date_time ts = Some (day_of ts, ts_sec ts mod 86400, ts_nsec ts)"
  by (simp add: split_date_time_def extract_date_eq) (simp add: extract_seconds_def day_of_def minus_div_mult_eq_mod)

lemma to_time_stamp_fields:
  "to_time_stamp (tm_year t + 1900) (tm_mon t + 1) (tm_mday t) (tm_hour t) (tm_min t) (tm_sec t) = (t :: tm)"
  by (cases t) (simp add: to_time_stamp_def)

text \<open>C35: For every time of the years 1400 to 9999: splitting it gives its day, the seconds since that day's
  midnight and the nanoseconds; the seconds are those of a day, the broken-down UTC time is a valid one of
  that day and that second, converting it back gives the time, and building a time point from its fields
  gives the nanoseconds of the time when they fit 64 bits, and an overflow when they do not.\<close>

theorem split_and_broken_down_time:
  assumes "library_day (day_of ts)"
  shows "\<exists>d s. split_date_time ts = Some (d, s, ts_nsec ts) \<and> 0 \<le> s \<and> s < 86400 \<and>
    ts_sec ts = ts_sec (make_timespec d) + s \<and> valid_tm (gmtime (ts_sec ts)) \<and>
    day_number (tm_date (gmtime (ts_sec ts))) = d \<and> day_second (gmtime (ts_sec ts)) = s \<and>
    mkgmtime (gmtime (ts_sec ts)) = ts_sec ts \<and>
    (let t = gmtime (ts_sec ts) in
       mktime_utc (tm_year t + 1900) (tm_mon t + 1) (tm_mday t) (tm_hour t) (tm_min t) (tm_sec t)) =
     i64 (ts_sec ts * ns_per_s)"
proof (rule exI [where x = "day_of ts"], rule exI [where x = "ts_sec ts mod 86400"], intro conjI)
  have first: "first_second \<le> ts_sec ts"
  proof -
    have "first_second div 86400 \<le> ts_sec ts div 86400"
      using assms by (simp add: library_day_bounds day_of_def first_second_def epoch_date_value)
    then show ?thesis by (simp add: first_second_def epoch_date_value)
  qed
  show "split_date_time ts = Some (day_of ts, ts_sec ts mod 86400, ts_nsec ts)" by (rule split_date_time_div [OF assms])
  show "0 \<le> ts_sec ts mod 86400" "ts_sec ts mod 86400 < 86400" by simp_all
  show "ts_sec ts = ts_sec (make_timespec (day_of ts)) + ts_sec ts mod 86400"
    by (simp add: make_timespec_def timespec_of_seconds_def extract_seconds_def day_of_def)
  show "valid_tm (gmtime (ts_sec ts))" by (rule gmtime_correct(1) [OF first])
  show "day_number (tm_date (gmtime (ts_sec ts))) = day_of ts"
    using day_number_from_day_number [of "day_of ts"] assms
    by (simp add: gmtime_correct(2) [OF first] day_of_def library_day_bounds)
  show "day_second (gmtime (ts_sec ts)) = ts_sec ts mod 86400" by (rule gmtime_correct(3) [OF first])
  show again: "mkgmtime (gmtime (ts_sec ts)) = ts_sec ts" by (rule gmtime_correct(4) [OF first])
  show "(let t = gmtime (ts_sec ts) in
       mktime_utc (tm_year t + 1900) (tm_mon t + 1) (tm_mday t) (tm_hour t) (tm_min t) (tm_sec t)) =
     i64 (ts_sec ts * ns_per_s)"
    by (simp add: Let_def mktime_utc_def from_time_t_def to_time_stamp_fields again)
qed

theorem split_and_broken_down_time_witness:
  "\<exists>d s. split_date_time (Timespec 1546338300 7) = Some (d, s, 7) \<and> s < 86400 \<and>
     mkgmtime (gmtime 1546338300) = 1546338300"
proof -
  have "library_day (day_of (Timespec 1546338300 7))" by (simp add: day_of_def library_day_bounds epoch_date_value)
  from split_and_broken_down_time [OF this] show ?thesis by auto
qed

end
