(* ===== verification/Stringify.thy ===== *)
theory Stringify imports
  Calendar
  "HOL-Library.Char_ord"
  "HOL-Library.List_Lexorder"
begin

section \<open>Stringify: integers and points in time as text\<close>

text \<open>
  \<open>src/src/utils/stringify.hpp\<close> and \<open>stringify.cpp\<close>, with the two pieces of the vendored generator
  and parser library they use: the decimal generator with \<open>right_align\<close>, and the integer parser, which
  takes an optional sign and at least and at most a given number of digits. A \<open>time_point\<close> of the
  system clock counts nanoseconds in 64 bits, so a date beyond its range is undefined (\<open>None\<close>); a text
  that does not parse is the default \<open>time_point\<close>, 0.
\<close>

subsection \<open>Decimal digits\<close>

definition digit_char :: "nat \<Rightarrow> char" where
  "digit_char d = char_of (48 + d)"

definition char_digit :: "char \<Rightarrow> nat" where
  "char_digit c = of_char c - 48"

definition is_digit :: "char \<Rightarrow> bool" where
  "is_digit c \<longleftrightarrow> (48::nat) \<le> of_char c \<and> of_char c \<le> (57::nat)"

fun nat_digits :: "nat \<Rightarrow> string" where
  "nat_digits n = (if n < 10 then [digit_char n] else nat_digits (n div 10) @ [digit_char (n mod 10)])"

declare nat_digits.simps [simp del]

definition int_digits :: "int \<Rightarrow> string" where
  "int_digits i = (if i < 0 then CHR ''-'' # nat_digits (nat (- i)) else nat_digits (nat i))"

definition right_align :: "nat \<Rightarrow> string \<Rightarrow> string" where
  "right_align width s = replicate (width - length s) CHR ''0'' @ s"

definition digits_value :: "string \<Rightarrow> nat" where
  "digits_value s = foldl (\<lambda>v c. v * 10 + char_digit c) 0 s"

definition extract_sign :: "string \<Rightarrow> bool \<times> string" where
  "extract_sign s = (case s of [] \<Rightarrow> (False, [])
     | c # cs \<Rightarrow> if c = CHR ''-'' then (True, cs) else if c = CHR ''+'' then (False, cs) else (False, s))"

subsection \<open>Integers as text\<close>

text \<open>
  The buffer of 24 characters is cut back to what was generated; the vector variant keeps the
  terminating null character.
\<close>

definition int_to_stringlike :: "bool \<Rightarrow> int \<Rightarrow> string" where
  "int_to_stringlike include_null i = int_digits i @ (if include_null then [char_of (0::nat)] else [])"

definition int_to_string :: "int \<Rightarrow> string" where
  "int_to_string i = int_to_stringlike False i"

text \<open>
  The parser of a type of values from \<open>lo\<close> to \<open>hi\<close>, which takes a sign when \<open>lo\<close> is negative: what
  it parsed and the input left. A value out of range is a failed parse.
\<close>

definition parse_integer :: "int \<Rightarrow> int \<Rightarrow> string \<Rightarrow> (int \<times> string) option" where
  "parse_integer lo hi s = (let (neg, s') = (if lo < 0 then extract_sign s else (False, s));
      ds = takeWhile is_digit s'; v = (if neg then - int (digits_value ds) else int (digits_value ds))
    in if ds = [] \<or> v < lo \<or> hi < v then None else Some (v, dropWhile is_digit s'))"

text \<open>Whether the conversion succeeded, and the result variable afterwards.\<close>

definition int_from_string :: "int \<Rightarrow> int \<Rightarrow> string \<Rightarrow> int \<Rightarrow> bool \<times> int" where
  "int_from_string lo hi str res =
     (case parse_integer lo hi str of None \<Rightarrow> (False, res) | Some (v, rest) \<Rightarrow> (rest = [], v))"

subsection \<open>Points in time as text\<close>

definition to_iso_extended_string_utc :: "int \<Rightarrow> string" where
  "to_iso_extended_string_utc t = (let time_struct = gmtime t in
     right_align 4 (int_digits (tm_year time_struct + 1900)) @ ''-'' @
     right_align 2 (int_digits (tm_mon time_struct + 1)) @ ''-'' @
     right_align 2 (int_digits (tm_mday time_struct)) @ ''T'' @
     right_align 2 (int_digits (tm_hour time_struct)) @ '':'' @
     right_align 2 (int_digits (tm_min time_struct)) @ '':'' @
     right_align 2 (int_digits (tm_sec time_struct)) @ ''Z'')"

text \<open>
  \<open>to_time_t\<close> gives the seconds of a time point, truncated towards zero, and the second overload of
  \<open>to_iso_extended_string_utc\<close> goes through it.
\<close>

definition to_time_t :: "int \<Rightarrow> int" where
  "to_time_t tp = tp sdiv ns_per_s"

definition to_iso_extended_string_utc_tp :: "int \<Rightarrow> string" where
  "to_iso_extended_string_utc_tp t = to_iso_extended_string_utc (to_time_t t)"

text \<open>\<open>localtime_r\<close> depends on the time zone of the host, an argument here.\<close>

definition to_simple_string :: "(int \<Rightarrow> tm) \<Rightarrow> int \<Rightarrow> string" where
  "to_simple_string localtime t = (let tt = to_time_t t; time_struct = localtime tt in
     right_align 4 (int_digits (tm_year time_struct + 1900)) @ ''-'' @
     right_align 2 (int_digits (tm_mon time_struct + 1)) @ ''-'' @
     right_align 2 (int_digits (tm_mday time_struct)) @ '' '' @
     right_align 2 (int_digits (tm_hour time_struct)) @ '':'' @
     right_align 2 (int_digits (tm_min time_struct)) @ '':'' @
     right_align 2 (int_digits (tm_sec time_struct)))"

definition parse_field :: "nat \<Rightarrow> string \<Rightarrow> (int \<times> string) option" where
  "parse_field width s = (let (neg, s') = extract_sign s; ds = take width s' in
     if length ds = width \<and> list_all is_digit ds
     then Some (if neg then - int (digits_value ds) else int (digits_value ds), drop width s') else None)"

definition parse_char :: "char \<Rightarrow> string \<Rightarrow> string option" where
  "parse_char c s = (case s of [] \<Rightarrow> None | c' # cs \<Rightarrow> if c' = c then Some cs else None)"

definition parse_iso :: "string \<Rightarrow> tm option" where
  "parse_iso str = do {
     (year, s) \<leftarrow> parse_field 4 str;
     s \<leftarrow> parse_char CHR ''-'' s;
     (month, s) \<leftarrow> parse_field 2 s;
     s \<leftarrow> parse_char CHR ''-'' s;
     (day, s) \<leftarrow> parse_field 2 s;
     s \<leftarrow> parse_char CHR ''T'' s;
     (hour, s) \<leftarrow> parse_field 2 s;
     s \<leftarrow> parse_char CHR '':'' s;
     (minute, s) \<leftarrow> parse_field 2 s;
     s \<leftarrow> parse_char CHR '':'' s;
     (seconds, s) \<leftarrow> parse_field 2 s;
     Some \<lparr>tm_year = year - 1900, tm_mon = month - 1, tm_mday = day, tm_hour = hour, tm_min = minute, tm_sec = seconds\<rparr>
   }"

definition from_iso_extended_string_utc :: "string \<Rightarrow> int option" where
  "from_iso_extended_string_utc str =
     (case parse_iso str of None \<Rightarrow> Some 0 | Some time_struct \<Rightarrow> from_time_t (mkgmtime time_struct))"

subsection \<open>Digits and their values\<close>

lemma of_char_digit: "d < 10 \<Longrightarrow> of_char (digit_char d) = 48 + d"
  by (simp add: digit_char_def)

lemma char_digit_digit_char [simp]: "d < 10 \<Longrightarrow> char_digit (digit_char d) = d"
  by (simp add: char_digit_def of_char_digit)

lemma is_digit_digit_char [simp]: "d < 10 \<Longrightarrow> is_digit (digit_char d)"
  by (simp add: is_digit_def of_char_digit)

lemma digits_value_Nil [simp]: "digits_value [] = 0"
  by (simp add: digits_value_def)

lemma digits_value_snoc [simp]: "digits_value (s @ [c]) = digits_value s * 10 + char_digit c"
  by (simp add: digits_value_def)

lemma nat_digits_correct: "nat_digits n \<noteq> [] \<and> list_all is_digit (nat_digits n) \<and> digits_value (nat_digits n) = n"
proof (induction n rule: nat_digits.induct)
  case (1 n)
  show ?case
  proof (cases "n < 10")
    case True
    then show ?thesis using digits_value_snoc [of "[]" "digit_char n"] by (simp add: nat_digits.simps [of n])
  next
    case False
    then show ?thesis using 1 by (simp add: nat_digits.simps [of n])
  qed
qed

text \<open>The digits of a field of a fixed width.\<close>

fun pad_digits :: "nat \<Rightarrow> nat \<Rightarrow> string" where
  "pad_digits 0 n = []"
| "pad_digits (Suc w) n = pad_digits w (n div 10) @ [digit_char (n mod 10)]"

lemma length_pad_digits [simp]: "length (pad_digits w n) = w"
  by (induction w arbitrary: n) simp_all

lemma digit_char_0: "digit_char 0 = CHR ''0''"
  by code_simp

lemma pad_digits_0: "pad_digits w 0 = replicate w CHR ''0''"
  by (induction w) (simp_all add: digit_char_0 replicate_append_same)

lemma right_align_nat_digits:
  "n < 10 ^ w \<Longrightarrow> 0 < w \<Longrightarrow> right_align w (nat_digits n) = pad_digits w n"
proof (induction w arbitrary: n)
  case (Suc w)
  show ?case
  proof (cases "n < 10")
    case True
    then show ?thesis by (simp add: nat_digits.simps [of n] right_align_def pad_digits_0)
  next
    case False
    then have "w \<noteq> 0" using Suc.prems by (cases w) simp_all
    have "right_align (Suc w) (nat_digits n) = right_align w (nat_digits (n div 10)) @ [digit_char (n mod 10)]"
      using False by (simp add: nat_digits.simps [of n] right_align_def)
    then show ?thesis using Suc \<open>w \<noteq> 0\<close> by (simp add: less_mult_imp_div_less)
  qed
qed simp

lemma right_align_int_digits:
  "0 \<le> i \<Longrightarrow> i < 10 ^ w \<Longrightarrow> 0 < w \<Longrightarrow> right_align w (int_digits i) = pad_digits w (nat i)"
  using right_align_nat_digits [of "nat i" w] by (simp add: int_digits_def nat_less_iff)

lemma pad_digits_correct:
  "n < 10 ^ w \<Longrightarrow> list_all is_digit (pad_digits w n) \<and> digits_value (pad_digits w n) = n"
  by (induction w arbitrary: n) (simp_all add: less_mult_imp_div_less)

lemma pad_digits_unsigned: "0 < w \<Longrightarrow> extract_sign (pad_digits w n @ rest) = (False, pad_digits w n @ rest)"
proof (induction w arbitrary: n rest)
  case (Suc w)
  have "digit_char (n mod 10) \<noteq> CHR ''-''" "digit_char (n mod 10) \<noteq> CHR ''+''"
    using of_char_digit [of "n mod 10"] by auto
  then show ?case
    using Suc.IH [of "n div 10" "digit_char (n mod 10) # rest"] by (cases w) (simp_all add: extract_sign_def)
qed simp

lemma parse_field_pad:
  "n < 10 ^ w \<Longrightarrow> 0 < w \<Longrightarrow> parse_field w (pad_digits w n @ rest) = Some (int n, rest)"
  by (simp add: parse_field_def pad_digits_unsigned pad_digits_correct)

lemma parse_char_Cons [simp]: "parse_char c (c # s) = Some s"
  by (simp add: parse_char_def)


subsection \<open>The ISO text of a point in time\<close>

definition iso_fields :: "tm \<Rightarrow> string" where
  "iso_fields t =
     pad_digits 4 (nat (tm_year t + 1900)) @ CHR ''-'' # pad_digits 2 (nat (tm_mon t + 1)) @ CHR ''-'' #
     pad_digits 2 (nat (tm_mday t)) @ CHR ''T'' # pad_digits 2 (nat (tm_hour t)) @ CHR '':'' #
     pad_digits 2 (nat (tm_min t)) @ CHR '':'' # pad_digits 2 (nat (tm_sec t)) @ ''Z''"

definition four_digit_year :: "tm \<Rightarrow> bool" where
  "four_digit_year t \<longleftrightarrow> valid_tm t \<and> 0 \<le> tm_year t + 1900 \<and> tm_year t + 1900 < 10000"

lemma end_of_month_le: "end_of_month_day y m \<le> 31"
  by (simp add: end_of_month_day_def)

lemma four_digit_year_bounds:
  assumes "four_digit_year t"
  shows "0 \<le> tm_year t + 1900 \<and> tm_year t + 1900 < 10 ^ 4 \<and> 0 \<le> tm_mon t + 1 \<and> tm_mon t + 1 < 10 ^ 2 \<and>
    0 \<le> tm_mday t \<and> tm_mday t < 10 ^ 2 \<and> 0 \<le> tm_hour t \<and> tm_hour t < 10 ^ 2 \<and>
    0 \<le> tm_min t \<and> tm_min t < 10 ^ 2 \<and> 0 \<le> tm_sec t \<and> tm_sec t < 10 ^ 2"
  using assms end_of_month_le [of "tm_year t + 1900" "tm_mon t + 1"]
  by (simp add: four_digit_year_def valid_tm_def valid_date_def)

lemma to_iso_fields:
  "four_digit_year (gmtime t) \<Longrightarrow> to_iso_extended_string_utc t = iso_fields (gmtime t)"
  using four_digit_year_bounds [of "gmtime t"]
  by (simp add: to_iso_extended_string_utc_def Let_def iso_fields_def right_align_int_digits)

lemma parse_iso_fields: "four_digit_year t \<Longrightarrow> parse_iso (iso_fields t) = Some t"
proof -
  assume t: "four_digit_year t"
  have n: "nat i < 10 ^ w" if "0 \<le> i" "i < 10 ^ w" for i :: int and w
    using that by (simp add: nat_less_iff)
  note b = four_digit_year_bounds [OF t]
  show ?thesis
    using b n [of "tm_year t + 1900" 4] n [of "tm_mon t + 1" 2] n [of "tm_mday t" 2] n [of "tm_hour t" 2]
      n [of "tm_min t" 2] n [of "tm_sec t" 2]
    by (simp add: parse_iso_def iso_fields_def parse_field_pad)
qed

lemma iso_roundtrip:
  assumes "first_second \<le> t" and "four_digit_year (gmtime t)"
  shows "from_iso_extended_string_utc (to_iso_extended_string_utc t) = i64 (t * ns_per_s)"
  using assms by (simp add: from_iso_extended_string_utc_def to_iso_fields parse_iso_fields gmtime_correct from_time_t_def)

subsection \<open>The order of the texts is the order of the times\<close>

lemma append_less_iff:
  "length xs = length ys \<Longrightarrow> (xs :: 'a::linorder list) @ us < ys @ vs \<longleftrightarrow> xs < ys \<or> (xs = ys \<and> us < vs)"
  by (induction xs ys rule: list_induct2) auto

lemma scaled_less:
  assumes "0 \<le> s" "s < k" "0 \<le> s'" "s' < (k :: int)"
  shows "a * k + s < b * k + s' \<longleftrightarrow> a < b \<or> (a = b \<and> s < s')"
proof (cases a b rule: linorder_cases)
  case less
  then have "(a + 1) * k \<le> b * k" using assms by (intro mult_right_mono) simp_all
  then show ?thesis using less assms by (simp add: algebra_simps)
next
  case greater
  then have "(b + 1) * k \<le> a * k" using assms by (intro mult_right_mono) simp_all
  then show ?thesis using greater assms by (simp add: algebra_simps)
qed simp

lemma digit_char_less: "a < 10 \<Longrightarrow> b < 10 \<Longrightarrow> digit_char a < digit_char b \<longleftrightarrow> a < b"
  by (simp add: less_char_def of_char_digit)

lemma pad_digits_inject:
  "a < 10 ^ w \<Longrightarrow> b < 10 ^ w \<Longrightarrow> pad_digits w a = pad_digits w b \<longleftrightarrow> a = b"
  using pad_digits_correct [of a w] pad_digits_correct [of b w] by metis

lemma pad_digits_less:
  "a < 10 ^ w \<Longrightarrow> b < 10 ^ w \<Longrightarrow> pad_digits w a < pad_digits w b \<longleftrightarrow> a < b"
proof (induction w arbitrary: a b)
  case (Suc w)
  have q: "a div 10 < 10 ^ w" "b div 10 < 10 ^ w" using Suc.prems by (simp_all add: less_mult_imp_div_less)
  have dm: "int (n div 10) * 10 + int (n mod 10) = int n" for n
    by (metis div_mult_mod_eq of_nat_add of_nat_mult of_nat_numeral)
  have "int a < int b \<longleftrightarrow> int (a div 10) < int (b div 10) \<or> (int (a div 10) = int (b div 10) \<and> int (a mod 10) < int (b mod 10))"
    using scaled_less [of "int (a mod 10)" 10 "int (b mod 10)" "int (a div 10)" "int (b div 10)"] unfolding dm by simp
  then have "a < b \<longleftrightarrow> a div 10 < b div 10 \<or> (a div 10 = b div 10 \<and> a mod 10 < b mod 10)"
    by (simp only: of_nat_less_iff of_nat_eq_iff)
  then show ?case
    using Suc.IH [OF q] by (simp add: append_less_iff pad_digits_inject [OF q] digit_char_less)
qed simp

definition tm_less :: "tm \<Rightarrow> tm \<Rightarrow> bool" where
  "tm_less t u \<longleftrightarrow> ymd_less (tm_date t) (tm_date u) \<or> (tm_date t = tm_date u \<and>
     (tm_hour t < tm_hour u \<or> (tm_hour t = tm_hour u \<and>
       (tm_min t < tm_min u \<or> (tm_min t = tm_min u \<and> tm_sec t < tm_sec u)))))"

lemma tm_less_mkgmtime:
  assumes "valid_tm t" and "valid_tm u"
  shows "tm_less t u \<longleftrightarrow> mkgmtime t < mkgmtime u"
proof -
  have v: "valid_date (tm_date t)" "valid_date (tm_date u)"
    using assms by (simp_all add: valid_tm_def tm_date_def)
  have inj_day: "tm_date t = tm_date u \<longleftrightarrow> day_number (tm_date t) = day_number (tm_date u)"
    using from_day_number_day_number [OF v(1)] from_day_number_day_number [OF v(2)] by metis
  have sec: "day_second t < day_second u \<longleftrightarrow> tm_hour t < tm_hour u \<or> (tm_hour t = tm_hour u \<and>
       (tm_min t < tm_min u \<or> (tm_min t = tm_min u \<and> tm_sec t < tm_sec u)))"
    using assms unfolding valid_tm_def day_second_def by linarith
  have "tm_less t u \<longleftrightarrow> day_number (tm_date t) < day_number (tm_date u) \<or>
      (day_number (tm_date t) = day_number (tm_date u) \<and> day_second t < day_second u)"
    unfolding tm_less_def sec [symmetric] inj_day ymd_less_iff_day_number [OF v] ..
  also have "\<dots> \<longleftrightarrow> mkgmtime t < mkgmtime u"
    unfolding mkgmtime_valid [OF assms(1)] mkgmtime_valid [OF assms(2)]
    using day_second_bounds [OF assms(1)] day_second_bounds [OF assms(2)] by (simp add: scaled_less)
  finally show ?thesis .
qed

lemma pad_field_less:
  assumes "0 \<le> i" "i < 10 ^ w" "0 \<le> j" "j < (10::int) ^ w"
  shows "pad_digits w (nat i) @ us < pad_digits w (nat j) @ vs \<longleftrightarrow> i < j \<or> (i = j \<and> us < vs)"
proof -
  have n: "nat i < 10 ^ w" "nat j < 10 ^ w" using assms by (simp_all add: nat_less_iff)
  show ?thesis
    using assms by (simp add: append_less_iff pad_digits_less [OF n] pad_digits_inject [OF n] eq_nat_nat_iff) linarith
qed

lemma iso_fields_less:
  assumes "four_digit_year t" and "four_digit_year u"
  shows "iso_fields t < iso_fields u \<longleftrightarrow> tm_less t u"
  using four_digit_year_bounds [OF assms(1)] four_digit_year_bounds [OF assms(2)]
  unfolding iso_fields_def tm_less_def ymd_less_def tm_date_def
  by (simp add: pad_field_less) blast

lemma to_iso_less:
  assumes "first_second \<le> t" and "four_digit_year (gmtime t)" and "first_second \<le> u" and "four_digit_year (gmtime u)"
  shows "to_iso_extended_string_utc t < to_iso_extended_string_utc u \<longleftrightarrow> t < u"
proof -
  have "to_iso_extended_string_utc t < to_iso_extended_string_utc u \<longleftrightarrow> tm_less (gmtime t) (gmtime u)"
    using assms by (simp add: to_iso_fields iso_fields_less)
  also have "\<dots> \<longleftrightarrow> t < u"
    using assms by (simp add: tm_less_mkgmtime gmtime_correct)
  finally show ?thesis .
qed

text \<open>Which times have a year of four digits: those from the year 0 to the year 9999.\<close>

lemma four_digit_year_range:
  assumes "utc_seconds 0 1 1 0 0 0 \<le> t" and "t < utc_seconds 10000 1 1 0 0 0"
  shows "first_second \<le> t \<and> four_digit_year (gmtime t)"
proof -
  have y0: "utc_seconds 0 1 1 0 0 0 = (day_number (YMD 0 1 1) - epoch_date) * 86400"
    and y1: "utc_seconds 10000 1 1 0 0 0 = (day_number (YMD 10000 1 1) - epoch_date) * 86400"
    by (simp_all add: utc_seconds_def mkgmtime_def to_time_stamp_def)
  have f: "first_second \<le> t"
    using assms(1) unfolding y0 by (simp add: first_second_def epoch_date_value day_number_def Let_def)
  note g = gmtime_correct [OF f]
  have v: "valid_date (tm_date (gmtime t))" using g(1) by (simp add: valid_tm_def tm_date_def)
  have "t = (day_number (tm_date (gmtime t)) - epoch_date) * 86400 + day_second (gmtime t)"
    using g(4) mkgmtime_valid [OF g(1)] by simp
  then have "day_number (YMD 0 1 1) \<le> day_number (tm_date (gmtime t))"
    "day_number (tm_date (gmtime t)) < day_number (YMD 10000 1 1)"
    using assms day_second_bounds [OF g(1)] scaled_less [of 0 86400 "day_second (gmtime t)"]
      scaled_less [of "day_second (gmtime t)" 86400 0]
    unfolding y0 y1 by (auto simp: not_less [symmetric])
  moreover have "valid_date (YMD 0 1 1)" "valid_date (YMD 10000 1 1)"
    by (simp_all add: valid_date_def end_of_month_day_def)
  ultimately have "\<not> ymd_less (tm_date (gmtime t)) (YMD 0 1 1)" "ymd_less (tm_date (gmtime t)) (YMD 10000 1 1)"
    using ymd_less_iff_day_number v by (simp_all add: not_less)
  then show ?thesis
    using f g(1) v by (auto simp: four_digit_year_def tm_date_def ymd_less_def valid_date_def)
qed


subsection \<open>Texts that are read back\<close>

text \<open>C33: The ISO text of a time from the year 0 to the year 9999 is read back as its nanoseconds where these fit
  the 64 bits of a time point, and overflows otherwise; the texts of two such times compare as the times do.\<close>

theorem iso_text_of_time:
  assumes "utc_seconds 0 1 1 0 0 0 \<le> t" and "t < utc_seconds 10000 1 1 0 0 0"
    and "utc_seconds 0 1 1 0 0 0 \<le> u" and "u < utc_seconds 10000 1 1 0 0 0"
  shows "from_iso_extended_string_utc (to_iso_extended_string_utc t) = i64 (t * ns_per_s) \<and>
    (to_iso_extended_string_utc t < to_iso_extended_string_utc u \<longleftrightarrow> t < u)"
  using four_digit_year_range [OF assms(1,2)] four_digit_year_range [OF assms(3,4)] iso_roundtrip to_iso_less by blast

theorem iso_text_of_time_witness:
  "to_iso_extended_string_utc 1546338300 = ''2019-01-01T10:25:00Z'' \<and>
   from_iso_extended_string_utc ''2019-01-01T10:25:00Z'' = Some 1546338300000000000 \<and>
   to_iso_extended_string_utc 1546338300 < to_iso_extended_string_utc 1546338301"
proof -
  have b: "utc_seconds 0 1 1 0 0 0 \<le> 1546338300" "1546338300 < utc_seconds 10000 1 1 0 0 0"
    "utc_seconds 0 1 1 0 0 0 \<le> 1546338301" "1546338301 < utc_seconds 10000 1 1 0 0 0"
    "i64 (1546338300 * ns_per_s) = Some 1546338300000000000" by code_simp+
  have t: "to_iso_extended_string_utc 1546338300 = ''2019-01-01T10:25:00Z''" by code_simp
  show ?thesis using iso_text_of_time [OF b(1-4)] unfolding t b(5) by simp
qed

text \<open>A time point comes back without the nanoseconds of its second.\<close>

lemma iso_text_of_time_point:
  assumes "0 \<le> tp" and "tp < 2 ^ 63"
  shows "from_iso_extended_string_utc (to_iso_extended_string_utc_tp tp) = Some (tp - tp mod ns_per_s)"
proof -
  let ?t = "tp div ns_per_s"
  have t: "to_time_t tp = ?t" "?t * ns_per_s = tp - tp mod ns_per_s"
    using assms(1) by (simp_all add: to_time_t_def sdiv_ns minus_mod_eq_div_mult)
  have "0 \<le> ?t" "?t \<le> (2 ^ 63 - 1) div ns_per_s"
    using assms by (simp_all add: ns_per_s_def pos_imp_zdiv_nonneg_iff zdiv_mono1)
  then have "0 \<le> ?t" "?t \<le> 9223372036" by (simp_all add: ns_per_s_def)
  moreover have "utc_seconds 0 1 1 0 0 0 \<le> 0" "9223372036 < utc_seconds 10000 1 1 0 0 0" by code_simp+
  ultimately have "first_second \<le> ?t \<and> four_digit_year (gmtime ?t)" by (intro four_digit_year_range) linarith+
  then have "from_iso_extended_string_utc (to_iso_extended_string_utc ?t) = i64 (?t * ns_per_s)" using iso_roundtrip by blast
  moreover have "0 \<le> tp mod ns_per_s" "0 \<le> ?t * ns_per_s" using \<open>0 \<le> ?t\<close> by (simp_all add: ns_per_s_def)
  ultimately show ?thesis using assms by (simp add: t to_iso_extended_string_utc_tp_def i64_def)
qed

lemma nat_digits_plain: "extract_sign (nat_digits n) = (False, nat_digits n)"
proof -
  obtain c cs where c: "nat_digits n = c # cs" "is_digit c" using nat_digits_correct [of n] by (cases "nat_digits n") auto
  then have "c \<noteq> CHR ''-''" "c \<noteq> CHR ''+''" by (auto simp: is_digit_def)
  then show ?thesis using c by (simp add: extract_sign_def)
qed

lemma nat_digits_all: "takeWhile is_digit (nat_digits n) = nat_digits n" "dropWhile is_digit (nat_digits n) = []"
  using nat_digits_correct [of n] by (simp_all add: list_all_iff)

text \<open>C34: The decimal text of an integer is read back as the integer by the parser of every type whose range
  holds it, and the conversion reports success; a text that goes on after the integer is reported as a
  failure.\<close>

theorem integer_text_read_back:
  assumes "lo \<le> i" and "i \<le> hi" and "lo \<le> 0"
  shows "int_from_string lo hi (int_to_string i) res = (True, i) \<and>
    (\<not> is_digit c \<longrightarrow> int_from_string lo hi (int_to_string i @ c # cs) res = (False, i))"
proof -
  define n where "n = nat \<bar>i\<bar>"
  have t: "int_to_string i = (if i < 0 then CHR ''-'' # nat_digits n else nat_digits n)"
    by (simp add: int_to_string_def int_to_stringlike_def int_digits_def n_def)
  have d: "nat_digits n \<noteq> []" "digits_value (nat_digits n) = n" using nat_digits_correct by simp_all
  have tw: "takeWhile is_digit (nat_digits n @ c # cs) = nat_digits n" "dropWhile is_digit (nat_digits n @ c # cs) = c # cs"
    if "\<not> is_digit c"
    using nat_digits_correct [of n] that by (simp_all add: list_all_iff takeWhile_append dropWhile_append)
  have s: "extract_sign (nat_digits n @ c # cs) = (False, nat_digits n @ c # cs)"
    using nat_digits_plain [of n] d(1) by (cases "nat_digits n") (auto simp: extract_sign_def split: if_splits)
  have v: "(if i < 0 then - int n else int n) = i" by (simp add: n_def)
  show ?thesis
  proof (cases "i < 0")
    case True
    then have "lo < 0" "extract_sign (CHR ''-'' # xs) = (True, xs)" for xs
      using assms by (simp_all add: extract_sign_def)
    then show ?thesis
      using True t d tw v assms by (simp add: int_from_string_def parse_integer_def nat_digits_all Let_def)
  next
    case False
    then show ?thesis
      using t d tw s v assms nat_digits_plain [of n]
      by (simp add: int_from_string_def parse_integer_def nat_digits_all Let_def)
  qed
qed

theorem integer_text_read_back_witness:
  "int_from_string (- 128) 127 (int_to_string (- 42)) 0 = (True, - 42) \<and>
   int_from_string (- 128) 127 (int_to_string (- 42) @ ''x'') 0 = (False, - 42)"
proof -
  have "\<not> is_digit CHR ''x''" by code_simp
  then show ?thesis using integer_text_read_back [of "- 128" "- 42" 127 0 "CHR ''x''" "[]"] by simp
qed

end
