(* ===== verification/Nasdaq_Exec.thy ===== *)
theory Nasdaq_Exec imports
  Snapshot_Codec
  Book_Printing
  Stringify
begin

section \<open>Nasdaq executor: the driver of the engine\<close>

text \<open>
  \<open>src/src/nasdaq_exec/nasdaq_exec.cpp\<close>: the time range, the order records from the columns of the
  database, the snapshots, and \<open>main\<close>. The database client is not part of the repository: its calls
  and its constants are the argument \<open>qdb_api\<close>. A thrown exception is a value of \<open>exec_error\<close>, with
  \<open>Null_String\<close> for a string built from a null pointer and \<open>Undefined\<close> for every other way a run leaves
  the language: undefined behaviour, an exception out of a function declared not to throw, a failed
  assertion. Text output and elapsed times are left out, the rows of the
  printed books are kept; memory of the client's results is not tracked.
\<close>

subsection \<open>The database client\<close>

record qdb_api =
  ts_int64_get_ranges :: "string \<Rightarrow> string \<Rightarrow> timespec \<Rightarrow> timespec \<Rightarrow> int + (timespec \<times> u64) list"
  ts_double_get_ranges :: "string \<Rightarrow> string \<Rightarrow> timespec \<Rightarrow> timespec \<Rightarrow> int + (timespec \<times> double) list"
  prefix_get :: "string \<Rightarrow> nat \<Rightarrow> int \<times> string list"
  blob_get :: "string \<Rightarrow> int + u8 list"
  blob_update :: "string \<Rightarrow> u8 list \<Rightarrow> int"
  qdb_failure :: "int \<Rightarrow> bool"
  e_alias_not_found :: int
  int64_undefined :: u64

datatype exec_error = Runtime_Error string | Null_String | Undefined

record config =
  cfg_collapsed :: bool
  cfg_point_in_time :: bool
  cfg_qdb_url :: string
  cfg_stock :: string
  cfg_when :: string

text \<open>What \<open>parse_config\<close> starts from: the default values of its options.\<close>

definition config_defaults :: config where
  "config_defaults = \<lparr>cfg_collapsed = False, cfg_point_in_time = True,
     cfg_qdb_url = ''qdb://127.0.0.1:2836'', cfg_stock = [], cfg_when = []\<rparr>"

text \<open>
  The checks of \<open>parse_config\<close> on the options the options library has parsed: the help is printed and
  the process ends (\<open>None\<close>), or a mandatory option is missing.
\<close>

definition check_config :: "bool \<Rightarrow> config \<Rightarrow> (exec_error + config) option" where
  "check_config help cfg =
     (if help then None
      else if cfg_stock cfg = [] then Some (Inl (Runtime_Error ''please specify a stock''))
      else if cfg_when cfg = [] then Some (Inl (Runtime_Error ''please specify a point in time''))
      else Some (Inr cfg))"

definition throw_on_failure :: "qdb_api \<Rightarrow> int \<Rightarrow> string \<Rightarrow> 'a \<Rightarrow> exec_error + 'a" where
  "throw_on_failure api err msg v = (if qdb_failure api err then Inl (Runtime_Error msg) else Inr v)"

subsection \<open>The time range\<close>

definition get_time_range :: "string \<Rightarrow> exec_error + (timespec \<times> timespec)" where
  "get_time_range when =
     (case from_iso_extended_string_utc when of
        None \<Rightarrow> Inl Undefined
      | Some time_point \<Rightarrow>
          if time_point = 0 then Inl (Runtime_Error ''invalid time'')
          else let time_point_ts = timespec_of_seconds (time_point sdiv ns_per_s)
               in case extract_date time_point_ts of
                    None \<Rightarrow> Inl Undefined
                  | Some requested_day \<Rightarrow> Inr (make_timespec requested_day, time_point_ts))"

subsection \<open>The order records\<close>

type_synonym order_records = "(timespec \<times> order_record) list"

text \<open>\<open>emplace_hint\<close> at the end of a \<open>flat_multimap\<close>: in key order, after the entries of an equal key.\<close>

definition emplace_at_end :: "timespec \<Rightarrow> 'a \<Rightarrow> (timespec \<times> 'a) list \<Rightarrow> (timespec \<times> 'a) list" where
  "emplace_at_end k v res = takeWhile (\<lambda>e. fst e \<le> k) res @ (k, v) # dropWhile (\<lambda>e. fst e \<le> k) res"

definition get_ranges_int64 :: "qdb_api \<Rightarrow> string \<Rightarrow> string \<Rightarrow> timespec \<Rightarrow> timespec \<Rightarrow> exec_error + (timespec \<times> u64) list" where
  "get_ranges_int64 api table_name column first limit =
     (case ts_int64_get_ranges api table_name column first limit of
        Inl err \<Rightarrow> throw_on_failure api err ''int64 get range'' []
      | Inr points \<Rightarrow> Inr points)"

definition get_ranges_double :: "qdb_api \<Rightarrow> string \<Rightarrow> string \<Rightarrow> timespec \<Rightarrow> timespec \<Rightarrow> exec_error + (timespec \<times> double) list" where
  "get_ranges_double api table_name column first limit =
     (case ts_double_get_ranges api table_name column first limit of
        Inl err \<Rightarrow> throw_on_failure api err ''int64 get range'' []
      | Inr points \<Rightarrow> Inr points)"

text \<open>The columns of one table, and row \<open>i\<close> of them; a row beyond a column is outside its array.\<close>

record order_columns =
  col_type :: "(timespec \<times> u64) list"
  col_reference :: "(timespec \<times> u64) list"
  col_original_reference :: "(timespec \<times> u64) list"
  col_new_reference :: "(timespec \<times> u64) list"
  col_is_buy :: "(timespec \<times> u64) list"
  col_shares :: "(timespec \<times> u64) list"
  col_price :: "(timespec \<times> double) list"

definition get_columns :: "qdb_api \<Rightarrow> string \<Rightarrow> timespec \<Rightarrow> timespec \<Rightarrow> exec_error + order_columns" where
  "get_columns api t first limit =
     and_then (get_ranges_int64 api t ''type'' first limit) (\<lambda>c1.
     and_then (get_ranges_int64 api t ''reference'' first limit) (\<lambda>c2.
     and_then (get_ranges_int64 api t ''original_reference'' first limit) (\<lambda>c3.
     and_then (get_ranges_int64 api t ''new_reference'' first limit) (\<lambda>c4.
     and_then (get_ranges_int64 api t ''is_buy'' first limit) (\<lambda>c5.
     and_then (get_ranges_int64 api t ''shares'' first limit) (\<lambda>c6.
     and_then (get_ranges_double api t ''price'' first limit) (\<lambda>c7.
       Inr \<lparr>col_type = c1, col_reference = c2, col_original_reference = c3, col_new_reference = c4,
            col_is_buy = c5, col_shares = c6, col_price = c7\<rparr>)))))))"

definition column_at :: "(timespec \<times> 'a) list \<Rightarrow> nat \<Rightarrow> 'a option" where
  "column_at c i = (if i < length c then Some (snd (c ! i)) else None)"

text \<open>A row with an original reference is asserted to have no reference of its own; a failed assertion is \<open>None\<close>.\<close>

definition order_record_of :: "u64 \<Rightarrow> u64 \<Rightarrow> u64 \<Rightarrow> u64 \<Rightarrow> u64 \<Rightarrow> u64 \<Rightarrow> u64 \<Rightarrow> double \<Rightarrow> order_record option" where
  "order_record_of undef type reference original new is_buy shares price =
     (if original \<noteq> undef \<and> reference \<noteq> undef then None
      else Some \<lparr>rec_reference = (if original \<noteq> undef then original else reference), rec_new_reference = new,
        rec_shares = ucast shares, rec_price = price, rec_order_type = byte_char (ucast type), rec_is_buy = (is_buy \<noteq> 0)\<rparr>)"

definition order_row :: "u64 \<Rightarrow> order_columns \<Rightarrow> nat \<Rightarrow> (timespec \<times> order_record) option" where
  "order_row undef c i = do {
     type \<leftarrow> column_at (col_type c) i;
     reference \<leftarrow> column_at (col_reference c) i;
     original \<leftarrow> column_at (col_original_reference c) i;
     new \<leftarrow> column_at (col_new_reference c) i;
     is_buy \<leftarrow> column_at (col_is_buy c) i;
     shares \<leftarrow> column_at (col_shares c) i;
     price \<leftarrow> column_at (col_price c) i;
     record \<leftarrow> order_record_of undef type reference original new is_buy shares price;
     Some (fst (col_type c ! i), record)
   }"

fun collect_orders :: "u64 \<Rightarrow> order_columns \<Rightarrow> nat list \<Rightarrow> order_records \<Rightarrow> exec_error + order_records" where
  "collect_orders undef c [] result = Inr result"
| "collect_orders undef c (i # is) result =
     (case order_row undef c i of
        None \<Rightarrow> Inl Undefined
      | Some (ts, rec) \<Rightarrow> collect_orders undef c is (emplace_at_end ts rec result))"

definition get_orders_records :: "qdb_api \<Rightarrow> string \<Rightarrow> timespec \<Rightarrow> timespec \<Rightarrow> exec_error + order_records" where
  "get_orders_records api table_name first limit =
     (case get_columns api table_name first limit of
        Inl e \<Rightarrow> Inl e
      | Inr c \<Rightarrow>
          if length (col_type c) \<noteq> length (col_reference c) then Inl (Runtime_Error ''incoherence column count'')
          else collect_orders (int64_undefined api) c [0..<length (col_type c)] [])"

subsection \<open>Snapshots\<close>

definition get_snapshot_timestamp :: "timespec \<Rightarrow> timespec" where
  "get_snapshot_timestamp when = Timespec (ts_sec when - ts_sec when smod 900) 0"

definition make_snapshot_key :: "string \<Rightarrow> timespec \<Rightarrow> string" where
  "make_snapshot_key stock when =
     stock @ ''_orders_snap_'' @ to_iso_extended_string_utc (ts_sec (get_snapshot_timestamp when))"

text \<open>The prefix of the requested day.\<close>

definition snapshot_prefix :: "string \<Rightarrow> timespec \<Rightarrow> exec_error + string" where
  "snapshot_prefix stock when =
     (case extract_date when of
        None \<Rightarrow> Inl Undefined
      | Some requested_day \<Rightarrow> let d = from_day_number requested_day in
          Inr (stock @ ''_orders_snap_'' @ right_align 4 (int_digits (ymd_year d)) @ ''-'' @
            right_align 2 (int_digits (ymd_month d)) @ ''-'' @ right_align 2 (int_digits (ymd_day d)) @ ''T''))"

text \<open>The last of the sorted keys that is not greater, up to the first that is; none is a null pointer.\<close>

fun best_match :: "string \<Rightarrow> string list \<Rightarrow> string option \<Rightarrow> string option" where
  "best_match best_snap_key [] found = found"
| "best_match best_snap_key (r # rs) found =
     (if best_snap_key < r then found else best_match best_snap_key rs (Some r))"

text \<open>What follows the last occurrence of a character: \<open>rfind\<close> and \<open>substr\<close>.\<close>

definition after_last :: "char \<Rightarrow> string \<Rightarrow> string option" where
  "after_last c s = (if c \<in> set s then Some (rev (takeWhile (\<lambda>x. x \<noteq> c) (rev s))) else None)"

definition restore_snapshot ::
  "qdb_api \<Rightarrow> endian \<Rightarrow> engine \<Rightarrow> string \<Rightarrow> timespec \<Rightarrow> (exec_error + timespec) \<times> engine" where
  "restore_snapshot api en e stock when =
     (case snapshot_prefix stock when of
        Inl x \<Rightarrow> (Inl x, e)
      | Inr prefix \<Rightarrow>
     (let (err, results) = prefix_get api prefix 100 in
      if err = e_alias_not_found api then (Inr timespec_zero, e)
      else if qdb_failure api err then (Inl (Runtime_Error ''cannot prefix get''), e)
      else if results = [] then (Inr timespec_zero, e)
      else case best_match (make_snapshot_key stock when) results None of
        None \<Rightarrow> (Inl Null_String, e)
      | Some snap_key \<Rightarrow>
          (case after_last CHR ''_'' snap_key of
             None \<Rightarrow> (Inr timespec_zero, e)
           | Some time \<Rightarrow>
               (case blob_get api snap_key of
                  Inl err \<Rightarrow> (throw_on_failure api err ''cannot get snapshot'' timespec_zero, e)
                | Inr snap_data \<Rightarrow>
                    (case deserialize_state en snap_data e of
                       (False, _, e') \<Rightarrow> (Inr timespec_zero, e')
                     | (True, _, e') \<Rightarrow>
                         (case from_iso_extended_string_utc time of
                            None \<Rightarrow> (Inl Undefined, e')
                          | Some tp \<Rightarrow> if tp = 0 then (Inr timespec_zero, e')
                              else (Inr (timespec_of_seconds (tp sdiv ns_per_s)), e')))))))"

text \<open>The blob written, and whether the client reports a failure.\<close>

definition store_snapshot :: "qdb_api \<Rightarrow> endian \<Rightarrow> engine \<Rightarrow> string \<Rightarrow> timespec \<Rightarrow> exec_error + (string \<times> u8 list)" where
  "store_snapshot api en e stock when =
     (let when = get_snapshot_timestamp when; snap_key = make_snapshot_key stock when in
      case serialize_state en e of
        None \<Rightarrow> Inl Undefined
      | Some serialized_snap \<Rightarrow>
          throw_on_failure api (blob_update api snap_key serialized_snap) ''cannot store snapshot'' (snap_key, serialized_snap))"

subsection \<open>The program\<close>

datatype printed_books = Detailed "book_row printout" | Collapsed "collapsed_row printout"

record exec_result =
  res_engine :: engine
  res_missed :: u64
  res_processed :: nat
  res_stored :: "(string \<times> u8 list) option"
  res_books :: printed_books

definition printed :: "bool \<Rightarrow> engine \<Rightarrow> printed_books option" where
  "printed collapsed e =
     (if collapsed
      then map_option Collapsed (print_collapsed_books (collapse_book (buy_book e)) (collapse_book (sell_book e)))
      else map_option Detailed (print_books (buy_book e) (sell_book e)))"

text \<open>The orders to run and the engine to run them on: from a snapshot, or from the start of the day.\<close>

definition load :: "qdb_api \<Rightarrow> endian \<Rightarrow> config \<Rightarrow> timespec \<Rightarrow> timespec \<Rightarrow>
    exec_error + (timespec \<times> order_records \<times> order_records \<times> engine)" where
  "load api en cfg range_start_ts range_end_ts =
     (case (if cfg_point_in_time cfg then restore_snapshot api en engine_init (cfg_stock cfg) range_end_ts
            else (Inr timespec_zero, engine_init)) of
        (Inl x, _) \<Rightarrow> Inl x
      | (Inr snap_ts, e) \<Rightarrow>
          if snap_ts \<noteq> timespec_zero
          then (case get_orders_records api (cfg_stock cfg @ ''_orders'') snap_ts range_end_ts of
                  Inl x \<Rightarrow> Inl x
                | Inr orders \<Rightarrow> Inr (snap_ts, orders, dropWhile (\<lambda>x. fst x < snap_ts) orders, e))
          else (case get_orders_records api (cfg_stock cfg @ ''_orders'') range_start_ts range_end_ts of
                  Inl x \<Rightarrow> Inl x
                | Inr orders \<Rightarrow> Inr (snap_ts, orders, orders, e)))"

definition nasdaq_exec :: "qdb_api \<Rightarrow> endian \<Rightarrow> config \<Rightarrow> exec_error + exec_result" where
  "nasdaq_exec api en cfg =
     (case get_time_range (cfg_when cfg) of
        Inl x \<Rightarrow> Inl x
      | Inr (range_start_ts, range_end_ts) \<Rightarrow>
     (case load api en cfg range_start_ts range_end_ts of
        Inl x \<Rightarrow> Inl x
      | Inr (snap_ts, orders, to_run, e) \<Rightarrow>
     (case run_orders (map snd to_run) 0 e of
        None \<Rightarrow> Inl Undefined
      | Some (missed_orders, e) \<Rightarrow>
     (case (if cfg_point_in_time cfg \<and> orders \<noteq> [] \<and> snap_ts < get_snapshot_timestamp range_end_ts
            then map_sum id Some (store_snapshot api en e (cfg_stock cfg) range_end_ts) else Inr None) of
        Inl x \<Rightarrow> Inl x
      | Inr stored \<Rightarrow>
     (case printed (cfg_collapsed cfg) e of
        None \<Rightarrow> Inl Undefined
      | Some books \<Rightarrow> Inr \<lparr>res_engine = e, res_missed = missed_orders, res_processed = length orders,
          res_stored = stored, res_books = books\<rparr>)))))"

text \<open>
  \<open>main\<close>: the options, the connection, the run. \<open>None\<close> is the help text; the exit status of the
  process is 1 for a caught exception, and there is none for undefined behaviour.
\<close>

definition nasdaq_main ::
  "qdb_api \<Rightarrow> endian \<Rightarrow> (string \<Rightarrow> int) \<Rightarrow> bool \<Rightarrow> config \<Rightarrow> (exec_error + exec_result) option" where
  "nasdaq_main api en connect help cfg =
     (case check_config help cfg of
        None \<Rightarrow> None
      | Some (Inl x) \<Rightarrow> Some (Inl x)
      | Some (Inr cfg) \<Rightarrow> Some (and_then (throw_on_failure api (connect (cfg_qdb_url cfg)) ''connection error'' ())
            (\<lambda>_. nasdaq_exec api en cfg)))"

fun exit_status :: "(exec_error + exec_result) option \<Rightarrow> nat option" where
  "exit_status None = Some 0"
| "exit_status (Some (Inr _)) = Some 0"
| "exit_status (Some (Inl (Runtime_Error _))) = Some 1"
| "exit_status (Some (Inl Null_String)) = None"
| "exit_status (Some (Inl Undefined)) = None"

subsection \<open>Snapshot keys\<close>

lemma after_last_append: "c \<notin> set u \<Longrightarrow> after_last c (s @ c # u) = Some u"
proof -
  assume "c \<notin> set u"
  then have u: "takeWhile (\<lambda>x. x \<noteq> c) (rev u) = rev u" by (subst takeWhile_eq_all_conv) auto
  show ?thesis by (simp add: after_last_def takeWhile_tail u)
qed

lemma digit_char_not_underscore: "d < 10 \<Longrightarrow> digit_char d \<noteq> CHR ''_''"
  using of_char_digit [of d] by auto

lemma pad_digits_no_underscore: "CHR ''_'' \<notin> set (pad_digits w n)"
  by (induction w arbitrary: n) (simp_all add: digit_char_not_underscore [symmetric])

lemma iso_no_underscore: "CHR ''_'' \<notin> set (iso_fields t)"
  by (simp add: iso_fields_def pad_digits_no_underscore)

lemma key_time:
  assumes "four_digit_year (gmtime (ts_sec (get_snapshot_timestamp when)))"
  shows "after_last CHR ''_'' (make_snapshot_key stock when) =
    Some (to_iso_extended_string_utc (ts_sec (get_snapshot_timestamp when)))"
  using after_last_append [OF iso_no_underscore, of "stock @ ''_orders_snap''"]
  by (simp add: make_snapshot_key_def to_iso_fields [OF assms])

lemma snapshot_timestamp_le: "0 \<le> ts_sec w \<Longrightarrow> normal w \<Longrightarrow>
  get_snapshot_timestamp w \<le> w \<and> ts_sec w < ts_sec (get_snapshot_timestamp w) + 900 \<and> 900 dvd ts_sec (get_snapshot_timestamp w)"
proof -
  assume w: "0 \<le> ts_sec w" "normal w"
  then have "ts_sec w smod 900 = ts_sec w mod 900"
    by (cases "ts_sec w = 0") (simp_all add: signed_modulo_int_eq_modulo_int sgn_if)
  moreover have "0 \<le> ts_sec w mod 900" "ts_sec w mod 900 < 900" by simp_all
  moreover have "900 dvd ts_sec w - ts_sec w mod 900" by (simp add: minus_mod_eq_mult_div)
  ultimately show ?thesis
    using w by (auto simp: get_snapshot_timestamp_def less_eq_timespec_def normal_def)
qed

subsection \<open>Order records\<close>

lemma emplace_at_end_sorted:
  "sorted (map fst res) \<Longrightarrow> \<forall>e\<in>set res. fst e \<le> k \<Longrightarrow> emplace_at_end k v res = res @ [(k, v)]"
  by (simp add: emplace_at_end_def takeWhile_eq_all_conv [THEN iffD2] dropWhile_eq_Nil_conv [THEN iffD2])

lemma emplace_at_end_keeps: "sorted (map fst res) \<Longrightarrow> sorted (map fst (emplace_at_end k v res))"
proof (induction res)
  case (Cons e res)
  then show ?case by (auto simp: emplace_at_end_def dest!: set_takeWhileD set_dropWhileD)
qed (simp add: emplace_at_end_def)

lemma set_emplace_at_end: "mset (emplace_at_end k v res) = add_mset (k, v) (mset res)"
proof -
  let ?P = "\<lambda>e. fst e \<le> k"
  have "mset res = mset (takeWhile ?P res) + mset (dropWhile ?P res)"
    by (simp flip: mset_append)
  then show ?thesis by (simp add: emplace_at_end_def)
qed

lemma collect_orders_sorted:
  "collect_orders undef c is res = Inr res' \<Longrightarrow> sorted (map fst res) \<Longrightarrow> sorted (map fst res')"
  by (induction undef c "is" res rule: collect_orders.induct)
    (auto simp: emplace_at_end_keeps split: option.splits prod.splits)

subsection \<open>A client that answers from a table\<close>

text \<open>
  What the driver relies on in the client, as hypotheses on it. \<open>serves\<close>: a range is half open, and every
  column lists the rows of the range in the order of the table. \<open>answers_blobs\<close>: a query by prefix gives
  the first of the sorted keys that have it, or says that there is none, a stored blob is given back, and
  storing does not fail.
\<close>

record raw_row =
  raw_ts :: timespec
  raw_type :: u64
  raw_reference :: u64
  raw_original :: u64
  raw_new :: u64
  raw_is_buy :: u64
  raw_shares :: u64
  raw_price :: double

definition in_range :: "timespec \<Rightarrow> timespec \<Rightarrow> raw_row \<Rightarrow> bool" where
  "in_range first limit r \<longleftrightarrow> first \<le> raw_ts r \<and> raw_ts r < limit"

definition column :: "(raw_row \<Rightarrow> 'a) \<Rightarrow> raw_row list \<Rightarrow> (timespec \<times> 'a) list" where
  "column f rows = map (\<lambda>r. (raw_ts r, f r)) rows"

definition int64_columns :: "(string \<times> (raw_row \<Rightarrow> u64)) list" where
  "int64_columns = [(''type'', raw_type), (''reference'', raw_reference), (''original_reference'', raw_original),
     (''new_reference'', raw_new), (''is_buy'', raw_is_buy), (''shares'', raw_shares)]"

definition serves :: "qdb_api \<Rightarrow> string \<Rightarrow> raw_row list \<Rightarrow> bool" where
  "serves api table_name rows \<longleftrightarrow> (\<forall>first limit.
     list_all (\<lambda>(name, f). ts_int64_get_ranges api table_name name first limit =
        Inr (column f (filter (in_range first limit) rows))) int64_columns \<and>
     ts_double_get_ranges api table_name ''price'' first limit =
        Inr (column raw_price (filter (in_range first limit) rows)))"

definition answers_blobs :: "qdb_api \<Rightarrow> (string \<times> u8 list) list \<Rightarrow> bool" where
  "answers_blobs api blobs \<longleftrightarrow>
     (\<forall>p n. let ks = take n (filter (\<lambda>k. take (length p) k = p) (sort (map fst blobs))) in
        if ks = [] then fst (prefix_get api p n) = e_alias_not_found api
        else \<exists>err. prefix_get api p n = (err, ks) \<and> err \<noteq> e_alias_not_found api \<and> \<not> qdb_failure api err) \<and>
     (\<forall>k b. map_of blobs k = Some b \<longrightarrow> blob_get api k = Inr b) \<and>
     (\<forall>k b. \<not> qdb_failure api (blob_update api k b))"

text \<open>The record of a row whose reference is in one of its two columns.\<close>

definition row_ok :: "u64 \<Rightarrow> raw_row \<Rightarrow> bool" where
  "row_ok undef r \<longleftrightarrow> raw_original r = undef \<or> raw_reference r = undef"

definition raw_record :: "u64 \<Rightarrow> raw_row \<Rightarrow> order_record" where
  "raw_record undef r =
     \<lparr>rec_reference = (if raw_original r \<noteq> undef then raw_original r else raw_reference r), rec_new_reference = raw_new r,
      rec_shares = ucast (raw_shares r), rec_price = raw_price r, rec_order_type = byte_char (ucast (raw_type r)),
      rec_is_buy = (raw_is_buy r \<noteq> 0)\<rparr>"

definition records_of :: "u64 \<Rightarrow> raw_row list \<Rightarrow> order_records" where
  "records_of undef rows = map (\<lambda>r. (raw_ts r, raw_record undef r)) rows"

definition columns_of :: "raw_row list \<Rightarrow> order_columns" where
  "columns_of rows = \<lparr>col_type = column raw_type rows, col_reference = column raw_reference rows,
     col_original_reference = column raw_original rows, col_new_reference = column raw_new rows,
     col_is_buy = column raw_is_buy rows, col_shares = column raw_shares rows, col_price = column raw_price rows\<rparr>"

lemma column_simps [simp]:
  "length (column f rows) = length rows"
  "i < length rows \<Longrightarrow> column_at (column f rows) i = Some (f (rows ! i))"
  "i < length rows \<Longrightarrow> fst (column f rows ! i) = raw_ts (rows ! i)"
  by (simp_all add: column_def column_at_def)

lemma order_row_columns:
  "i < length rows \<Longrightarrow> order_row undef (columns_of rows) i =
     (if row_ok undef (rows ! i) then Some (raw_ts (rows ! i), raw_record undef (rows ! i)) else None)"
  by (auto simp: order_row_def columns_of_def raw_record_def row_ok_def order_record_of_def)

lemma collect_orders_columns:
  assumes "sorted (map raw_ts rows)" and "k \<le> length rows" and "list_all (row_ok undef) rows"
  shows "collect_orders undef (columns_of rows) [k..<length rows] (records_of undef (take k rows)) =
     Inr (records_of undef rows)"
  using assms(2)
proof (induction "length rows - k" arbitrary: k)
  case 0
  then show ?case by simp
next
  case (Suc n)
  then have k: "k < length rows" by simp
  have "sorted (map fst (records_of undef (take k rows)))"
    using assms(1) by (simp add: records_of_def comp_def flip: take_map)
  moreover have "\<forall>e\<in>set (records_of undef (take k rows)). fst e \<le> raw_ts (rows ! k)"
    using assms(1) k by (auto simp: records_of_def in_set_conv_nth sorted_iff_nth_mono)
  ultimately have "emplace_at_end (raw_ts (rows ! k)) (raw_record undef (rows ! k)) (records_of undef (take k rows)) =
      records_of undef (take (Suc k) rows)"
    using k by (simp add: emplace_at_end_sorted records_of_def take_Suc_conv_app_nth)
  moreover have "row_ok undef (rows ! k)" using k assms(3) by (simp add: list_all_length)
  ultimately show ?case
    using Suc k by (simp add: upt_rec [of k] order_row_columns)
qed

lemma collect_orders_missing_row:
  "\<exists>i\<in>set idxs. order_row undef c i = None \<Longrightarrow> collect_orders undef c idxs res = Inl Undefined"
proof (induction idxs arbitrary: res)
  case (Cons i idxs)
  then show ?case by (cases "order_row undef c i") auto
qed simp

lemma get_orders_served:
  assumes "serves api table_name rows" and "sorted (map raw_ts rows)"
  shows "get_orders_records api table_name first limit =
     (if list_all (row_ok (int64_undefined api)) (filter (in_range first limit) rows)
      then Inr (records_of (int64_undefined api) (filter (in_range first limit) rows)) else Inl Undefined)"
proof -
  let ?rows = "filter (in_range first limit) rows" and ?u = "int64_undefined api"
  have c: "get_columns api table_name first limit = Inr (columns_of ?rows)"
    using assms(1) by (simp add: serves_def int64_columns_def get_columns_def get_ranges_int64_def
        get_ranges_double_def columns_of_def)
  have g: "get_orders_records api table_name first limit = collect_orders ?u (columns_of ?rows) [0..<length ?rows] []"
    by (simp add: get_orders_records_def c) (simp add: columns_of_def)
  show ?thesis
  proof (cases "list_all (row_ok ?u) ?rows")
    case True
    moreover have "sorted (map raw_ts ?rows)" using assms(2) by (rule sorted_filter)
    ultimately show ?thesis using collect_orders_columns [of ?rows 0 ?u] by (simp add: g) (simp add: records_of_def)
  next
    case False
    then obtain i where i: "i < length ?rows" "\<not> row_ok ?u (?rows ! i)" by (auto simp: list_all_length)
    then have "order_row ?u (columns_of ?rows) i = None" by (simp add: order_row_columns)
    then have "\<exists>i\<in>set [0..<length ?rows]. order_row ?u (columns_of ?rows) i = None" using i(1) by auto
    from collect_orders_missing_row [OF this] show ?thesis using False by (simp add: g)
  qed
qed

lemma run_orders_missed:
  "run_orders rs missed e = map_option (\<lambda>(k, e'). (missed + k, e')) (run_orders rs 0 e)"
proof (induction rs arbitrary: missed e)
  case (Cons r rs)
  show ?case
  proof (cases "run_order r e")
    case (Some x)
    obtain b e1 where x: "x = (b, e1)" by fastforce
    show ?thesis
      using Cons.IH [of missed e1] Cons.IH [of "missed + 1" e1] Cons.IH [of 1 e1] Cons.IH [of 0 e1]
      by (cases "run_orders rs 0 e1") (auto simp: Some x)
  qed simp
qed simp

text \<open>A day cut at a time: what runs before it, and what is left.\<close>

lemma in_range_split:
  assumes "sorted (map raw_ts rows)" and "a \<le> b" and "b \<le> (c :: timespec)"
  shows "filter (in_range a c) rows = filter (in_range a b) rows @ filter (in_range b c) rows"
  using assms(1)
proof (induction rows)
  case (Cons r rows)
  have later: "raw_ts r \<le> raw_ts x" if "x \<in> set rows" for x using Cons.prems that by auto
  have IH: "filter (in_range a c) rows = filter (in_range a b) rows @ filter (in_range b c) rows"
    using Cons by simp
  show ?case
  proof (cases "b \<le> raw_ts r")
    case True
    then have "filter (in_range a b) rows = []"
      using later by (auto simp: filter_empty_conv in_range_def not_less intro: order.trans)
    moreover have "in_range a c r = in_range b c r" "\<not> in_range a b r"
      using True assms(2) by (auto simp: in_range_def)
    ultimately show ?thesis by (simp add: IH)
  next
    case False
    then have "in_range a c r = in_range a b r" "\<not> in_range b c r"
      using assms(3) by (auto simp: in_range_def)
    then show ?thesis by (simp add: IH)
  qed
qed simp

text \<open>
  Resuming from the state of the orders before \<open>snap\<close> ends in the state of the whole day.
\<close>

lemma resume_run:
  assumes sorted: "sorted (map raw_ts rows)" and range: "start \<le> snap" "snap \<le> limit"
    and before: "run_orders (map (raw_record undef) (filter (in_range start snap) rows)) 0 e = Some (k, e')"
  shows "map_option snd (run_orders (map (raw_record undef) (filter (in_range snap limit) rows)) 0 e') =
    map_option snd (run_orders (map (raw_record undef) (filter (in_range start limit) rows)) 0 e)"
proof -
  have "run_orders (map (raw_record undef) (filter (in_range start limit) rows)) 0 e =
      run_orders (map (raw_record undef) (filter (in_range snap limit) rows)) k e'"
    unfolding in_range_split [OF sorted range] map_append run_orders_append before by simp
  then show ?thesis
    by (simp add: run_orders_missed [of _ k] option.map_comp comp_def case_prod_unfold)
qed

lemma snd_records_of: "map snd (records_of undef rows) = map (raw_record undef) rows"
  by (simp add: records_of_def)

lemma dropWhile_in_range:
  "dropWhile (\<lambda>x. fst x < snap) (records_of undef (filter (in_range snap limit) rows)) =
    records_of undef (filter (in_range snap limit) rows)"
proof -
  have "\<not> fst x < snap" if "x \<in> set (records_of undef (filter (in_range snap limit) rows))" for x
    using that by (auto simp: records_of_def in_range_def)
  then show ?thesis by (auto simp: dropWhile_eq_self_iff)
qed

lemma nasdaq_exec_engine:
  assumes "nasdaq_exec api en cfg = Inr r" and "get_time_range (cfg_when cfg) = Inr (start, limit)"
    and "load api en cfg start limit = Inr (snap_ts, orders, to_run, e)"
  shows "map_option snd (run_orders (map snd to_run) 0 e) = Some (res_engine r) \<and>
    printed (cfg_collapsed cfg) (res_engine r) = Some (res_books r) \<and> res_processed r = length orders"
  using assms by (auto simp: nasdaq_exec_def split: option.splits sum.splits prod.splits)

lemma filter_range_subset:
  "a \<le> b \<Longrightarrow> list_all P (filter (in_range a c) rows) \<Longrightarrow> list_all P (filter (in_range b c) rows)"
  by (auto simp: list_all_iff in_range_def intro: order.trans)

text \<open>A run that returned has passed the assertion on every row it read.\<close>

lemma loaded_rows:
  assumes "sorted (map raw_ts rows)" and "serves api (cfg_stock cfg @ ''_orders'') rows"
    and "nasdaq_exec api en cfg = Inr r" and "get_time_range (cfg_when cfg) = Inr (start, limit)"
    and "(if cfg_point_in_time cfg then restore_snapshot api en engine_init (cfg_stock cfg) limit else (Inr timespec_zero, engine_init)) =
      (Inr snap, e)"
  shows "load api en cfg start limit = Inr (snap, records_of (int64_undefined api) (filter (in_range (if snap \<noteq> timespec_zero then snap else start) limit) rows),
      records_of (int64_undefined api) (filter (in_range (if snap \<noteq> timespec_zero then snap else start) limit) rows), e)"
  using assms(3-5) by (auto simp: nasdaq_exec_def load_def get_orders_served [OF assms(2,1)] dropWhile_in_range split: if_splits)

lemma nasdaq_exec_resumed:
  assumes sorted: "sorted (map raw_ts rows)" and serves: "serves api (cfg_stock cfg @ ''_orders'') rows"
    and range: "get_time_range (cfg_when cfg) = Inr (start, limit)"
    and restored: "restore_snapshot api en engine_init (cfg_stock cfg) limit = (Inr snap, e)"
    and snap: "snap \<noteq> timespec_zero" "start \<le> snap" "snap \<le> limit"
    and before: "run_orders (map (raw_record (int64_undefined api)) (filter (in_range start snap) rows)) 0 engine_init = Some (k, e)"
    and resumed: "nasdaq_exec api en (cfg\<lparr>cfg_point_in_time := True\<rparr>) = Inr r"
    and whole: "nasdaq_exec api en (cfg\<lparr>cfg_point_in_time := False\<rparr>) = Inr r'"
  shows "res_engine r = res_engine r' \<and> res_books r = res_books r'"
proof -
  let ?u = "int64_undefined api" and ?rows = "\<lambda>a b. filter (in_range a b) rows"
  have range': "get_time_range (cfg_when (cfg\<lparr>cfg_point_in_time := b\<rparr>)) = Inr (start, limit)" for b
    using range by simp
  have l: "load api en (cfg\<lparr>cfg_point_in_time := True\<rparr>) start limit =
      Inr (snap, records_of ?u (?rows snap limit), records_of ?u (?rows snap limit), e)"
    using loaded_rows [OF sorted _ resumed range'] restored serves snap(1) by simp
  have l': "load api en (cfg\<lparr>cfg_point_in_time := False\<rparr>) start limit =
      Inr (timespec_zero, records_of ?u (?rows start limit), records_of ?u (?rows start limit), engine_init)"
    using loaded_rows [OF sorted _ whole range'] serves by simp
  note r = nasdaq_exec_engine [OF resumed range' l] and r' = nasdaq_exec_engine [OF whole range' l']
  have e: "res_engine r = res_engine r'"
    using r [THEN conjunct1, unfolded snd_records_of] r' [THEN conjunct1, unfolded snd_records_of]
      resume_run [OF sorted snap(2,3) before] by (metis option.inject)
  then show ?thesis using r [THEN conjunct2, THEN conjunct1] r' [THEN conjunct2, THEN conjunct1] by simp
qed

end
