(* ===== verification/Nasdaq_Replay.thy ===== *)
theory Nasdaq_Replay imports
  Nasdaq_Exec
begin

section \<open>Nasdaq replay: snapshots between runs\<close>

text \<open>
  What one run of the driver stores and what the next one restores, over a client that keeps a table
  of orders and the stored blobs.
\<close>

subsection \<open>A client over a table and stored blobs\<close>

definition db_api :: "raw_row list \<Rightarrow> (string \<times> u8 list) list \<Rightarrow> qdb_api" where
  "db_api rows blobs =
     \<lparr>ts_int64_get_ranges = (\<lambda>_ name first limit.
         case map_of int64_columns name of None \<Rightarrow> Inl 1
         | Some f \<Rightarrow> Inr (column f (filter (in_range first limit) rows))),
      ts_double_get_ranges = (\<lambda>_ _ first limit. Inr (column raw_price (filter (in_range first limit) rows))),
      prefix_get = (\<lambda>p n. let ks = take n (filter (\<lambda>k. take (length p) k = p) (sort (map fst blobs)))
         in (if ks = [] then 2 else 0, ks)),
      blob_get = (\<lambda>k. case map_of blobs k of None \<Rightarrow> Inl 2 | Some b \<Rightarrow> Inr b),
      blob_update = (\<lambda>_ _. 0), qdb_failure = (\<lambda>e. e \<noteq> 0), e_alias_not_found = 2,
      int64_undefined = 0x8000000000000000\<rparr>"

lemma db_api_answers: "answers_blobs (db_api rows blobs) blobs"
  by (simp add: answers_blobs_def db_api_def Let_def)

lemma db_api_serves: "serves (db_api rows blobs) t rows"
  by (simp add: serves_def db_api_def int64_columns_def)

subsection \<open>What a run stores, and what the next one restores\<close>

lemma ns_roundtrip: "i64 (t * ns_per_s) = Some (t * ns_per_s) \<Longrightarrow> t * ns_per_s sdiv ns_per_s = t"
  by (simp add: ns_per_s_def signed_divide_int_eq_divide_int)

text \<open>Whatever stored key is the best match, its engine and its time come back.\<close>

lemma restore_matched:
  assumes prefix: "snapshot_prefix stock w = Inr p" "prefix_get api p 100 = (err, k # ks)"
    and answer: "err \<noteq> e_alias_not_found api" "\<not> qdb_failure api err"
    and match: "best_match (make_snapshot_key stock w) (k # ks) None = Some (make_snapshot_key stock t)"
    and blob: "blob_get api (make_snapshot_key stock t) = Inr (state_bytes e)"
    and e: "tables_ok e" "small_tables e"
    and time: "first_second \<le> ts_sec (get_snapshot_timestamp t)" "four_digit_year (gmtime (ts_sec (get_snapshot_timestamp t)))"
      "i64 (ts_sec (get_snapshot_timestamp t) * ns_per_s) \<noteq> None" "ts_sec (get_snapshot_timestamp t) \<noteq> 0"
  shows "restore_snapshot api Little_Endian e0 stock w = (Inr (get_snapshot_timestamp t), e)"
proof -
  let ?t = "ts_sec (get_snapshot_timestamp t)"
  have d: "deserialize_state Little_Endian (state_bytes e) e0 = (True, [], e)"
    using deserialize_state_bytes [OF e, of "[]" e0] by simp
  have i: "i64 (?t * ns_per_s) = Some (?t * ns_per_s)" using time(3) by (auto simp: i64_def split: if_splits)
  have "from_iso_extended_string_utc (to_iso_extended_string_utc ?t) = Some (?t * ns_per_s)"
    using iso_roundtrip [OF time(1,2)] i by simp
  moreover have "?t * ns_per_s \<noteq> 0" using time(4) by (simp add: ns_per_s_def)
  moreover have "timespec_of_seconds ?t = get_snapshot_timestamp t"
    by (simp add: timespec_of_seconds_def get_snapshot_timestamp_def)
  ultimately show ?thesis
    using prefix answer blob match
    by (simp add: restore_snapshot_def key_time [OF time(2)] d ns_roundtrip [OF i] del: best_match.simps)
qed

lemma restore_stored:
  assumes prefix: "snapshot_prefix stock w = Inr p" "prefix_get api p 100 = (err, [make_snapshot_key stock w])"
    and answer: "err \<noteq> e_alias_not_found api" "\<not> qdb_failure api err"
    and blob: "blob_get api (make_snapshot_key stock w) = Inr (state_bytes e)"
    and e: "tables_ok e" "small_tables e"
    and time: "first_second \<le> ts_sec (get_snapshot_timestamp w)" "four_digit_year (gmtime (ts_sec (get_snapshot_timestamp w)))"
      "i64 (ts_sec (get_snapshot_timestamp w) * ns_per_s) \<noteq> None" "ts_sec (get_snapshot_timestamp w) \<noteq> 0"
  shows "restore_snapshot api Little_Endian e0 stock w = (Inr (get_snapshot_timestamp w), e)"
  by (rule restore_matched [OF prefix answer _ blob e time]) simp

lemma snapshot_timestamp_idem:
  assumes "0 \<le> ts_sec w" and "normal w"
  shows "get_snapshot_timestamp (get_snapshot_timestamp w) = get_snapshot_timestamp w"
proof -
  have "900 dvd ts_sec (get_snapshot_timestamp w)" using snapshot_timestamp_le [OF assms] by simp
  then have "ts_sec (get_snapshot_timestamp w) smod 900 = 0"
    by (simp add: signed_modulo_int_eq_modulo_int)
  then show ?thesis by (simp add: get_snapshot_timestamp_def [of "get_snapshot_timestamp w"]) (simp add: get_snapshot_timestamp_def)
qed

text \<open>The blob holds every order up to the requested time, its key names the quarter of an hour before.\<close>

lemma nasdaq_exec_stores:
  assumes "nasdaq_exec api en cfg = Inr r" and "get_time_range (cfg_when cfg) = Inr (start, limit)"
    and "res_stored r = Some (k, b)" and "0 \<le> ts_sec limit" "normal limit"
  shows "k = make_snapshot_key (cfg_stock cfg) limit \<and> b = state_bytes (res_engine r)"
proof -
  have idem: "make_snapshot_key s (get_snapshot_timestamp limit) = make_snapshot_key s limit" for s
    using snapshot_timestamp_idem [OF assms(4,5)] by (simp add: make_snapshot_key_def)
  show ?thesis
    using assms(1-3)
    by (auto simp: nasdaq_exec_def store_snapshot_def Let_def serialize_state_bytes throw_on_failure_def idem
        split: option.splits sum.splits prod.splits if_splits)
qed

lemma nasdaq_exec_run:
  assumes "get_time_range (cfg_when cfg) = Inr (start, limit)"
    and "load api en cfg start limit = Inr (snap_ts, orders, to_run, e)"
    and "run_orders (map snd to_run) 0 e = Some (k, e')"
    and "(if cfg_point_in_time cfg \<and> orders \<noteq> [] \<and> snap_ts < get_snapshot_timestamp limit
          then map_sum id Some (store_snapshot api en e' (cfg_stock cfg) limit) else Inr None) = Inr stored"
    and "printed (cfg_collapsed cfg) e' = Some books"
  shows "nasdaq_exec api en cfg = Inr \<lparr>res_engine = e', res_missed = k, res_processed = length orders,
          res_stored = stored, res_books = books\<rparr>"
  using assms by (simp add: nasdaq_exec_def)

subsection \<open>Two runs at the same time\<close>

definition order_at :: "int \<Rightarrow> char \<Rightarrow> u64 \<Rightarrow> u64 \<Rightarrow> double \<Rightarrow> raw_row" where
  "order_at s c reference shares price =
     \<lparr>raw_ts = Timespec s 0, raw_type = ucast (char_byte c), raw_reference = reference,
      raw_original = 0x8000000000000000, raw_new = 0, raw_is_buy = 1, raw_shares = shares, raw_price = price\<rparr>"

definition day_rows :: "raw_row list" where
  "day_rows = [order_at 1546336800 CHR ''A'' 7 100 (Finite 10), order_at 1546338000 CHR ''E'' 7 30 (Finite 0)]"

lemma day_rows_ok: "row_ok 0x8000000000000000 (day_rows ! 1)" "list_all (row_ok 0x8000000000000000) day_rows"
  by code_simp+

definition day_config :: config where
  "day_config = \<lparr>cfg_collapsed = False, cfg_point_in_time = True, cfg_qdb_url = '''', cfg_stock = ''X'',
     cfg_when = ''2019-01-01T10:25:00''\<rparr>"

lemma day_config [simp]:
  "cfg_collapsed day_config = False" "cfg_point_in_time day_config = True" "cfg_stock day_config = ''X''"
  "cfg_when day_config = ''2019-01-01T10:25:00''"
  by (simp_all add: day_config_def)

lemma day_range: "get_time_range ''2019-01-01T10:25:00'' = Inr (Timespec 1546300800 0, Timespec 1546338300 0)"
  by code_simp

definition seventy :: engine where
  "seventy = \<lparr>all_buy_orders = [(7, Order 10000 70)], all_sell_orders = []\<rparr>"

definition forty :: engine where
  "forty = \<lparr>all_buy_orders = [(7, Order 10000 40)], all_sell_orders = []\<rparr>"

lemma first_load: "load (db_api day_rows []) Little_Endian day_config (Timespec 1546300800 0) (Timespec 1546338300 0) =
   Inr (timespec_zero, records_of 0x8000000000000000 day_rows, records_of 0x8000000000000000 day_rows, engine_init)"
  by code_simp

lemma first_orders: "run_orders (map snd (records_of 0x8000000000000000 day_rows)) 0 engine_init = Some (0, seventy)"
  by code_simp

lemma second_orders: "run_orders (map snd (records_of 0x8000000000000000 [day_rows ! 1])) 0 seventy = Some (0, forty)"
  by code_simp

lemma no_sell_rows: "printed False seventy = Some (Detailed No_Rows)" "printed False forty = Some (Detailed No_Rows)"
  by (simp_all add: printed_def print_books_def sell_book_def make_book_def seventy_def forty_def tbl_entries_def)

definition snap_key :: string where
  "snap_key = ''X_orders_snap_2019-01-01T10:15:00Z''"

lemma snap_key: "make_snapshot_key ''X'' (Timespec 1546338300 0) = snap_key"
  by code_simp

lemma floor_time: "get_snapshot_timestamp (Timespec 1546338300 0) = Timespec 1546337700 0"
  by code_simp

lemma first_run:
  "nasdaq_exec (db_api day_rows []) Little_Endian day_config =
     Inr \<lparr>res_engine = seventy, res_missed = 0, res_processed = 2,
          res_stored = Some (snap_key, state_bytes seventy), res_books = Detailed No_Rows\<rparr>"
proof -
  have "length (records_of 0x8000000000000000 day_rows) = 2" by (simp add: records_of_def day_rows_def)
  moreover have "records_of 0x8000000000000000 day_rows \<noteq> []" by (simp add: records_of_def day_rows_def)
  moreover have "timespec_zero < Timespec 1546337700 0" by code_simp
  moreover have "make_snapshot_key ''X'' (Timespec 1546337700 0) = snap_key" by code_simp
  then have "store_snapshot (db_api day_rows []) Little_Endian seventy ''X'' (Timespec 1546338300 0) =
      Inr (snap_key, state_bytes seventy)"
    by (simp add: store_snapshot_def floor_time serialize_state_bytes throw_on_failure_def db_api_def)
  ultimately show ?thesis
    using nasdaq_exec_run [where cfg = day_config, OF _ first_load first_orders, of "Some (snap_key, state_bytes seventy)" "Detailed No_Rows"]
    by (simp add: day_range floor_time no_sell_rows)
qed

definition stored_api :: "engine \<Rightarrow> qdb_api" where
  "stored_api e = db_api day_rows [(snap_key, state_bytes e)]"

lemma stored_restore:
  assumes "tables_ok e" and "small_tables e"
  shows "restore_snapshot (stored_api e) Little_Endian engine_init ''X'' (Timespec 1546338300 0) = (Inr (Timespec 1546337700 0), e)"
proof -
  have p: "snapshot_prefix ''X'' (Timespec 1546338300 0) = Inr ''X_orders_snap_2019-01-01T''" by code_simp
  have "prefix_get (stored_api e) ''X_orders_snap_2019-01-01T'' 100 = (0, [snap_key])"
    by (simp add: stored_api_def db_api_def Let_def snap_key_def)
  moreover have "blob_get (stored_api e) snap_key = Inr (state_bytes e)"
    by (simp add: stored_api_def db_api_def)
  moreover have "e_alias_not_found (stored_api e) = 2" "\<not> qdb_failure (stored_api e) 0"
    by (simp_all add: stored_api_def db_api_def)
  moreover have "first_second \<le> 1546337700" "four_digit_year (gmtime 1546337700)"
    "i64 (1546337700 * ns_per_s) \<noteq> None" by code_simp+
  ultimately show ?thesis
    using restore_stored [of "''X''" "Timespec 1546338300 0" "''X_orders_snap_2019-01-01T''" "stored_api e" 0 e engine_init] p assms
    unfolding snap_key floor_time by simp
qed

lemma stored_load:
  assumes "tables_ok e" and "small_tables e"
  shows "load (stored_api e) Little_Endian day_config (Timespec 1546300800 0) (Timespec 1546338300 0) =
      Inr (Timespec 1546337700 0, records_of 0x8000000000000000 [day_rows ! 1], records_of 0x8000000000000000 [day_rows ! 1], e)"
proof -
  have rows: "sorted (map raw_ts day_rows)" by code_simp
  have late: "filter (in_range (Timespec 1546337700 0) (Timespec 1546338300 0)) day_rows = [day_rows ! 1]" by code_simp
  have "get_orders_records (stored_api e) ''X_orders'' (Timespec 1546337700 0) (Timespec 1546338300 0) =
      Inr (records_of 0x8000000000000000 [day_rows ! 1])"
    using get_orders_served [OF db_api_serves rows, of _ "''X_orders''" "Timespec 1546337700 0" "Timespec 1546338300 0"] late day_rows_ok
    by (simp add: stored_api_def) (simp add: db_api_def)
  moreover have "Timespec 1546337700 0 \<noteq> timespec_zero" by code_simp
  moreover have "dropWhile (\<lambda>x. fst x < Timespec 1546337700 0) (records_of 0x8000000000000000 [day_rows ! 1]) =
      records_of 0x8000000000000000 [day_rows ! 1]"
    using dropWhile_in_range [of "Timespec 1546337700 0" _ "Timespec 1546338300 0" day_rows] late by simp
  ultimately show ?thesis
    by (simp add: load_def stored_restore [OF assms])
qed

text \<open>A run on a stored engine: the execution after the quarter of an hour, and no new snapshot.\<close>

lemma stored_run:
  assumes "tables_ok e" and "small_tables e"
    and "run_orders (map snd (records_of 0x8000000000000000 [day_rows ! 1])) 0 e = Some (0, e')"
    and "all_sell_orders e' = []"
  shows "nasdaq_exec (stored_api e) Little_Endian day_config =
     Inr \<lparr>res_engine = e', res_missed = 0, res_processed = 1, res_stored = None, res_books = Detailed No_Rows\<rparr>"
proof -
  have "printed False e' = Some (Detailed No_Rows)"
    using assms(4) by (simp add: printed_def print_books_def sell_book_def make_book_def tbl_entries_def)
  then show ?thesis
    using nasdaq_exec_run [where cfg = day_config, OF _ stored_load [OF assms(1,2)] assms(3), of None "Detailed No_Rows"]
    by (simp add: day_range floor_time records_of_def)
qed

definition hundred :: engine where
  "hundred = \<lparr>all_buy_orders = [(7, Order 10000 100)], all_sell_orders = []\<rparr>"

lemma sample_engines_ok: "tables_ok seventy" "small_tables seventy" "tables_ok hundred" "small_tables hundred"
  by (simp_all add: seventy_def hundred_def tables_ok_def tbl_ok_def small_tables_def)

lemma second_run:
  "nasdaq_exec (stored_api seventy) Little_Endian day_config =
     Inr \<lparr>res_engine = forty, res_missed = 0, res_processed = 1, res_stored = None, res_books = Detailed No_Rows\<rparr>"
  using stored_run [OF sample_engines_ok(1,2) second_orders] by (simp add: forty_def)

lemma hundred_orders:
  "run_orders (map snd (records_of 0x8000000000000000 [day_rows ! 1])) 0 hundred = Some (0, seventy)"
  "run_orders (map (raw_record 0x8000000000000000)
     (filter (in_range (Timespec 1546300800 0) (Timespec 1546337700 0)) day_rows)) 0 engine_init = Some (0, hundred)"
  by code_simp+

lemma resumed_run:
  "nasdaq_exec (stored_api hundred) Little_Endian day_config =
     Inr \<lparr>res_engine = seventy, res_missed = 0, res_processed = 1, res_stored = None, res_books = Detailed No_Rows\<rparr>"
  using stored_run [OF sample_engines_ok(3,4) hundred_orders(1)] by (simp add: seventy_def)

lemma whole_day_run:
  "nasdaq_exec (stored_api e) Little_Endian (day_config\<lparr>cfg_point_in_time := False\<rparr>) =
     Inr \<lparr>res_engine = seventy, res_missed = 0, res_processed = 2, res_stored = None, res_books = Detailed No_Rows\<rparr>"
proof -
  have rows: "sorted (map raw_ts day_rows)" by code_simp
  have all: "filter (in_range (Timespec 1546300800 0) (Timespec 1546338300 0)) day_rows = day_rows" by code_simp
  have "get_orders_records (stored_api e) ''X_orders'' (Timespec 1546300800 0) (Timespec 1546338300 0) =
      Inr (records_of 0x8000000000000000 day_rows)"
    using get_orders_served [OF db_api_serves rows, of _ "''X_orders''" "Timespec 1546300800 0" "Timespec 1546338300 0"] all day_rows_ok
    by (simp add: stored_api_def) (simp add: db_api_def)
  then have "load (stored_api e) Little_Endian (day_config\<lparr>cfg_point_in_time := False\<rparr>) (Timespec 1546300800 0) (Timespec 1546338300 0) =
      Inr (timespec_zero, records_of 0x8000000000000000 day_rows, records_of 0x8000000000000000 day_rows, engine_init)"
    by (simp add: load_def)
  then show ?thesis
    using nasdaq_exec_run [where cfg = "day_config\<lparr>cfg_point_in_time := False\<rparr>", OF _ _ first_orders, where api = "stored_api e" and en = Little_Endian and stored = None and books = "Detailed No_Rows"]
    by (simp add: day_range no_sell_rows records_of_def day_rows_def)
qed

end
