(* ===== verification/Nasdaq_Properties.thy ===== *)
theory Nasdaq_Properties imports
  Nasdaq_Replay
begin

section \<open>Nasdaq properties: what a run of the driver guarantees\<close>

text \<open>
  The theorems on \<open>nasdaq_exec.cpp\<close> as a whole: which snapshot a run restores, what it reads from the
  database, when resuming equals a run over the whole day, and where it does not.
\<close>

subsection \<open>The printed books do not depend on the layout of a hash table\<close>

lemma printed_same:
  assumes "same_engine e e'"
  shows "printed collapsed e = printed collapsed e'"
proof -
  have "buy_book e = buy_book e'" "sell_book e = sell_book e'"
    using assms by (auto simp: same_engine_def same_table_iff_mset buy_book_def sell_book_def intro: make_book_permutation)
  then show ?thesis by (simp add: printed_def)
qed

text \<open>C8: Two engines with the same entries, in whatever order their hash tables are visited, print the same
  books after running the same records, and miss the same number of them.\<close>

theorem run_and_print_same:
  assumes "same_engine e e'" and "run_orders rs missed e = Some (k, e1)"
  shows "\<exists>e1'. run_orders rs missed e' = Some (k, e1') \<and> printed collapsed e1' = printed collapsed e1"
proof -
  have "rel_option (rel_prod (=) same_engine) (Some (k, e1)) (run_orders rs missed e')"
    using run_orders_same [OF assms(1), of rs missed] by (simp add: assms(2))
  then obtain e1' where e: "run_orders rs missed e' = Some (k, e1')" "same_engine e1 e1'"
    by (auto simp: option_rel_Some1)
  then show ?thesis using printed_same [OF e(2)] by auto
qed

theorem run_and_print_same_witness:
  "\<exists>e1'. run_orders [add_record] 0 \<lparr>all_buy_orders = [(2, Order 20 1), (1, Order 10 1)], all_sell_orders = [(3, Order 30 5)]\<rparr> =
       Some (0, e1') \<and>
     printed True e1' = printed True
       \<lparr>all_buy_orders = [(1, Order 10 1), (2, Order 20 1), (7, Order 10000 100)], all_sell_orders = [(3, Order 30 5)]\<rparr>"
proof -
  let ?e = "\<lparr>all_buy_orders = [(1, Order 10 1), (2, Order 20 1)], all_sell_orders = [(3, Order 30 5)]\<rparr>"
  have "same_engine ?e \<lparr>all_buy_orders = [(2, Order 20 1), (1, Order 10 1)], all_sell_orders = [(3, Order 30 5)]\<rparr>"
    by (simp add: same_engine_def same_table_iff_mset tbl_ok_def)
  moreover have "run_orders [add_record] 0 ?e = Some (0, \<lparr>all_buy_orders =
      [(1, Order 10 1), (2, Order 20 1), (7, Order 10000 100)], all_sell_orders = [(3, Order 30 5)]\<rparr>)"
    by code_simp
  ultimately show ?thesis by (rule run_and_print_same)
qed

subsection \<open>Which snapshot is restored\<close>

lemma best_match_takeWhile:
  "best_match k rs found = (case takeWhile (\<lambda>r. r \<le> k) rs of [] \<Rightarrow> found | us \<Rightarrow> Some (List.last us))"
proof (induction rs arbitrary: found)
  case (Cons r rs)
  then show ?case by (cases "takeWhile (\<lambda>r. r \<le> k) rs") (auto simp: not_less [symmetric])
qed simp

definition snapshot_time :: "timespec \<Rightarrow> bool" where
  "snapshot_time t \<longleftrightarrow> normal t \<and> 0 \<le> ts_sec t \<and> ts_sec t < utc_seconds 10000 1 1 0 0 0"

lemma snapshot_time_floor:
  assumes "snapshot_time t"
  shows "first_second \<le> ts_sec (get_snapshot_timestamp t) \<and> four_digit_year (gmtime (ts_sec (get_snapshot_timestamp t)))"
proof (rule four_digit_year_range)
  have b: "get_snapshot_timestamp t \<le> t" "ts_sec t < ts_sec (get_snapshot_timestamp t) + 900"
    "900 dvd ts_sec (get_snapshot_timestamp t)" "0 \<le> ts_sec t" "normal t"
    using snapshot_timestamp_le [of t] assms by (simp_all add: snapshot_time_def)
  obtain k where k: "ts_sec (get_snapshot_timestamp t) = 900 * k" using b(3) by blast
  have "0 < ts_sec (get_snapshot_timestamp t) + 900" using b(2,4) by (rule le_less_trans [rotated])
  then have "0 < 900 * (k + 1)" by (simp add: k)
  then have "0 \<le> ts_sec (get_snapshot_timestamp t)" using k by simp
  moreover have "utc_seconds 0 1 1 0 0 0 \<le> 0" by code_simp
  ultimately show "utc_seconds 0 1 1 0 0 0 \<le> ts_sec (get_snapshot_timestamp t)" by linarith
  have "ts_sec (get_snapshot_timestamp t) \<le> ts_sec t" using b(1) by (auto simp: less_eq_timespec_def)
  then show "ts_sec (get_snapshot_timestamp t) < utc_seconds 10000 1 1 0 0 0" using assms by (simp add: snapshot_time_def)
qed

lemma floor_le_iff_sec: "get_snapshot_timestamp t \<le> get_snapshot_timestamp w \<longleftrightarrow>
    ts_sec (get_snapshot_timestamp t) \<le> ts_sec (get_snapshot_timestamp w)"
  by (auto simp: get_snapshot_timestamp_def less_eq_timespec_def)

lemma key_le_iff:
  assumes "snapshot_time t" and "snapshot_time w"
  shows "make_snapshot_key stock t \<le> make_snapshot_key stock w \<longleftrightarrow> get_snapshot_timestamp t \<le> get_snapshot_timestamp w"
proof -
  have "make_snapshot_key stock w < make_snapshot_key stock t \<longleftrightarrow>
      ts_sec (get_snapshot_timestamp w) < ts_sec (get_snapshot_timestamp t)"
    using snapshot_time_floor [OF assms(1)] snapshot_time_floor [OF assms(2)]
    by (simp add: make_snapshot_key_def append_less_iff to_iso_less)
  then show ?thesis unfolding floor_le_iff_sec by (metis not_less)
qed

text \<open>C25: Among stored snapshots listed from the oldest, the restored one is the last that is not later
  than the requested time, rounded down to a quarter of an hour: the text order of the keys is the order of
  the times.\<close>

theorem restores_latest_snapshot:
  assumes "list_all snapshot_time ts" and "snapshot_time w"
    and "sorted (map get_snapshot_timestamp ts)"
  shows "best_match (make_snapshot_key stock w) (map (make_snapshot_key stock) ts) None =
    (case filter (\<lambda>t. get_snapshot_timestamp t \<le> get_snapshot_timestamp w) ts of
       [] \<Rightarrow> None | us \<Rightarrow> Some (make_snapshot_key stock (List.last us)))"
proof -
  have "takeWhile (\<lambda>t. get_snapshot_timestamp t \<le> get_snapshot_timestamp w) ts =
      filter (\<lambda>t. get_snapshot_timestamp t \<le> get_snapshot_timestamp w) ts"
    using assms(3)
  proof (induction ts)
    case (Cons t ts)
    show ?case
    proof (cases "get_snapshot_timestamp t \<le> get_snapshot_timestamp w")
      case True
      then show ?thesis using Cons by simp
    next
      case False
      then have "filter (\<lambda>t. get_snapshot_timestamp t \<le> get_snapshot_timestamp w) ts = []"
        using Cons.prems by (auto simp: filter_empty_conv dest: order.trans)
      then show ?thesis using False by simp
    qed
  qed simp
  moreover have "takeWhile (\<lambda>r. r \<le> make_snapshot_key stock w) (map (make_snapshot_key stock) ts) =
      map (make_snapshot_key stock) (takeWhile (\<lambda>t. get_snapshot_timestamp t \<le> get_snapshot_timestamp w) ts)"
    using assms(1) by (induction ts) (simp_all add: key_le_iff [OF _ assms(2)])
  ultimately show ?thesis
    by (simp add: best_match_takeWhile last_map split: list.splits)
qed

theorem restores_latest_snapshot_witness:
  "best_match (make_snapshot_key ''X'' (Timespec 2000 5))
     (map (make_snapshot_key ''X'') [Timespec 900 0, Timespec 1800 0, Timespec 2700 0]) None =
   Some (make_snapshot_key ''X'' (Timespec 1800 0))"
proof -
  have t: "list_all snapshot_time [Timespec 900 0, Timespec 1800 0, Timespec 2700 0]" "snapshot_time (Timespec 2000 5)"
    "sorted (map get_snapshot_timestamp [Timespec 900 0, Timespec 1800 0, Timespec 2700 0])" by code_simp+
  have "filter (\<lambda>t. get_snapshot_timestamp t \<le> get_snapshot_timestamp (Timespec 2000 5))
      [Timespec 900 0, Timespec 1800 0, Timespec 2700 0] = [Timespec 900 0, Timespec 1800 0]" by code_simp
  then show ?thesis using restores_latest_snapshot [OF t, of "''X''"] by simp
qed

subsection \<open>The requested time\<close>

text \<open>A time point counts nanoseconds in 64 bits, so its year is always one the date library accepts.\<close>

lemma time_point_day:
  assumes "i64 (t * ns_per_s) = Some x"
  shows "library_day (day_of (timespec_of_seconds t))"
proof -
  have "- (2 ^ 63) \<le> t * ns_per_s" "t * ns_per_s < 2 ^ 63" using assms by (simp_all add: i64_def split: if_splits)
  then have "- 9223372037 \<le> t" "t \<le> 9223372036" by (simp_all add: ns_per_s_def)
  then have "- 106752 \<le> t div 86400" "t div 86400 \<le> 106751" by linarith+
  then show ?thesis by (simp add: library_day_bounds day_of_def timespec_of_seconds_def epoch_date_value)
qed

text \<open>C26: The requested time is read back from its ISO text as the end of the range, and the range starts at
  midnight of that day; the very start of 1970 alone is refused as invalid, because the reader reports a
  text it cannot parse as that time.\<close>

theorem time_range_of_text:
  assumes "0 \<le> t" and "t < utc_seconds 10000 1 1 0 0 0" and "i64 (t * ns_per_s) \<noteq> None"
  shows "get_time_range (to_iso_extended_string_utc t) =
    (if t = 0 then Inl (Runtime_Error ''invalid time'') else Inr (Timespec (t - t mod 86400) 0, Timespec t 0))"
proof -
  have "utc_seconds 0 1 1 0 0 0 \<le> 0" by code_simp
  then have r: "first_second \<le> t \<and> four_digit_year (gmtime t)"
    using assms(1,2) by (intro four_digit_year_range) linarith+
  have i: "i64 (t * ns_per_s) = Some (t * ns_per_s)" using assms(3) by (auto simp: i64_def split: if_splits)
  have p: "from_iso_extended_string_utc (to_iso_extended_string_utc t) = Some (t * ns_per_s)"
    using r i iso_roundtrip by simp
  have d: "t * ns_per_s sdiv ns_per_s = t"
    using assms(1) by (cases "t = 0") (simp_all add: ns_per_s_def signed_divide_int_eq_divide_int)
  have z: "t * ns_per_s = 0 \<longleftrightarrow> t = 0" by (simp add: ns_per_s_def)
  have day: "extract_date (timespec_of_seconds t) = Some (epoch_date + t div 86400)"
    using extract_date_eq [of "timespec_of_seconds t"] time_point_day [OF i] by (simp add: day_of_def timespec_of_seconds_def)
  have m: "make_timespec (epoch_date + t div 86400) = Timespec (t - t mod 86400) 0"
    by (simp add: make_timespec_def timespec_of_seconds_def extract_seconds_def minus_mod_eq_div_mult)
  show ?thesis
    unfolding get_time_range_def p option.case z Let_def d day m by (simp add: timespec_of_seconds_def)
qed

theorem time_range_of_text_witness:
  "get_time_range (to_iso_extended_string_utc 1546338300) = Inr (Timespec 1546300800 0, Timespec 1546338300 0)"
proof -
  have "1546338300 < utc_seconds 10000 1 1 0 0 0" "i64 (1546338300 * ns_per_s) \<noteq> None" by code_simp+
  then show ?thesis using time_range_of_text [of 1546338300] by simp
qed

subsection \<open>Columns of unequal lengths\<close>

text \<open>Only the type and the reference column are compared: when any of the other five columns has fewer
  rows than the type column, the loop reads beyond the end of that column.\<close>

theorem short_column_read_beyond_end:
  assumes "get_columns api t first limit = Inr c" and "length (col_reference c) = length (col_type c)"
    and "\<exists>n\<in>{length (col_original_reference c), length (col_new_reference c), length (col_is_buy c),
        length (col_shares c), length (col_price c)}. n < length (col_type c)"
  shows "get_orders_records api t first limit = Inl Undefined"
proof -
  obtain n where n: "n < length (col_type c)" "n \<in> {length (col_original_reference c), length (col_new_reference c),
      length (col_is_buy c), length (col_shares c), length (col_price c)}" using assms(3) by blast
  then have "order_row (int64_undefined api) c n = None"
    using assms(2) by (auto simp: order_row_def column_at_def bind_eq_None_conv)
  then have "\<exists>i\<in>set [0..<length (col_type c)]. order_row (int64_undefined api) c i = None" using n by auto
  from collect_orders_missing_row [OF this] show ?thesis
    by (simp add: get_orders_records_def assms(1,2))
qed

definition short_api :: qdb_api where
  "short_api = (db_api day_rows [])\<lparr>ts_double_get_ranges := \<lambda>_ _ _ _. Inr []\<rparr>"

theorem short_column_read_beyond_end_witness:
  "get_orders_records short_api ''X_orders'' (Timespec 1546300800 0) (Timespec 1546338300 0) = Inl Undefined"
proof -
  let ?c = "(columns_of day_rows)\<lparr>col_price := []\<rparr>"
  have late: "filter (in_range (Timespec 1546300800 0) (Timespec 1546338300 0)) day_rows = day_rows" by code_simp
  have c: "get_columns short_api ''X_orders'' (Timespec 1546300800 0) (Timespec 1546338300 0) = Inr ?c"
    by (simp add: get_columns_def get_ranges_int64_def get_ranges_double_def short_api_def db_api_def int64_columns_def
        late columns_of_def)
  show ?thesis
    by (rule short_column_read_beyond_end [OF c]) (simp_all add: columns_of_def day_rows_def)
qed

subsection \<open>Before the first snapshot of the day\<close>

text \<open>When the day has snapshots but all of them are later than the requested time, no key matches and a
  string is built from a null pointer; the check for a missing match comes only after it.\<close>

theorem no_earlier_snapshot:
  assumes "snapshot_prefix stock w = Inr p" and "prefix_get api p 100 = (err, k # ks)"
    and "err \<noteq> e_alias_not_found api" and "\<not> qdb_failure api err" and "make_snapshot_key stock w < k"
  shows "restore_snapshot api en e stock w = (Inl Null_String, e)"
  using assms by (simp add: restore_snapshot_def)

theorem no_earlier_snapshot_witness:
  "restore_snapshot (stored_api seventy) Little_Endian engine_init ''X'' (Timespec 1546336800 0) = (Inl Null_String, engine_init)"
proof -
  have p: "snapshot_prefix ''X'' (Timespec 1546336800 0) = Inr ''X_orders_snap_2019-01-01T''" by code_simp
  have g: "prefix_get (stored_api seventy) ''X_orders_snap_2019-01-01T'' 100 = (0, [snap_key])"
    by (simp add: stored_api_def db_api_def Let_def snap_key_def)
  have "make_snapshot_key ''X'' (Timespec 1546336800 0) < snap_key" unfolding snap_key_def by code_simp
  then show ?thesis
    using no_earlier_snapshot [OF p g] by (simp add: stored_api_def db_api_def)
qed

subsection \<open>Resuming\<close>

text \<open>C9: When the restored snapshot is the engine after the orders of the day before its time, running from
  the snapshot ends in the engine and prints the books of a run over the whole day.\<close>

theorem resuming_equals_the_whole_day:
  assumes "sorted (map raw_ts rows)" and "serves api (cfg_stock cfg @ ''_orders'') rows"
    and "get_time_range (cfg_when cfg) = Inr (start, limit)"
    and "restore_snapshot api en engine_init (cfg_stock cfg) limit = (Inr snap, e)"
    and "snap \<noteq> timespec_zero" and "start \<le> snap" and "snap \<le> limit"
    and "run_orders (map (raw_record (int64_undefined api)) (filter (in_range start snap) rows)) 0 engine_init = Some (k, e)"
    and "nasdaq_exec api en (cfg\<lparr>cfg_point_in_time := True\<rparr>) = Inr r"
    and "nasdaq_exec api en (cfg\<lparr>cfg_point_in_time := False\<rparr>) = Inr r'"
  shows "res_engine r = res_engine r' \<and> res_books r = res_books r'"
  using nasdaq_exec_resumed [OF assms(1-3) assms(4) assms(5-7) assms(8-10)] .

theorem resuming_equals_the_whole_day_witness:
  "\<exists>r r'. nasdaq_exec (stored_api hundred) Little_Endian day_config = Inr r \<and>
     nasdaq_exec (stored_api hundred) Little_Endian (day_config\<lparr>cfg_point_in_time := False\<rparr>) = Inr r' \<and>
     res_processed r = 1 \<and> res_processed r' = 2 \<and> res_engine r = res_engine r' \<and> res_books r = res_books r'"
proof -
  have rows: "sorted (map raw_ts day_rows)" by code_simp
  have u: "int64_undefined (stored_api hundred) = 0x8000000000000000" by (simp add: stored_api_def db_api_def)
  have t: "Timespec 1546337700 0 \<noteq> timespec_zero" "Timespec 1546300800 0 \<le> Timespec 1546337700 0"
    "Timespec 1546337700 0 \<le> Timespec 1546338300 0" by code_simp+
  have c: "day_config\<lparr>cfg_point_in_time := True\<rparr> = day_config" by (simp add: day_config_def)
  show ?thesis
    using resuming_equals_the_whole_day [where cfg = day_config and api = "stored_api hundred", OF rows _ _ _ t hundred_orders(2) [folded u]]
      db_api_serves [of day_rows] day_range stored_restore [OF sample_engines_ok(3,4)] resumed_run whole_day_run [of hundred]
    by (simp add: c)
qed

subsection \<open>Two runs at the same time of day\<close>

text \<open>A snapshot holds the orders up to the requested time, but its key is rounded down to the quarter of
  an hour, and the next run applies the orders from there once more: over the same two orders a first run
  leaves 70 shares, and the same run again, from the snapshot the first has stored, 40.\<close>

theorem second_run_differs:
  "\<exists>r k b r'. nasdaq_exec (db_api day_rows []) Little_Endian day_config = Inr r \<and> res_stored r = Some (k, b) \<and>
     nasdaq_exec (db_api day_rows [(k, b)]) Little_Endian day_config = Inr r' \<and>
     all_buy_orders (res_engine r) = [(7, Order 10000 70)] \<and> all_buy_orders (res_engine r') = [(7, Order 10000 40)]"
  using first_run second_run by (simp add: stored_api_def seventy_def forty_def)

end
