(* ===== verification/Nasdaq_Snapshots.thy ===== *)
theory Nasdaq_Snapshots imports
  Nasdaq_Properties
begin

section \<open>Nasdaq snapshots: what one run leaves to the next\<close>

text \<open>
  Two runs of the driver over the same table of orders: the first stores a snapshot, the second finds it
  by the prefix of the day, restores it and goes on. The theorems hold for every table and every time
  from 1970 that a request can name; the ways a stored snapshot goes wrong are stated on whole runs.
\<close>

subsection \<open>The key of a snapshot and the prefix of its day\<close>

lemma quarter_floor: "0 \<le> s \<Longrightarrow> s - s smod 900 = 900 * (s div (900 :: int))"
  by (cases "s = 0") (simp_all add: signed_modulo_int_eq_modulo_int sgn_if minus_mod_eq_mult_div)

lemma floor_same_day:
  assumes "0 \<le> s"
  shows "(s - s smod 900) div 86400 = s div (86400 :: int)"
proof -
  have "(s - s smod 900) div 86400 = 900 * (s div 900) div (900 * 96)" by (simp add: quarter_floor [OF assms])
  also have "\<dots> = s div 900 div 96" by (simp only: div_mult_mult1 [of "900 :: int"])
  also have "\<dots> = s div 86400" by (simp flip: zdiv_zmult2_eq)
  finally show ?thesis .
qed

lemma floor_between: "0 \<le> ts_sec w \<Longrightarrow> 0 \<le> ts_sec (get_snapshot_timestamp w) \<and> ts_sec (get_snapshot_timestamp w) \<le> ts_sec w"
  by (simp add: get_snapshot_timestamp_def quarter_floor pos_imp_zdiv_nonneg_iff)

lemma floor_day: "0 \<le> ts_sec w \<Longrightarrow> day_of (get_snapshot_timestamp w) = day_of w"
  by (simp add: day_of_def get_snapshot_timestamp_def floor_same_day)

lemma snapshot_prefix_day:
  assumes "library_day (day_of w)"
  shows "snapshot_prefix stock w = (let d = from_day_number (day_of w) in
    Inr (stock @ ''_orders_snap_'' @ right_align 4 (int_digits (ymd_year d)) @ ''-'' @
      right_align 2 (int_digits (ymd_month d)) @ ''-'' @ right_align 2 (int_digits (ymd_day d)) @ ''T''))"
  by (simp add: snapshot_prefix_def extract_date_eq [OF assms])

lemma key_has_prefix:
  assumes "0 \<le> ts_sec w" and "library_day (day_of w)" and "snapshot_prefix stock w = Inr p"
  shows "\<exists>t. make_snapshot_key stock w = p @ t"
proof -
  have d: "epoch_date + ts_sec (get_snapshot_timestamp w) div 86400 = day_of w"
    using floor_day [OF assms(1)] by (simp add: day_of_def)
  show ?thesis
    using assms(3)
    by (auto simp: snapshot_prefix_day [OF assms(2)] make_snapshot_key_def to_iso_extended_string_utc_def gmtime_def Let_def d)
qed

lemma get_time_range_limit:
  assumes "get_time_range when = Inr (start, limit)" and "0 \<le> ts_sec limit"
  shows "start = make_timespec (day_of limit) \<and> snapshot_time limit \<and> ts_sec limit * ns_per_s < 2 ^ 63 \<and>
    library_day (day_of limit)"
proof -
  obtain tp where tp: "from_iso_extended_string_utc when = Some tp" "limit = timespec_of_seconds (tp sdiv ns_per_s)"
    "extract_date limit \<noteq> None" "start = make_timespec (the (extract_date limit))"
    using assms(1) by (auto simp: get_time_range_def Let_def split: option.splits if_splits)
  have r: "- (2 ^ 63) \<le> tp" "tp < 2 ^ 63"
    using tp(1) by (auto simp: from_iso_extended_string_utc_def from_time_t_def i64_def split: option.splits if_splits)
  have s: "ts_sec limit = tp sdiv ns_per_s" by (simp add: tp(2) timespec_of_seconds_def)
  have b: "ts_sec limit \<le> 9223372036"
  proof (cases "0 \<le> tp")
    case True
    then have "ts_sec limit \<le> (2 ^ 63 - 1) div ns_per_s"
      unfolding s sdiv_ns [OF True] using r(2) by (intro zdiv_mono1) (simp_all add: ns_per_s_def)
    then show ?thesis by (simp add: ns_per_s_def)
  next
    case False
    then have "ts_sec limit \<le> 0"
      unfolding s by (simp add: signed_divide_int_def ns_per_s_def)
    then show ?thesis by simp
  qed
  have "9223372036 < utc_seconds 10000 1 1 0 0 0" by code_simp
  moreover have "normal limit" by (simp add: tp(2) timespec_of_seconds_def normal_def ns_per_s_def)
  ultimately have l: "snapshot_time limit" using b assms(2) by (simp add: snapshot_time_def)
  have ns: "ts_sec limit * ns_per_s < 2 ^ 63" using b by (simp add: ns_per_s_def)
  have "i64 (ts_sec limit * ns_per_s) = Some (ts_sec limit * ns_per_s)" using ns assms(2) by (intro i64_Some) (simp_all add: ns_per_s_def)
  from time_point_day [OF this] have d: "library_day (day_of limit)"
    by (simp add: day_of_def timespec_of_seconds_def)
  show ?thesis using tp(4) extract_date_eq [OF d] l ns d by simp
qed

lemma prefix_of_range:
  assumes "get_time_range when = Inr (start, limit)"
  shows "\<exists>p. snapshot_prefix stock limit = Inr p"
proof -
  have "extract_date limit \<noteq> None"
    using assms by (auto simp: get_time_range_def Let_def split: option.splits if_splits)
  then show ?thesis by (auto simp: snapshot_prefix_def Let_def)
qed

lemma restore_none:
  assumes "answers_blobs api []"
  shows "restore_snapshot api en e stock w = (case snapshot_prefix stock w of Inl x \<Rightarrow> (Inl x, e) | Inr p \<Rightarrow> (Inr timespec_zero, e))"
proof -
  have "fst (prefix_get api p 100) = e_alias_not_found api" for p using assms by (simp add: answers_blobs_def Let_def)
  then show ?thesis by (simp add: restore_snapshot_def case_prod_unfold Let_def split: sum.splits)
qed

text \<open>What a client answers that has the snapshot of the requested time only.\<close>

lemma get_own_snapshot:
  assumes blobs: "answers_blobs api [(make_snapshot_key stock limit, data)]"
    and range: "get_time_range when = Inr (start, limit)" "0 \<le> ts_sec limit"
    and prefix: "snapshot_prefix stock limit = Inr p"
  shows "\<exists>err. prefix_get api p 100 = (err, [make_snapshot_key stock limit]) \<and> err \<noteq> e_alias_not_found api \<and>
    \<not> qdb_failure api err \<and> blob_get api (make_snapshot_key stock limit) = Inr data"
proof -
  have "library_day (day_of limit)" using get_time_range_limit [OF range] by blast
  then obtain t where t: "make_snapshot_key stock limit = p @ t" using key_has_prefix [OF range(2) _ prefix] by blast
  have "let ks = take 100 (filter (\<lambda>k. take (length p) k = p) (sort (map fst [(make_snapshot_key stock limit, data)]))) in
      if ks = [] then fst (prefix_get api p 100) = e_alias_not_found api
      else \<exists>err. prefix_get api p 100 = (err, ks) \<and> err \<noteq> e_alias_not_found api \<and> \<not> qdb_failure api err"
    using blobs unfolding answers_blobs_def by blast
  then have "\<exists>err. prefix_get api p 100 = (err, [make_snapshot_key stock limit]) \<and> err \<noteq> e_alias_not_found api \<and> \<not> qdb_failure api err"
    by (simp add: t Let_def)
  moreover have "blob_get api (make_snapshot_key stock limit) = Inr data" using blobs by (simp add: answers_blobs_def)
  ultimately show ?thesis by blast
qed

lemma restore_own_snapshot:
  assumes blobs: "answers_blobs api [(make_snapshot_key stock limit, state_bytes e)]"
    and range: "get_time_range when = Inr (start, limit)" and pos: "0 \<le> ts_sec limit"
    and prefix: "snapshot_prefix stock limit = Inr p" and e: "tables_ok e" "small_tables e"
    and nz: "get_snapshot_timestamp limit \<noteq> timespec_zero"
  shows "restore_snapshot api Little_Endian e0 stock limit = (Inr (get_snapshot_timestamp limit), e)"
proof -
  let ?f = "get_snapshot_timestamp limit"
  have l: "snapshot_time limit" "ts_sec limit * ns_per_s < 2 ^ 63" using get_time_range_limit [OF range pos] by auto
  obtain err where got: "prefix_get api p 100 = (err, [make_snapshot_key stock limit])" "err \<noteq> e_alias_not_found api"
    "\<not> qdb_failure api err" "blob_get api (make_snapshot_key stock limit) = Inr (state_bytes e)"
    using get_own_snapshot [OF blobs range pos prefix] by blast
  have "ts_sec ?f \<noteq> 0" using nz by (auto simp: get_snapshot_timestamp_def timespec_zero_def)
  moreover have "i64 (ts_sec ?f * ns_per_s) \<noteq> None"
  proof -
    have "0 \<le> ts_sec ?f" "ts_sec ?f \<le> ts_sec limit" using floor_between [OF pos] by simp_all
    then have "0 \<le> ts_sec ?f * ns_per_s" "ts_sec ?f * ns_per_s \<le> ts_sec limit * ns_per_s"
      by (simp_all add: ns_per_s_def)
    then show ?thesis using l(2) by (simp add: i64_def)
  qed
  ultimately show ?thesis
    using restore_stored [OF prefix got e] snapshot_time_floor [OF l(1)] by blast
qed

lemma all_along_any: "all_along (\<lambda>_ _. True) rs e"
  by (induction rs arbitrary: e) (auto split: option.splits)

subsection \<open>A second run from the snapshot of the first\<close>

text \<open>C10: A snapshot holds the orders up to the requested time, but its key is rounded down to the quarter of an
  hour. So on a little-endian host, with any client that answers from a table of orders and from its blobs,
  when a run from no snapshot and the same run made again from the snapshot the first has stored both
  return, the second finds it by the prefix of the day and ends in the engine after the whole day and then,
  once more, the orders from the quarter of an hour on; when there are none, it ends and prints as the first
  run did.\<close>

theorem second_run_repeats_the_quarter:
  assumes sorted: "sorted (map raw_ts rows)" and point: "cfg_point_in_time cfg"
    and range: "get_time_range (cfg_when cfg) = Inr (start, limit)" "0 \<le> ts_sec limit"
    and client: "serves api (cfg_stock cfg @ ''_orders'') rows" "answers_blobs api []"
    and first: "nasdaq_exec api Little_Endian cfg = Inr r" "res_stored r = Some (k, b)"
    and small: "small_tables (res_engine r)"
    and client': "serves api' (cfg_stock cfg @ ''_orders'') rows" "answers_blobs api' [(k, b)]" "int64_undefined api' = int64_undefined api"
    and second: "nasdaq_exec api' Little_Endian cfg = Inr r'"
  shows "map_option snd (run_orders (map (raw_record (int64_undefined api))
      (filter (in_range start limit) rows @ filter (in_range (get_snapshot_timestamp limit) limit) rows)) 0 engine_init) =
      Some (res_engine r') \<and>
    (filter (in_range (get_snapshot_timestamp limit) limit) rows = [] \<longrightarrow> res_engine r' = res_engine r \<and> res_books r' = res_books r)"
proof -
  let ?u = "int64_undefined api" and ?f = "get_snapshot_timestamp limit"
  let ?day = "filter (in_range start limit) rows" and ?late = "filter (in_range (get_snapshot_timestamp limit) limit) rows"
  have l: "snapshot_time limit" using get_time_range_limit [OF range] by blast
  then have normal: "normal limit" by (simp add: snapshot_time_def)
  obtain p where p: "snapshot_prefix (cfg_stock cfg) limit = Inr p" using prefix_of_range [OF range(1)] by blast
  have l1: "load api Little_Endian cfg start limit = Inr (timespec_zero, records_of ?u ?day, records_of ?u ?day, engine_init)"
    using loaded_rows [OF sorted client(1) first(1) range(1), of timespec_zero engine_init]
    by (simp add: restore_none [OF client(2)] p point)
  note r = nasdaq_exec_engine [OF first(1) range(1) l1, unfolded snd_records_of]
  have run1: "map_option snd (run_orders (map (raw_record ?u) ?day) 0 engine_init) = Some (res_engine r)" using r by blast
  have kb: "k = make_snapshot_key (cfg_stock cfg) limit" "b = state_bytes (res_engine r)"
    using nasdaq_exec_stores [OF first(1) range(1) first(2) range(2) normal] by auto
  have nz: "?f \<noteq> timespec_zero"
    using first range(1) l1 by (auto simp: nasdaq_exec_def split: if_splits option.splits sum.splits)
  obtain m where m: "run_orders (map (raw_record ?u) ?day) 0 engine_init = Some (m, res_engine r)" using run1 by auto
  have ok: "tables_ok (res_engine r)"
    using tables.run_keeps [OF _ all_along_any m] by (simp add: tables_ok_def engine_init_def)
  have restored: "restore_snapshot api' Little_Endian engine_init (cfg_stock cfg) limit = (Inr ?f, res_engine r)"
    using restore_own_snapshot [OF client'(2) [unfolded kb] range p ok small nz] .
  have l2: "load api' Little_Endian cfg start limit = Inr (?f, records_of ?u ?late, records_of ?u ?late, res_engine r)"
    using loaded_rows [OF sorted client'(1) second range(1), of ?f "res_engine r"] restored nz point client'(3) by simp
  note r' = nasdaq_exec_engine [OF second range(1) l2, unfolded snd_records_of]
  have "map_option snd (run_orders (map (raw_record ?u) (?day @ ?late)) 0 engine_init) = Some (res_engine r')"
    using r' m by (simp add: run_orders_append run_orders_missed [of _ m] option.map_comp comp_def case_prod_unfold)
  moreover have "res_engine r' = res_engine r \<and> res_books r' = res_books r" if "?late = []"
    using r r' that by simp
  ultimately show ?thesis by blast
qed

theorem second_run_repeats_the_quarter_witness:
  "\<exists>r r'. nasdaq_exec (db_api day_rows []) Little_Endian day_config = Inr r \<and>
     nasdaq_exec (stored_api seventy) Little_Endian day_config = Inr r' \<and>
     map_option snd (run_orders (map (raw_record 0x8000000000000000) (day_rows @ [day_rows ! 1])) 0 engine_init) = Some (res_engine r') \<and>
     all_buy_orders (res_engine r) = [(7, Order 10000 70)] \<and> all_buy_orders (res_engine r') = [(7, Order 10000 40)]"
proof -
  have sorted: "sorted (map raw_ts day_rows)" by code_simp
  have day: "filter (in_range (Timespec 1546300800 0) (Timespec 1546338300 0)) day_rows = day_rows"
    "filter (in_range (Timespec 1546337700 0) (Timespec 1546338300 0)) day_rows = [day_rows ! 1]" by code_simp+
  have u: "int64_undefined (db_api rows blobs) = 0x8000000000000000" for rows blobs by (simp add: db_api_def)
  note quarter = second_run_repeats_the_quarter [OF sorted _ _ _ db_api_serves db_api_answers first_run _ _ db_api_serves
      db_api_answers _ second_run [unfolded stored_api_def]]
  show ?thesis
    using quarter first_run second_run sample_engines_ok(2) day_range
    by (simp add: floor_time day u forty_def [symmetric]) (simp add: seventy_def forty_def)
qed

subsection \<open>A snapshot that cannot be read\<close>






end
