(* ===== verification/Nasdaq_Market.thy ===== *)
theory Nasdaq_Market imports
  Nasdaq_Snapshots
begin

section \<open>Nasdaq market: a run gives the market of the day\<close>

text \<open>
  The refinement from end to end: over any client that serves a table of orders and has no snapshot, a run
  of the driver returns, and its engine is the market that the events of the rows of the day make of an
  empty one. With the theorems of \<open>Nasdaq_Snapshots\<close> this is what a run from a snapshot is compared with.
\<close>

subsection \<open>Printing is total\<close>

lemma collapsed_rows_total: "\<exists>rows. those (map (collapsed_row_of the_max) es) = Some rows"
  by (induction es) (simp_all add: collapsed_row_of_def build_bar_exact)

lemma printed_total: "\<exists>books. printed collapsed e = Some books"
proof -
  obtain f where "\<And>the_max es. those (map (collapsed_row_of the_max) es) = Some (f the_max es)"
    using collapsed_rows_total by metis
  then show ?thesis
    by (simp add: printed_def print_books_def print_collapsed_books_def book_rows_with Let_def)
qed

subsection \<open>The run\<close>

text \<open>C1: Over every client that serves a table of orders sorted by time, has no snapshot and stores without
  failing, and for every request whose time can be read, on a host of either byte order: when every row of
  the day has its reference in one column only, prices convert and references are new, the run returns,
  prints the books of its engine, and that engine is the abstract market after the events of the day in
  their order, with the missed ones counted.\<close>

theorem run_gives_the_market_of_the_day:
  assumes sorted: "sorted (map raw_ts rows)" and serves: "serves api (cfg_stock cfg @ ''_orders'') rows" "answers_blobs api []"
    and range: "get_time_range (cfg_when cfg) = Inr (start, limit)"
    and rows: "list_all (row_ok (int64_undefined api)) (filter (in_range start limit) rows)"
    and flow: "admissible_flow (map (event_of \<circ> raw_record (int64_undefined api)) (filter (in_range start limit) rows)) Map.empty"
  shows "\<exists>r. nasdaq_exec api en cfg = Inr r \<and>
    market_run (map (event_of \<circ> raw_record (int64_undefined api)) (filter (in_range start limit) rows)) 0 Map.empty =
      (res_missed r, live (res_engine r)) \<and>
    res_processed r = length (filter (in_range start limit) rows) \<and> engine_ok (res_engine r) \<and>
    Some (res_books r) = printed (cfg_collapsed cfg) (res_engine r)"
proof -
  let ?day = "filter (in_range start limit) rows" and ?u = "int64_undefined api"
  obtain p where p: "snapshot_prefix (cfg_stock cfg) limit = Inr p" using prefix_of_range [OF range] by blast
  have none: "restore_snapshot api en engine_init (cfg_stock cfg) limit = (Inr timespec_zero, engine_init)"
    by (simp add: restore_none [OF serves(2)] p)
  have load: "load api en cfg start limit = Inr (timespec_zero, records_of ?u ?day, records_of ?u ?day, engine_init)"
    by (simp add: load_def none get_orders_served [OF serves(1) sorted] rows)
  have ev: "map event_of (map snd (records_of ?u ?day)) = map (event_of \<circ> raw_record ?u) ?day"
    by (simp add: records_of_def)
  obtain e where e: "run_orders (map snd (records_of ?u ?day)) 0 engine_init =
      Some (fst (market_run (map (event_of \<circ> raw_record ?u) ?day) 0 Map.empty), e)" "engine_ok e"
    "live e = snd (market_run (map (event_of \<circ> raw_record ?u) ?day) 0 Map.empty)"
    using run_refines [OF engine_init_ok, of "map snd (records_of ?u ?day)" 0] flow unfolding ev by auto
  obtain books where books: "printed (cfg_collapsed cfg) e = Some books" using printed_total by blast
  have "\<exists>stored. (if cfg_point_in_time cfg \<and> records_of ?u ?day \<noteq> [] \<and> timespec_zero < get_snapshot_timestamp limit
      then map_sum id Some (store_snapshot api en e (cfg_stock cfg) limit) else Inr None) = Inr stored"
    using serves(2) by (simp add: store_snapshot_def serialize_state_bytes throw_on_failure_def answers_blobs_def Let_def)
  then obtain stored where stored: "(if cfg_point_in_time cfg \<and> records_of ?u ?day \<noteq> [] \<and> timespec_zero < get_snapshot_timestamp limit
      then map_sum id Some (store_snapshot api en e (cfg_stock cfg) limit) else Inr None) = Inr stored" by blast
  show ?thesis
    using nasdaq_exec_run [OF range load e(1) stored books] e books by (simp add: records_of_def)
qed

theorem run_gives_the_market_of_the_day_witness:
  "\<exists>r. nasdaq_exec (db_api day_rows []) Big_Endian day_config = Inr r \<and> res_missed r = 0 \<and> res_processed r = 2 \<and>
     live (res_engine r) 7 = Some (True, Order 10000 70)"
proof -
  have sorted: "sorted (map raw_ts day_rows)" by code_simp
  have day: "filter (in_range (Timespec 1546300800 0) (Timespec 1546338300 0)) day_rows = day_rows" by code_simp
  have u: "int64_undefined (db_api day_rows []) = 0x8000000000000000" by (simp add: db_api_def)
  have flow: "admissible_flow (map (event_of \<circ> raw_record 0x8000000000000000) day_rows) Map.empty"
    "fst (market_run (map (event_of \<circ> raw_record 0x8000000000000000) day_rows) 0 Map.empty) = 0"
    "snd (market_run (map (event_of \<circ> raw_record 0x8000000000000000) day_rows) 0 Map.empty) 7 = Some (True, Order 10000 70)"
    by code_simp+
  have len: "length day_rows = 2" by (simp add: day_rows_def)
  show ?thesis
    using run_gives_the_market_of_the_day [where cfg = day_config and start = "Timespec 1546300800 0" and limit = "Timespec 1546338300 0",
      OF sorted db_api_serves db_api_answers, of Big_Endian] flow day_rows_ok
    by (auto simp: day_range day u len)
qed

end
