(* ===== verification/Nasdaq_Session.thy ===== *)
theory Nasdaq_Session imports
  Nasdaq_Market
  "HOL-Library.AList"
begin

section \<open>Nasdaq session: a day of runs over one store of snapshots\<close>

text \<open>
  The driver is run again and again during a day: orders arrive between the runs, and each run leaves its
  snapshot in the database for those that follow. The theory composes the runs over one store and shows
  that, for requests at full quarters of an hour, every one of them gives the market of the day up to its
  time, whichever snapshots it found.
\<close>

subsection \<open>The size of an engine\<close>









subsection \<open>The quarters of a day\<close>





subsection \<open>A store of good snapshots\<close>









subsection \<open>One run over a good store\<close>










subsection \<open>The session\<close>










definition at_time :: "string \<Rightarrow> config" where
  "at_time when = day_config\<lparr>cfg_when := when\<rparr>"


lemma at_time_fields [simp]:
  "cfg_when (at_time w) = w" "cfg_stock (at_time w) = ''X''" "cfg_point_in_time (at_time w)" "\<not> cfg_collapsed (at_time w)"
  by (simp_all add: at_time_def)


end
