(* ===== verification/Itch_Messages.thy ===== *)
theory Itch_Messages imports
  Itch_Tags
  Bytes
  Doubles
begin

section \<open>ITCH messages: the records and their decoders\<close>

text \<open>
  The data members and the \<open>decode\<close> functions of the message structs of
  \<open>src/src/nasdaq_exec/itch_messages.hpp\<close>. A decoder returns the flag the source returns, the message
  object and the bytes left; its \<open>None\<close> is a read outside the buffer, which the layout lemmas exclude.
  When the buffer is shorter than the message, the object keeps the zeros its construction gave it
  (\<open>m.emplace<x>()\<close> value-initialises it) and the cursor does not move. Each layout lemma states the
  wire format of one message: which bytes of the buffer each member is read from.
\<close>

subsection \<open>Primitive decoders\<close>

definition unchecked_decode_char :: "u8 list \<Rightarrow> (char \<times> u8 list) option" where
  "unchecked_decode_char bs = do {
     (b, bs) \<leftarrow> read_bytes 1 bs;
     Some (byte_char (hd b), bs)
   }"

text \<open>
  \<open>std::tolower\<close> in the C and the UTF-8 locales: the upper case ASCII letters, every other byte
  unchanged.
\<close>

definition tolower_byte :: "u8 \<Rightarrow> u8" where
  "tolower_byte b = (if 65 \<le> b \<and> b \<le> 90 then b + 32 else b)"

definition lower_string :: "u8 list \<Rightarrow> string" where
  "lower_string bs = map (\<lambda>b. byte_char (tolower_byte b)) bs"

definition unchecked_decode_string_to_lower :: "nat \<Rightarrow> u8 list \<Rightarrow> (string \<times> u8 list) option" where
  "unchecked_decode_string_to_lower expected bs = do {
     (b, bs) \<leftarrow> read_bytes expected bs;
     Some (lower_string b, bs)
   }"

definition unchecked_decode_integer :: "endian \<Rightarrow> u8 list \<Rightarrow> ('a::len word \<times> u8 list) option" where
  "unchecked_decode_integer en bs = do {
     (b, bs) \<leftarrow> read_bytes (byte_size TYPE('a)) bs;
     Some (big_to_native en (load_native en b), bs)
   }"

text \<open>\<open>nasdaq_price<Decimals>\<close>: a 32-bit integer over a power of ten.\<close>

fun compute_den :: "double \<Rightarrow> nat \<Rightarrow> double" where
  "compute_den base exponent = (if exponent \<le> 1 then base else dbl_mul base (compute_den base (exponent - 1)))"

definition price_value :: "nat \<Rightarrow> u32 \<Rightarrow> double" where
  "price_value decimals v = dbl_div (dbl_of_int (uint v)) (compute_den (to_double 10) decimals)"

definition price_unchecked_decode :: "endian \<Rightarrow> nat \<Rightarrow> u8 list \<Rightarrow> (double \<times> u8 list) option" where
  "price_unchecked_decode en decimals bs = do {
     (v, bs) \<leftarrow> unchecked_decode_integer en bs;
     Some (price_value decimals v, bs)
   }"

text \<open>
  \<open>nasdaq_timestamp\<close>: six bytes copied over the start of a zero \<open>uint64_t\<close>, shifted left by 16 bits
  and converted from big-endian, then read as a signed count of nanoseconds.
\<close>

definition timestamp_value :: "endian \<Rightarrow> u8 list \<Rightarrow> int" where
  "timestamp_value en b =
     (let v = load_native en (b @ replicate (8 - timestamp_stored_size) 0) :: u64
      in sint (big_to_native en (push_bit 16 v)))"

definition timestamp_unchecked_decode :: "endian \<Rightarrow> u8 list \<Rightarrow> (int \<times> u8 list) option" where
  "timestamp_unchecked_decode en bs = do {
     (b, bs) \<leftarrow> read_bytes timestamp_stored_size bs;
     Some (timestamp_value en b, bs)
   }"

text \<open>\<open>view_on_nasdaq_str\<close>: the characters of a padded field before its first space.\<close>

definition view_on_nasdaq_str :: "string \<Rightarrow> string" where
  "view_on_nasdaq_str a = takeWhile (\<lambda>c. c \<noteq> CHR '' '') a"

subsection \<open>The messages\<close>

record stock_directory =
  sdr_stock_locate :: u16
  sdr_tracking_number :: u16
  sdr_nanoseconds :: int
  sdr_stock :: string
  sdr_market_category :: char
  sdr_financial_status :: char
  sdr_round_lot_size :: u32
  sdr_round_lots_only :: char
  sdr_issue_classification :: char
  sdr_issue_sub_type :: string
  sdr_authenticity :: char
  sdr_short_sale_threshold_indicator :: char
  sdr_ipo_flag :: char
  sdr_luld_reference_price_tier :: char
  sdr_etp_flag :: char
  sdr_etp_leverage_factor :: u32
  sdr_inverse_indicator :: char

record add_order_without_attribution =
  awo_stock_locate :: u16
  awo_tracking_number :: u16
  awo_nanoseconds :: int
  awo_reference_number :: u64
  awo_buy_sell :: char
  awo_shares :: u32
  awo_stock :: string
  awo_price :: double

record add_order_with_attribution =
  awa_stock_locate :: u16
  awa_tracking_number :: u16
  awa_nanoseconds :: int
  awa_reference_number :: u64
  awa_buy_sell :: char
  awa_shares :: u32
  awa_stock :: string
  awa_price :: double
  awa_attribution :: string

record order_executed =
  oex_stock_locate :: u16
  oex_tracking_number :: u16
  oex_nanoseconds :: int
  oex_reference_number :: u64
  oex_executed_shares :: u32
  oex_match_number :: u64

record order_executed_with_price =
  oep_stock_locate :: u16
  oep_tracking_number :: u16
  oep_nanoseconds :: int
  oep_reference_number :: u64
  oep_executed_shares :: u32
  oep_match_number :: u64
  oep_printable :: char
  oep_execution_price :: double

record order_cancel =
  ocx_stock_locate :: u16
  ocx_tracking_number :: u16
  ocx_nanoseconds :: int
  ocx_reference_number :: u64
  ocx_cancelled_shares :: u32

record order_delete =
  odl_stock_locate :: u16
  odl_tracking_number :: u16
  odl_nanoseconds :: int
  odl_reference_number :: u64

record order_replace =
  orp_stock_locate :: u16
  orp_tracking_number :: u16
  orp_nanoseconds :: int
  orp_original_reference_number :: u64
  orp_new_reference_number :: u64
  orp_shares :: u32
  orp_price :: double

record trade_non_cross =
  tnc_stock_locate :: u16
  tnc_tracking_number :: u16
  tnc_nanoseconds :: int
  tnc_order_reference_number :: u64
  tnc_buy_sell :: char
  tnc_shares :: u32
  tnc_stock :: string
  tnc_price :: double
  tnc_match_number :: u64

record trade_cross =
  tcr_stock_locate :: u16
  tcr_tracking_number :: u16
  tcr_nanoseconds :: int
  tcr_shares :: u64
  tcr_stock :: string
  tcr_cross_price :: double
  tcr_match_number :: u64
  tcr_cross_type :: char

record broken_trade_order =
  btr_stock_locate :: u16
  btr_tracking_number :: u16
  btr_nanoseconds :: int
  btr_match_number :: u64

subsection \<open>Value-initialised objects and decoders\<close>

type_synonym 'm decoder = "u8 list \<Rightarrow> (bool \<times> 'm \<times> u8 list) option"

definition stock_directory_init :: stock_directory where
  "stock_directory_init =
     \<lparr>sdr_stock_locate = 0, sdr_tracking_number = 0, sdr_nanoseconds = 0,
      sdr_stock = replicate 8 (CHR 0x00), sdr_market_category = CHR 0x00,
      sdr_financial_status = CHR 0x00, sdr_round_lot_size = 0, sdr_round_lots_only = CHR 0x00,
      sdr_issue_classification = CHR 0x00, sdr_issue_sub_type = replicate 2 (CHR 0x00),
      sdr_authenticity = CHR 0x00, sdr_short_sale_threshold_indicator = CHR 0x00,
      sdr_ipo_flag = CHR 0x00, sdr_luld_reference_price_tier = CHR 0x00,
      sdr_etp_flag = CHR 0x00, sdr_etp_leverage_factor = 0, sdr_inverse_indicator = CHR 0x00\<rparr>"

definition add_order_without_attribution_init :: add_order_without_attribution where
  "add_order_without_attribution_init =
     \<lparr>awo_stock_locate = 0, awo_tracking_number = 0, awo_nanoseconds = 0,
      awo_reference_number = 0, awo_buy_sell = CHR 0x00, awo_shares = 0,
      awo_stock = replicate 8 (CHR 0x00), awo_price = Finite 0\<rparr>"

definition add_order_with_attribution_init :: add_order_with_attribution where
  "add_order_with_attribution_init =
     \<lparr>awa_stock_locate = 0, awa_tracking_number = 0, awa_nanoseconds = 0,
      awa_reference_number = 0, awa_buy_sell = CHR 0x00, awa_shares = 0,
      awa_stock = replicate 8 (CHR 0x00), awa_price = Finite 0,
      awa_attribution = replicate 4 (CHR 0x00)\<rparr>"

definition order_executed_init :: order_executed where
  "order_executed_init =
     \<lparr>oex_stock_locate = 0, oex_tracking_number = 0, oex_nanoseconds = 0,
      oex_reference_number = 0, oex_executed_shares = 0, oex_match_number = 0\<rparr>"

definition order_executed_with_price_init :: order_executed_with_price where
  "order_executed_with_price_init =
     \<lparr>oep_stock_locate = 0, oep_tracking_number = 0, oep_nanoseconds = 0,
      oep_reference_number = 0, oep_executed_shares = 0, oep_match_number = 0,
      oep_printable = CHR 0x00, oep_execution_price = Finite 0\<rparr>"

definition order_cancel_init :: order_cancel where
  "order_cancel_init =
     \<lparr>ocx_stock_locate = 0, ocx_tracking_number = 0, ocx_nanoseconds = 0,
      ocx_reference_number = 0, ocx_cancelled_shares = 0\<rparr>"

definition order_delete_init :: order_delete where
  "order_delete_init =
     \<lparr>odl_stock_locate = 0, odl_tracking_number = 0, odl_nanoseconds = 0,
      odl_reference_number = 0\<rparr>"

definition order_replace_init :: order_replace where
  "order_replace_init =
     \<lparr>orp_stock_locate = 0, orp_tracking_number = 0, orp_nanoseconds = 0,
      orp_original_reference_number = 0, orp_new_reference_number = 0, orp_shares = 0,
      orp_price = Finite 0\<rparr>"

definition trade_non_cross_init :: trade_non_cross where
  "trade_non_cross_init =
     \<lparr>tnc_stock_locate = 0, tnc_tracking_number = 0, tnc_nanoseconds = 0,
      tnc_order_reference_number = 0, tnc_buy_sell = CHR 0x00, tnc_shares = 0,
      tnc_stock = replicate 8 (CHR 0x00), tnc_price = Finite 0, tnc_match_number = 0\<rparr>"

definition trade_cross_init :: trade_cross where
  "trade_cross_init =
     \<lparr>tcr_stock_locate = 0, tcr_tracking_number = 0, tcr_nanoseconds = 0, tcr_shares = 0,
      tcr_stock = replicate 8 (CHR 0x00), tcr_cross_price = Finite 0, tcr_match_number = 0,
      tcr_cross_type = CHR 0x00\<rparr>"

definition broken_trade_order_init :: broken_trade_order where
  "broken_trade_order_init =
     \<lparr>btr_stock_locate = 0, btr_tracking_number = 0, btr_nanoseconds = 0, btr_match_number = 0\<rparr>"

definition decode_stock_directory :: "endian \<Rightarrow> stock_directory decoder" where
  "decode_stock_directory en bs =
     (if length bs < mi_size stock_directory then Some (False, stock_directory_init, bs)
      else do {
        (_, bs) \<leftarrow> read_bytes 1 bs;
        (stock_locate, bs) \<leftarrow> unchecked_decode_integer en bs;
        (tracking_number, bs) \<leftarrow> unchecked_decode_integer en bs;
        (nanoseconds, bs) \<leftarrow> timestamp_unchecked_decode en bs;
        (stock, bs) \<leftarrow> unchecked_decode_string_to_lower 8 bs;
        (market_category, bs) \<leftarrow> unchecked_decode_char bs;
        (financial_status, bs) \<leftarrow> unchecked_decode_char bs;
        (round_lot_size, bs) \<leftarrow> unchecked_decode_integer en bs;
        (round_lots_only, bs) \<leftarrow> unchecked_decode_char bs;
        (issue_classification, bs) \<leftarrow> unchecked_decode_char bs;
        (issue_sub_type, bs) \<leftarrow> unchecked_decode_string_to_lower 2 bs;
        (authenticity, bs) \<leftarrow> unchecked_decode_char bs;
        (short_sale_threshold_indicator, bs) \<leftarrow> unchecked_decode_char bs;
        (ipo_flag, bs) \<leftarrow> unchecked_decode_char bs;
        (luld_reference_price_tier, bs) \<leftarrow> unchecked_decode_char bs;
        (etp_flag, bs) \<leftarrow> unchecked_decode_char bs;
        (etp_leverage_factor, bs) \<leftarrow> unchecked_decode_integer en bs;
        (inverse_indicator, bs) \<leftarrow> unchecked_decode_char bs;
        Some (True, \<lparr>sdr_stock_locate = stock_locate, sdr_tracking_number = tracking_number,
          sdr_nanoseconds = nanoseconds, sdr_stock = stock,
          sdr_market_category = market_category, sdr_financial_status = financial_status,
          sdr_round_lot_size = round_lot_size, sdr_round_lots_only = round_lots_only,
          sdr_issue_classification = issue_classification, sdr_issue_sub_type = issue_sub_type,
          sdr_authenticity = authenticity,
          sdr_short_sale_threshold_indicator = short_sale_threshold_indicator,
          sdr_ipo_flag = ipo_flag, sdr_luld_reference_price_tier = luld_reference_price_tier,
          sdr_etp_flag = etp_flag, sdr_etp_leverage_factor = etp_leverage_factor,
          sdr_inverse_indicator = inverse_indicator\<rparr>, bs)
      })"

definition decode_add_order_without_attribution :: "endian \<Rightarrow> add_order_without_attribution decoder" where
  "decode_add_order_without_attribution en bs =
     (if length bs < mi_size add_order_without_attribution then Some (False, add_order_without_attribution_init, bs)
      else do {
        (_, bs) \<leftarrow> read_bytes 1 bs;
        (stock_locate, bs) \<leftarrow> unchecked_decode_integer en bs;
        (tracking_number, bs) \<leftarrow> unchecked_decode_integer en bs;
        (nanoseconds, bs) \<leftarrow> timestamp_unchecked_decode en bs;
        (reference_number, bs) \<leftarrow> unchecked_decode_integer en bs;
        (buy_sell, bs) \<leftarrow> unchecked_decode_char bs;
        (shares, bs) \<leftarrow> unchecked_decode_integer en bs;
        (stock, bs) \<leftarrow> unchecked_decode_string_to_lower 8 bs;
        (price, bs) \<leftarrow> price_unchecked_decode en 4 bs;
        Some (True, \<lparr>awo_stock_locate = stock_locate, awo_tracking_number = tracking_number,
          awo_nanoseconds = nanoseconds, awo_reference_number = reference_number,
          awo_buy_sell = buy_sell, awo_shares = shares, awo_stock = stock, awo_price = price\<rparr>, bs)
      })"

definition decode_add_order_with_attribution :: "endian \<Rightarrow> add_order_with_attribution decoder" where
  "decode_add_order_with_attribution en bs =
     (if length bs < mi_size add_order_with_attribution then Some (False, add_order_with_attribution_init, bs)
      else do {
        (_, bs) \<leftarrow> read_bytes 1 bs;
        (stock_locate, bs) \<leftarrow> unchecked_decode_integer en bs;
        (tracking_number, bs) \<leftarrow> unchecked_decode_integer en bs;
        (nanoseconds, bs) \<leftarrow> timestamp_unchecked_decode en bs;
        (reference_number, bs) \<leftarrow> unchecked_decode_integer en bs;
        (buy_sell, bs) \<leftarrow> unchecked_decode_char bs;
        (shares, bs) \<leftarrow> unchecked_decode_integer en bs;
        (stock, bs) \<leftarrow> unchecked_decode_string_to_lower 8 bs;
        (price, bs) \<leftarrow> price_unchecked_decode en 4 bs;
        (attribution, bs) \<leftarrow> unchecked_decode_string_to_lower 4 bs;
        Some (True, \<lparr>awa_stock_locate = stock_locate, awa_tracking_number = tracking_number,
          awa_nanoseconds = nanoseconds, awa_reference_number = reference_number,
          awa_buy_sell = buy_sell, awa_shares = shares, awa_stock = stock, awa_price = price,
          awa_attribution = attribution\<rparr>, bs)
      })"

definition decode_order_executed :: "endian \<Rightarrow> order_executed decoder" where
  "decode_order_executed en bs =
     (if length bs < mi_size order_executed then Some (False, order_executed_init, bs)
      else do {
        (_, bs) \<leftarrow> read_bytes 1 bs;
        (stock_locate, bs) \<leftarrow> unchecked_decode_integer en bs;
        (tracking_number, bs) \<leftarrow> unchecked_decode_integer en bs;
        (nanoseconds, bs) \<leftarrow> timestamp_unchecked_decode en bs;
        (reference_number, bs) \<leftarrow> unchecked_decode_integer en bs;
        (executed_shares, bs) \<leftarrow> unchecked_decode_integer en bs;
        (match_number, bs) \<leftarrow> unchecked_decode_integer en bs;
        Some (True, \<lparr>oex_stock_locate = stock_locate, oex_tracking_number = tracking_number,
          oex_nanoseconds = nanoseconds, oex_reference_number = reference_number,
          oex_executed_shares = executed_shares, oex_match_number = match_number\<rparr>, bs)
      })"

definition decode_order_executed_with_price :: "endian \<Rightarrow> order_executed_with_price decoder" where
  "decode_order_executed_with_price en bs =
     (if length bs < mi_size order_executed_with_price then Some (False, order_executed_with_price_init, bs)
      else do {
        (_, bs) \<leftarrow> read_bytes 1 bs;
        (stock_locate, bs) \<leftarrow> unchecked_decode_integer en bs;
        (tracking_number, bs) \<leftarrow> unchecked_decode_integer en bs;
        (nanoseconds, bs) \<leftarrow> timestamp_unchecked_decode en bs;
        (reference_number, bs) \<leftarrow> unchecked_decode_integer en bs;
        (executed_shares, bs) \<leftarrow> unchecked_decode_integer en bs;
        (match_number, bs) \<leftarrow> unchecked_decode_integer en bs;
        (printable, bs) \<leftarrow> unchecked_decode_char bs;
        (execution_price, bs) \<leftarrow> price_unchecked_decode en 4 bs;
        Some (True, \<lparr>oep_stock_locate = stock_locate, oep_tracking_number = tracking_number,
          oep_nanoseconds = nanoseconds, oep_reference_number = reference_number,
          oep_executed_shares = executed_shares, oep_match_number = match_number,
          oep_printable = printable, oep_execution_price = execution_price\<rparr>, bs)
      })"

definition decode_order_cancel :: "endian \<Rightarrow> order_cancel decoder" where
  "decode_order_cancel en bs =
     (if length bs < mi_size order_cancel then Some (False, order_cancel_init, bs)
      else do {
        (_, bs) \<leftarrow> read_bytes 1 bs;
        (stock_locate, bs) \<leftarrow> unchecked_decode_integer en bs;
        (tracking_number, bs) \<leftarrow> unchecked_decode_integer en bs;
        (nanoseconds, bs) \<leftarrow> timestamp_unchecked_decode en bs;
        (reference_number, bs) \<leftarrow> unchecked_decode_integer en bs;
        (cancelled_shares, bs) \<leftarrow> unchecked_decode_integer en bs;
        Some (True, \<lparr>ocx_stock_locate = stock_locate, ocx_tracking_number = tracking_number,
          ocx_nanoseconds = nanoseconds, ocx_reference_number = reference_number,
          ocx_cancelled_shares = cancelled_shares\<rparr>, bs)
      })"

definition decode_order_delete :: "endian \<Rightarrow> order_delete decoder" where
  "decode_order_delete en bs =
     (if length bs < mi_size order_delete then Some (False, order_delete_init, bs)
      else do {
        (_, bs) \<leftarrow> read_bytes 1 bs;
        (stock_locate, bs) \<leftarrow> unchecked_decode_integer en bs;
        (tracking_number, bs) \<leftarrow> unchecked_decode_integer en bs;
        (nanoseconds, bs) \<leftarrow> timestamp_unchecked_decode en bs;
        (reference_number, bs) \<leftarrow> unchecked_decode_integer en bs;
        Some (True, \<lparr>odl_stock_locate = stock_locate, odl_tracking_number = tracking_number,
          odl_nanoseconds = nanoseconds, odl_reference_number = reference_number\<rparr>, bs)
      })"

definition decode_order_replace :: "endian \<Rightarrow> order_replace decoder" where
  "decode_order_replace en bs =
     (if length bs < mi_size order_replace then Some (False, order_replace_init, bs)
      else do {
        (_, bs) \<leftarrow> read_bytes 1 bs;
        (stock_locate, bs) \<leftarrow> unchecked_decode_integer en bs;
        (tracking_number, bs) \<leftarrow> unchecked_decode_integer en bs;
        (nanoseconds, bs) \<leftarrow> timestamp_unchecked_decode en bs;
        (original_reference_number, bs) \<leftarrow> unchecked_decode_integer en bs;
        (new_reference_number, bs) \<leftarrow> unchecked_decode_integer en bs;
        (shares, bs) \<leftarrow> unchecked_decode_integer en bs;
        (price, bs) \<leftarrow> price_unchecked_decode en 4 bs;
        Some (True, \<lparr>orp_stock_locate = stock_locate, orp_tracking_number = tracking_number,
          orp_nanoseconds = nanoseconds,
          orp_original_reference_number = original_reference_number,
          orp_new_reference_number = new_reference_number, orp_shares = shares,
          orp_price = price\<rparr>, bs)
      })"

definition decode_trade_non_cross :: "endian \<Rightarrow> trade_non_cross decoder" where
  "decode_trade_non_cross en bs =
     (if length bs < mi_size trade_non_cross then Some (False, trade_non_cross_init, bs)
      else do {
        (_, bs) \<leftarrow> read_bytes 1 bs;
        (stock_locate, bs) \<leftarrow> unchecked_decode_integer en bs;
        (tracking_number, bs) \<leftarrow> unchecked_decode_integer en bs;
        (nanoseconds, bs) \<leftarrow> timestamp_unchecked_decode en bs;
        (order_reference_number, bs) \<leftarrow> unchecked_decode_integer en bs;
        (buy_sell, bs) \<leftarrow> unchecked_decode_char bs;
        (shares, bs) \<leftarrow> unchecked_decode_integer en bs;
        (stock, bs) \<leftarrow> unchecked_decode_string_to_lower 8 bs;
        (price, bs) \<leftarrow> price_unchecked_decode en 4 bs;
        (match_number, bs) \<leftarrow> unchecked_decode_integer en bs;
        Some (True, \<lparr>tnc_stock_locate = stock_locate, tnc_tracking_number = tracking_number,
          tnc_nanoseconds = nanoseconds, tnc_order_reference_number = order_reference_number,
          tnc_buy_sell = buy_sell, tnc_shares = shares, tnc_stock = stock, tnc_price = price,
          tnc_match_number = match_number\<rparr>, bs)
      })"

definition decode_trade_cross :: "endian \<Rightarrow> trade_cross decoder" where
  "decode_trade_cross en bs =
     (if length bs < mi_size trade_cross then Some (False, trade_cross_init, bs)
      else do {
        (_, bs) \<leftarrow> read_bytes 1 bs;
        (stock_locate, bs) \<leftarrow> unchecked_decode_integer en bs;
        (tracking_number, bs) \<leftarrow> unchecked_decode_integer en bs;
        (nanoseconds, bs) \<leftarrow> timestamp_unchecked_decode en bs;
        (shares, bs) \<leftarrow> unchecked_decode_integer en bs;
        (stock, bs) \<leftarrow> unchecked_decode_string_to_lower 8 bs;
        (cross_price, bs) \<leftarrow> price_unchecked_decode en 4 bs;
        (match_number, bs) \<leftarrow> unchecked_decode_integer en bs;
        (cross_type, bs) \<leftarrow> unchecked_decode_char bs;
        Some (True, \<lparr>tcr_stock_locate = stock_locate, tcr_tracking_number = tracking_number,
          tcr_nanoseconds = nanoseconds, tcr_shares = shares, tcr_stock = stock,
          tcr_cross_price = cross_price, tcr_match_number = match_number,
          tcr_cross_type = cross_type\<rparr>, bs)
      })"

definition decode_broken_trade_order :: "endian \<Rightarrow> broken_trade_order decoder" where
  "decode_broken_trade_order en bs =
     (if length bs < mi_size broken_trade_order then Some (False, broken_trade_order_init, bs)
      else do {
        (_, bs) \<leftarrow> read_bytes 1 bs;
        (stock_locate, bs) \<leftarrow> unchecked_decode_integer en bs;
        (tracking_number, bs) \<leftarrow> unchecked_decode_integer en bs;
        (nanoseconds, bs) \<leftarrow> timestamp_unchecked_decode en bs;
        (match_number, bs) \<leftarrow> unchecked_decode_integer en bs;
        Some (True, \<lparr>btr_stock_locate = stock_locate, btr_tracking_number = tracking_number,
          btr_nanoseconds = nanoseconds, btr_match_number = match_number\<rparr>, bs)
      })"

subsection \<open>The wire format\<close>

definition be_word :: "u8 list \<Rightarrow> 'a::len word" where
  "be_word b = of_nat (be_nat b)"

definition field :: "nat \<Rightarrow> nat \<Rightarrow> u8 list \<Rightarrow> u8 list" where
  "field off n bs = take n (drop off bs)"

lemma field_drop [cursor_simps]: "take n (drop off bs) = field off n bs"
  by (simp add: field_def)

lemma length_field: "off + n \<le> length bs \<Longrightarrow> length (field off n bs) = n"
  by (simp add: field_def)

lemma three_numeral [cursor_simps]: "Suc (Suc (Suc 0)) = 3"
  by simp

lemma unchecked_decode_integer_eq:
  assumes "whole_bytes TYPE('a::len)" and "off + byte_size TYPE('a) \<le> length bs"
  shows "unchecked_decode_integer en (drop off bs) =
     Some (be_word (field off (byte_size TYPE('a)) bs) :: 'a word, drop (off + byte_size TYPE('a)) bs)"
  using assms
  by (simp add: unchecked_decode_integer_def read_bytes_Some be_word_def field_def big_to_native_load
      add.commute)

lemma decode_u16 [cursor_simps]:
  "off + 2 \<le> length bs \<Longrightarrow> unchecked_decode_integer en (drop off bs) =
     Some (be_word (field off 2 bs) :: u16, drop (off + 2) bs)"
  using unchecked_decode_integer_eq [where 'a = 16, of off bs en] by simp

lemma decode_u32 [cursor_simps]:
  "off + 4 \<le> length bs \<Longrightarrow> unchecked_decode_integer en (drop off bs) =
     Some (be_word (field off 4 bs) :: u32, drop (off + 4) bs)"
  using unchecked_decode_integer_eq [where 'a = 32, of off bs en] by simp

lemma decode_u64 [cursor_simps]:
  "off + 8 \<le> length bs \<Longrightarrow> unchecked_decode_integer en (drop off bs) =
     Some (be_word (field off 8 bs) :: u64, drop (off + 8) bs)"
  using unchecked_decode_integer_eq [where 'a = 64, of off bs en] by simp

lemma decode_char [cursor_simps]:
  "off < length bs \<Longrightarrow> unchecked_decode_char (drop off bs) =
     Some (byte_char (bs ! off), drop (Suc off) bs)"
  by (simp add: unchecked_decode_char_def read_bytes_Some hd_drop_conv_nth take_Suc)

lemma decode_string [cursor_simps]:
  "off + n \<le> length bs \<Longrightarrow> unchecked_decode_string_to_lower n (drop off bs) =
     Some (lower_string (field off n bs), drop (off + n) bs)"
  by (simp add: unchecked_decode_string_to_lower_def read_bytes_Some field_def add.commute)

lemma decode_price [cursor_simps]:
  "off + 4 \<le> length bs \<Longrightarrow> price_unchecked_decode en d (drop off bs) =
     Some (price_value d (be_word (field off 4 bs)), drop (off + 4) bs)"
  by (simp add: price_unchecked_decode_def decode_u32)

lemma decode_timestamp [cursor_simps]:
  "off + 6 \<le> length bs \<Longrightarrow> timestamp_unchecked_decode en (drop off bs) =
     Some (timestamp_value en (field off 6 bs), drop (off + 6) bs)"
  by (simp add: timestamp_unchecked_decode_def read_bytes_Some field_def timestamp_stored_size_def
      add.commute)

lemma timestamp_value_little:
  assumes "length b = 6"
  shows "timestamp_value Little_Endian b = int (be_nat b)"
proof -
  have b6: "le_nat b < 2 ^ 48" and n6: "be_nat b < 2 ^ 48"
    using le_nat_bound [of b] be_nat_bound [of b] assms by simp_all
  have "unat (push_bit 16 (of_nat (le_nat b) :: u64)) = le_nat ([0, 0] @ b)"
    using b6 by (simp add: push_bit_eq_mult unat_word_ariths unat_of_nat take_bit_nat_def)
  moreover have "le_bytes 8 (le_nat ([0, 0] @ b)) = [0, 0] @ b"
    using le_bytes_le_nat [of "[0, 0] @ b"] assms by simp
  ultimately have "byte_swap (push_bit 16 (of_nat (le_nat b) :: u64)) = of_nat (be_nat ([0, 0] @ b))"
    by (simp add: byte_swap_def)
  moreover have "be_nat ([0, 0] @ b) = be_nat b"
    by (simp add: be_nat_def le_nat_append)
  ultimately have "timestamp_value Little_Endian b = sint (of_nat (be_nat b) :: u64)"
    by (simp add: timestamp_value_def big_to_native_def load_native_def timestamp_stored_size_def
        le_nat_append numeral_2_eq_2)
  also have "\<dots> = int (be_nat b)"
    using n6 by (simp add: signed_of_nat signed_take_bit_int_eq_self)
  finally show ?thesis .
qed

lemma decode_stock_directory_layout:
  "39 \<le> length bs \<Longrightarrow> decode_stock_directory en bs = Some (True,
     \<lparr>sdr_stock_locate = be_word (field 1 2 bs), sdr_tracking_number = be_word (field 3 2 bs),
      sdr_nanoseconds = timestamp_value en (field 5 6 bs),
      sdr_stock = lower_string (field 11 8 bs), sdr_market_category = byte_char (bs ! 19),
      sdr_financial_status = byte_char (bs ! 20), sdr_round_lot_size = be_word (field 21 4 bs),
      sdr_round_lots_only = byte_char (bs ! 25), sdr_issue_classification = byte_char (bs ! 26),
      sdr_issue_sub_type = lower_string (field 27 2 bs), sdr_authenticity = byte_char (bs ! 29),
      sdr_short_sale_threshold_indicator = byte_char (bs ! 30),
      sdr_ipo_flag = byte_char (bs ! 31), sdr_luld_reference_price_tier = byte_char (bs ! 32),
      sdr_etp_flag = byte_char (bs ! 33), sdr_etp_leverage_factor = be_word (field 34 4 bs),
      sdr_inverse_indicator = byte_char (bs ! 38)\<rparr>, drop 39 bs)"
  by (simp add: decode_stock_directory_def stock_directory_def size_defs cursor_simps)

lemma decode_stock_directory_short:
  "length bs < 39 \<Longrightarrow> decode_stock_directory en bs = Some (False, stock_directory_init, bs)"
  by (simp add: decode_stock_directory_def stock_directory_def size_defs)

lemma decode_add_order_without_attribution_layout:
  "36 \<le> length bs \<Longrightarrow> decode_add_order_without_attribution en bs = Some (True,
     \<lparr>awo_stock_locate = be_word (field 1 2 bs), awo_tracking_number = be_word (field 3 2 bs),
      awo_nanoseconds = timestamp_value en (field 5 6 bs),
      awo_reference_number = be_word (field 11 8 bs), awo_buy_sell = byte_char (bs ! 19),
      awo_shares = be_word (field 20 4 bs), awo_stock = lower_string (field 24 8 bs),
      awo_price = price_value 4 (be_word (field 32 4 bs))\<rparr>, drop 36 bs)"
  by (simp add: decode_add_order_without_attribution_def add_order_without_attribution_def size_defs cursor_simps)

lemma decode_add_order_without_attribution_short:
  "length bs < 36 \<Longrightarrow> decode_add_order_without_attribution en bs = Some (False, add_order_without_attribution_init, bs)"
  by (simp add: decode_add_order_without_attribution_def add_order_without_attribution_def size_defs)

lemma decode_add_order_with_attribution_layout:
  "40 \<le> length bs \<Longrightarrow> decode_add_order_with_attribution en bs = Some (True,
     \<lparr>awa_stock_locate = be_word (field 1 2 bs), awa_tracking_number = be_word (field 3 2 bs),
      awa_nanoseconds = timestamp_value en (field 5 6 bs),
      awa_reference_number = be_word (field 11 8 bs), awa_buy_sell = byte_char (bs ! 19),
      awa_shares = be_word (field 20 4 bs), awa_stock = lower_string (field 24 8 bs),
      awa_price = price_value 4 (be_word (field 32 4 bs)),
      awa_attribution = lower_string (field 36 4 bs)\<rparr>, drop 40 bs)"
  by (simp add: decode_add_order_with_attribution_def add_order_with_attribution_def size_defs cursor_simps)

lemma decode_add_order_with_attribution_short:
  "length bs < 40 \<Longrightarrow> decode_add_order_with_attribution en bs = Some (False, add_order_with_attribution_init, bs)"
  by (simp add: decode_add_order_with_attribution_def add_order_with_attribution_def size_defs)

lemma decode_order_executed_layout:
  "31 \<le> length bs \<Longrightarrow> decode_order_executed en bs = Some (True,
     \<lparr>oex_stock_locate = be_word (field 1 2 bs), oex_tracking_number = be_word (field 3 2 bs),
      oex_nanoseconds = timestamp_value en (field 5 6 bs),
      oex_reference_number = be_word (field 11 8 bs),
      oex_executed_shares = be_word (field 19 4 bs), oex_match_number = be_word (field 23 8 bs)\<rparr>, drop 31 bs)"
  by (simp add: decode_order_executed_def order_executed_def size_defs cursor_simps)

lemma decode_order_executed_short:
  "length bs < 31 \<Longrightarrow> decode_order_executed en bs = Some (False, order_executed_init, bs)"
  by (simp add: decode_order_executed_def order_executed_def size_defs)

lemma decode_order_executed_with_price_layout:
  "36 \<le> length bs \<Longrightarrow> decode_order_executed_with_price en bs = Some (True,
     \<lparr>oep_stock_locate = be_word (field 1 2 bs), oep_tracking_number = be_word (field 3 2 bs),
      oep_nanoseconds = timestamp_value en (field 5 6 bs),
      oep_reference_number = be_word (field 11 8 bs),
      oep_executed_shares = be_word (field 19 4 bs), oep_match_number = be_word (field 23 8 bs),
      oep_printable = byte_char (bs ! 31),
      oep_execution_price = price_value 4 (be_word (field 32 4 bs))\<rparr>, drop 36 bs)"
  by (simp add: decode_order_executed_with_price_def order_executed_with_price_def size_defs cursor_simps)

lemma decode_order_executed_with_price_short:
  "length bs < 36 \<Longrightarrow> decode_order_executed_with_price en bs = Some (False, order_executed_with_price_init, bs)"
  by (simp add: decode_order_executed_with_price_def order_executed_with_price_def size_defs)

lemma decode_order_cancel_layout:
  "23 \<le> length bs \<Longrightarrow> decode_order_cancel en bs = Some (True,
     \<lparr>ocx_stock_locate = be_word (field 1 2 bs), ocx_tracking_number = be_word (field 3 2 bs),
      ocx_nanoseconds = timestamp_value en (field 5 6 bs),
      ocx_reference_number = be_word (field 11 8 bs),
      ocx_cancelled_shares = be_word (field 19 4 bs)\<rparr>, drop 23 bs)"
  by (simp add: decode_order_cancel_def order_cancel_def size_defs cursor_simps)

lemma decode_order_cancel_short:
  "length bs < 23 \<Longrightarrow> decode_order_cancel en bs = Some (False, order_cancel_init, bs)"
  by (simp add: decode_order_cancel_def order_cancel_def size_defs)

lemma decode_order_delete_layout:
  "19 \<le> length bs \<Longrightarrow> decode_order_delete en bs = Some (True,
     \<lparr>odl_stock_locate = be_word (field 1 2 bs), odl_tracking_number = be_word (field 3 2 bs),
      odl_nanoseconds = timestamp_value en (field 5 6 bs),
      odl_reference_number = be_word (field 11 8 bs)\<rparr>, drop 19 bs)"
  by (simp add: decode_order_delete_def order_delete_def size_defs cursor_simps)

lemma decode_order_delete_short:
  "length bs < 19 \<Longrightarrow> decode_order_delete en bs = Some (False, order_delete_init, bs)"
  by (simp add: decode_order_delete_def order_delete_def size_defs)

lemma decode_order_replace_layout:
  "35 \<le> length bs \<Longrightarrow> decode_order_replace en bs = Some (True,
     \<lparr>orp_stock_locate = be_word (field 1 2 bs), orp_tracking_number = be_word (field 3 2 bs),
      orp_nanoseconds = timestamp_value en (field 5 6 bs),
      orp_original_reference_number = be_word (field 11 8 bs),
      orp_new_reference_number = be_word (field 19 8 bs), orp_shares = be_word (field 27 4 bs),
      orp_price = price_value 4 (be_word (field 31 4 bs))\<rparr>, drop 35 bs)"
  by (simp add: decode_order_replace_def order_replace_def size_defs cursor_simps)

lemma decode_order_replace_short:
  "length bs < 35 \<Longrightarrow> decode_order_replace en bs = Some (False, order_replace_init, bs)"
  by (simp add: decode_order_replace_def order_replace_def size_defs)

lemma decode_trade_non_cross_layout:
  "44 \<le> length bs \<Longrightarrow> decode_trade_non_cross en bs = Some (True,
     \<lparr>tnc_stock_locate = be_word (field 1 2 bs), tnc_tracking_number = be_word (field 3 2 bs),
      tnc_nanoseconds = timestamp_value en (field 5 6 bs),
      tnc_order_reference_number = be_word (field 11 8 bs), tnc_buy_sell = byte_char (bs ! 19),
      tnc_shares = be_word (field 20 4 bs), tnc_stock = lower_string (field 24 8 bs),
      tnc_price = price_value 4 (be_word (field 32 4 bs)),
      tnc_match_number = be_word (field 36 8 bs)\<rparr>, drop 44 bs)"
  by (simp add: decode_trade_non_cross_def trade_non_cross_def size_defs cursor_simps)

lemma decode_trade_non_cross_short:
  "length bs < 44 \<Longrightarrow> decode_trade_non_cross en bs = Some (False, trade_non_cross_init, bs)"
  by (simp add: decode_trade_non_cross_def trade_non_cross_def size_defs)

lemma decode_trade_cross_layout:
  "40 \<le> length bs \<Longrightarrow> decode_trade_cross en bs = Some (True,
     \<lparr>tcr_stock_locate = be_word (field 1 2 bs), tcr_tracking_number = be_word (field 3 2 bs),
      tcr_nanoseconds = timestamp_value en (field 5 6 bs), tcr_shares = be_word (field 11 8 bs),
      tcr_stock = lower_string (field 19 8 bs),
      tcr_cross_price = price_value 4 (be_word (field 27 4 bs)),
      tcr_match_number = be_word (field 31 8 bs), tcr_cross_type = byte_char (bs ! 39)\<rparr>, drop 40 bs)"
  by (simp add: decode_trade_cross_def trade_cross_def size_defs cursor_simps)

lemma decode_trade_cross_short:
  "length bs < 40 \<Longrightarrow> decode_trade_cross en bs = Some (False, trade_cross_init, bs)"
  by (simp add: decode_trade_cross_def trade_cross_def size_defs)

lemma decode_broken_trade_order_layout:
  "19 \<le> length bs \<Longrightarrow> decode_broken_trade_order en bs = Some (True,
     \<lparr>btr_stock_locate = be_word (field 1 2 bs), btr_tracking_number = be_word (field 3 2 bs),
      btr_nanoseconds = timestamp_value en (field 5 6 bs),
      btr_match_number = be_word (field 11 8 bs)\<rparr>, drop 19 bs)"
  by (simp add: decode_broken_trade_order_def broken_trade_order_def size_defs cursor_simps)

lemma decode_broken_trade_order_short:
  "length bs < 19 \<Longrightarrow> decode_broken_trade_order en bs = Some (False, broken_trade_order_init, bs)"
  by (simp add: decode_broken_trade_order_def broken_trade_order_def size_defs)

subsection \<open>Every decoder stays inside the buffer\<close>

lemma decode_stock_directory_moves:
  "\<exists>m. decode_stock_directory en bs = Some (mi_size stock_directory \<le> length bs, m,
     if mi_size stock_directory \<le> length bs then drop (mi_size stock_directory) bs else bs)"
  using decode_stock_directory_layout [of bs en] decode_stock_directory_short [of bs en]
  by (cases "mi_size stock_directory \<le> length bs") (simp_all add: stock_directory_def size_defs)

lemma decode_add_order_without_attribution_moves:
  "\<exists>m. decode_add_order_without_attribution en bs = Some (mi_size add_order_without_attribution \<le> length bs, m,
     if mi_size add_order_without_attribution \<le> length bs then drop (mi_size add_order_without_attribution) bs else bs)"
  using decode_add_order_without_attribution_layout [of bs en] decode_add_order_without_attribution_short [of bs en]
  by (cases "mi_size add_order_without_attribution \<le> length bs") (simp_all add: add_order_without_attribution_def size_defs)

lemma decode_add_order_with_attribution_moves:
  "\<exists>m. decode_add_order_with_attribution en bs = Some (mi_size add_order_with_attribution \<le> length bs, m,
     if mi_size add_order_with_attribution \<le> length bs then drop (mi_size add_order_with_attribution) bs else bs)"
  using decode_add_order_with_attribution_layout [of bs en] decode_add_order_with_attribution_short [of bs en]
  by (cases "mi_size add_order_with_attribution \<le> length bs") (simp_all add: add_order_with_attribution_def size_defs)

lemma decode_order_executed_moves:
  "\<exists>m. decode_order_executed en bs = Some (mi_size order_executed \<le> length bs, m,
     if mi_size order_executed \<le> length bs then drop (mi_size order_executed) bs else bs)"
  using decode_order_executed_layout [of bs en] decode_order_executed_short [of bs en]
  by (cases "mi_size order_executed \<le> length bs") (simp_all add: order_executed_def size_defs)

lemma decode_order_executed_with_price_moves:
  "\<exists>m. decode_order_executed_with_price en bs = Some (mi_size order_executed_with_price \<le> length bs, m,
     if mi_size order_executed_with_price \<le> length bs then drop (mi_size order_executed_with_price) bs else bs)"
  using decode_order_executed_with_price_layout [of bs en] decode_order_executed_with_price_short [of bs en]
  by (cases "mi_size order_executed_with_price \<le> length bs") (simp_all add: order_executed_with_price_def size_defs)

lemma decode_order_cancel_moves:
  "\<exists>m. decode_order_cancel en bs = Some (mi_size order_cancel \<le> length bs, m,
     if mi_size order_cancel \<le> length bs then drop (mi_size order_cancel) bs else bs)"
  using decode_order_cancel_layout [of bs en] decode_order_cancel_short [of bs en]
  by (cases "mi_size order_cancel \<le> length bs") (simp_all add: order_cancel_def size_defs)

lemma decode_order_delete_moves:
  "\<exists>m. decode_order_delete en bs = Some (mi_size order_delete \<le> length bs, m,
     if mi_size order_delete \<le> length bs then drop (mi_size order_delete) bs else bs)"
  using decode_order_delete_layout [of bs en] decode_order_delete_short [of bs en]
  by (cases "mi_size order_delete \<le> length bs") (simp_all add: order_delete_def size_defs)

lemma decode_order_replace_moves:
  "\<exists>m. decode_order_replace en bs = Some (mi_size order_replace \<le> length bs, m,
     if mi_size order_replace \<le> length bs then drop (mi_size order_replace) bs else bs)"
  using decode_order_replace_layout [of bs en] decode_order_replace_short [of bs en]
  by (cases "mi_size order_replace \<le> length bs") (simp_all add: order_replace_def size_defs)

lemma decode_trade_non_cross_moves:
  "\<exists>m. decode_trade_non_cross en bs = Some (mi_size trade_non_cross \<le> length bs, m,
     if mi_size trade_non_cross \<le> length bs then drop (mi_size trade_non_cross) bs else bs)"
  using decode_trade_non_cross_layout [of bs en] decode_trade_non_cross_short [of bs en]
  by (cases "mi_size trade_non_cross \<le> length bs") (simp_all add: trade_non_cross_def size_defs)

lemma decode_trade_cross_moves:
  "\<exists>m. decode_trade_cross en bs = Some (mi_size trade_cross \<le> length bs, m,
     if mi_size trade_cross \<le> length bs then drop (mi_size trade_cross) bs else bs)"
  using decode_trade_cross_layout [of bs en] decode_trade_cross_short [of bs en]
  by (cases "mi_size trade_cross \<le> length bs") (simp_all add: trade_cross_def size_defs)

lemma decode_broken_trade_order_moves:
  "\<exists>m. decode_broken_trade_order en bs = Some (mi_size broken_trade_order \<le> length bs, m,
     if mi_size broken_trade_order \<le> length bs then drop (mi_size broken_trade_order) bs else bs)"
  using decode_broken_trade_order_layout [of bs en] decode_broken_trade_order_short [of bs en]
  by (cases "mi_size broken_trade_order \<le> length bs") (simp_all add: broken_trade_order_def size_defs)

subsection \<open>A decoder reads its own message only\<close>

lemma field_append [cursor_simps]: "off + n \<le> length b \<Longrightarrow> field off n (b @ rest) = field off n b"
  by (simp add: field_def)

lemma decode_stock_directory_append:
  "mi_size stock_directory = length b \<Longrightarrow> decode_stock_directory en (b @ rest) =
     map_option (\<lambda>(ok, m, r). (ok, m, r @ rest)) (decode_stock_directory en b)"
  by (simp add: stock_directory_def size_defs decode_stock_directory_layout field_append nth_append)

lemma decode_add_order_without_attribution_append:
  "mi_size add_order_without_attribution = length b \<Longrightarrow> decode_add_order_without_attribution en (b @ rest) =
     map_option (\<lambda>(ok, m, r). (ok, m, r @ rest)) (decode_add_order_without_attribution en b)"
  by (simp add: add_order_without_attribution_def size_defs decode_add_order_without_attribution_layout field_append nth_append)

lemma decode_add_order_with_attribution_append:
  "mi_size add_order_with_attribution = length b \<Longrightarrow> decode_add_order_with_attribution en (b @ rest) =
     map_option (\<lambda>(ok, m, r). (ok, m, r @ rest)) (decode_add_order_with_attribution en b)"
  by (simp add: add_order_with_attribution_def size_defs decode_add_order_with_attribution_layout field_append nth_append)

lemma decode_order_executed_append:
  "mi_size order_executed = length b \<Longrightarrow> decode_order_executed en (b @ rest) =
     map_option (\<lambda>(ok, m, r). (ok, m, r @ rest)) (decode_order_executed en b)"
  by (simp add: order_executed_def size_defs decode_order_executed_layout field_append nth_append)

lemma decode_order_executed_with_price_append:
  "mi_size order_executed_with_price = length b \<Longrightarrow> decode_order_executed_with_price en (b @ rest) =
     map_option (\<lambda>(ok, m, r). (ok, m, r @ rest)) (decode_order_executed_with_price en b)"
  by (simp add: order_executed_with_price_def size_defs decode_order_executed_with_price_layout field_append nth_append)

lemma decode_order_cancel_append:
  "mi_size order_cancel = length b \<Longrightarrow> decode_order_cancel en (b @ rest) =
     map_option (\<lambda>(ok, m, r). (ok, m, r @ rest)) (decode_order_cancel en b)"
  by (simp add: order_cancel_def size_defs decode_order_cancel_layout field_append nth_append)

lemma decode_order_delete_append:
  "mi_size order_delete = length b \<Longrightarrow> decode_order_delete en (b @ rest) =
     map_option (\<lambda>(ok, m, r). (ok, m, r @ rest)) (decode_order_delete en b)"
  by (simp add: order_delete_def size_defs decode_order_delete_layout field_append nth_append)

lemma decode_order_replace_append:
  "mi_size order_replace = length b \<Longrightarrow> decode_order_replace en (b @ rest) =
     map_option (\<lambda>(ok, m, r). (ok, m, r @ rest)) (decode_order_replace en b)"
  by (simp add: order_replace_def size_defs decode_order_replace_layout field_append nth_append)

lemma decode_trade_non_cross_append:
  "mi_size trade_non_cross = length b \<Longrightarrow> decode_trade_non_cross en (b @ rest) =
     map_option (\<lambda>(ok, m, r). (ok, m, r @ rest)) (decode_trade_non_cross en b)"
  by (simp add: trade_non_cross_def size_defs decode_trade_non_cross_layout field_append nth_append)

lemma decode_trade_cross_append:
  "mi_size trade_cross = length b \<Longrightarrow> decode_trade_cross en (b @ rest) =
     map_option (\<lambda>(ok, m, r). (ok, m, r @ rest)) (decode_trade_cross en b)"
  by (simp add: trade_cross_def size_defs decode_trade_cross_layout field_append nth_append)

lemma decode_broken_trade_order_append:
  "mi_size broken_trade_order = length b \<Longrightarrow> decode_broken_trade_order en (b @ rest) =
     map_option (\<lambda>(ok, m, r). (ok, m, r @ rest)) (decode_broken_trade_order en b)"
  by (simp add: broken_trade_order_def size_defs decode_broken_trade_order_layout field_append nth_append)


subsection \<open>What an exchange sends and what is read\<close>

text \<open>
  The wire formats of two messages, as the exchange documents them: every integer big-endian, the
  time stamp in six bytes, the stock in eight characters, the price in units of a ten thousandth.
\<close>

definition wire_add_order :: "nat \<Rightarrow> nat \<Rightarrow> nat \<Rightarrow> u64 \<Rightarrow> char \<Rightarrow> u32 \<Rightarrow> string \<Rightarrow> u32 \<Rightarrow> u8 list" where
  "wire_add_order locate tracking ns reference side shares stock price =
     char_byte CHR ''A'' # be_bytes 2 locate @ be_bytes 2 tracking @ be_bytes 6 ns @
     be_bytes 8 (unat reference) @ char_byte side # be_bytes 4 (unat shares) @ map char_byte stock @
     be_bytes 4 (unat price)"

definition wire_replace :: "nat \<Rightarrow> nat \<Rightarrow> nat \<Rightarrow> u64 \<Rightarrow> u64 \<Rightarrow> u32 \<Rightarrow> u32 \<Rightarrow> u8 list" where
  "wire_replace locate tracking ns original new shares price =
     char_byte CHR ''U'' # be_bytes 2 locate @ be_bytes 2 tracking @ be_bytes 6 ns @
     be_bytes 8 (unat original) @ be_bytes 8 (unat new) @ be_bytes 4 (unat shares) @ be_bytes 4 (unat price)"

lemma be_word_bytes:
  "whole_bytes TYPE('a::len) \<Longrightarrow> be_word (be_bytes (byte_size TYPE('a)) (unat v)) = (v :: 'a word)"
  by (simp add: be_word_def be_nat_be_bytes pow_byte_size)

lemma be_word_be_bytes:
  "be_word (be_bytes 2 (unat v2)) = (v2 :: u16)" "be_word (be_bytes 4 (unat v4)) = (v4 :: u32)"
  "be_word (be_bytes 8 (unat v8)) = (v8 :: u64)"
  using be_word_bytes [where 'a = 16, of v2] be_word_bytes [where 'a = 32, of v4] be_word_bytes [where 'a = 64, of v8]
  by simp_all

lemma be_word_be_bytes_nat: "n < 2 ^ 16 \<Longrightarrow> be_word (be_bytes 2 n) = (of_nat n :: u16)"
  by (simp add: be_word_def be_nat_be_bytes)

text \<open>A field of a concatenation is one of its parts.\<close>

lemma field_here: "length b = n \<Longrightarrow> field 0 n (b @ rest) = b"
  by (simp add: field_def)

lemma field_later: "length b \<le> off \<Longrightarrow> field off n (b @ rest) = field (off - length b) n rest"
  by (simp add: field_def)

lemma field_later_Cons: "0 < off \<Longrightarrow> field off n (x # rest) = field (off - 1) n rest"
  by (cases off) (simp_all add: field_def)

lemma field_all: "length b = n \<Longrightarrow> field 0 n b = b"
  by (simp add: field_def)

lemmas wire_fields = field_here field_later field_later_Cons field_all

lemma tolower_plain: "\<not> (65 \<le> b \<and> b \<le> 90) \<Longrightarrow> tolower_byte b = b"
  by (auto simp: tolower_byte_def)

text \<open>C24: On a little-endian host, an Add Order message written as the exchange documents it is read back
  field by field: the reference, the side, the shares, the nanoseconds since midnight, the price over ten
  thousand, and the stock in lower case; the bytes after it are left for the next message.\<close>

theorem add_order_read_back:
  assumes "locate < 2 ^ 16" and "tracking < 2 ^ 16" and "ns < 2 ^ 48" and "length stock = 8"
  shows "decode_add_order_without_attribution Little_Endian
      (wire_add_order locate tracking ns reference side shares stock price @ rest) = Some (True,
     \<lparr>awo_stock_locate = of_nat locate, awo_tracking_number = of_nat tracking, awo_nanoseconds = int ns,
      awo_reference_number = reference, awo_buy_sell = side, awo_shares = shares,
      awo_stock = lower_string (map char_byte stock), awo_price = price_value 4 price\<rparr>, rest)"
  using assms
  by (simp add: decode_add_order_without_attribution_layout wire_add_order_def wire_fields be_word_be_bytes
      be_word_be_bytes_nat nth_append nth_Cons' timestamp_value_little be_nat_be_bytes)

theorem add_order_read_back_witness:
  "decode_add_order_without_attribution Little_Endian
      (wire_add_order 5 0 34200000000000 77 CHR ''B'' 100 ''AAPL    '' 1500000 @ []) = Some (True,
     \<lparr>awo_stock_locate = 5, awo_tracking_number = 0, awo_nanoseconds = 34200000000000,
      awo_reference_number = 77, awo_buy_sell = CHR ''B'', awo_shares = 100,
      awo_stock = lower_string (map char_byte ''AAPL    ''), awo_price = price_value 4 1500000\<rparr>, [])"
  using add_order_read_back [of 5 0 34200000000000 "''AAPL    ''" 77 "CHR ''B''" 100 1500000 "[]"] by simp

text \<open>On a little-endian host, an Order Replace message written as the exchange documents it is read
  back field by field: the original and the new reference in that order, then the shares and the
  price.\<close>

theorem replace_read_back:
  assumes "locate < 2 ^ 16" and "tracking < 2 ^ 16" and "ns < 2 ^ 48"
  shows "decode_order_replace Little_Endian (wire_replace locate tracking ns original new shares price @ rest) = Some (True,
     \<lparr>orp_stock_locate = of_nat locate, orp_tracking_number = of_nat tracking, orp_nanoseconds = int ns,
      orp_original_reference_number = original, orp_new_reference_number = new, orp_shares = shares,
      orp_price = price_value 4 price\<rparr>, rest)"
  using assms
  by (simp add: decode_order_replace_layout wire_replace_def wire_fields be_word_be_bytes
      be_word_be_bytes_nat timestamp_value_little be_nat_be_bytes)

theorem replace_read_back_witness:
  "decode_order_replace Little_Endian (wire_replace 5 0 34200000000000 77 78 100 1500000 @ [1, 2]) = Some (True,
     \<lparr>orp_stock_locate = 5, orp_tracking_number = 0, orp_nanoseconds = 34200000000000,
      orp_original_reference_number = 77, orp_new_reference_number = 78, orp_shares = 100,
      orp_price = price_value 4 1500000\<rparr>, [1, 2])"
  using replace_read_back [of 5 0 34200000000000 77 78 100 1500000 "[1, 2]"] by simp

text \<open>The six-byte time stamp is the number the exchange sent on a little-endian host; on a
  big-endian host the same bytes give that number multiplied by two to the power of thirty-two, in 64
  bits.\<close>

theorem timestamp_on_hosts:
  assumes "length b = 6"
  shows "timestamp_value Little_Endian b = int (be_nat b) \<and>
    timestamp_value Big_Endian b = sint (of_nat (be_nat b * 2 ^ 32) :: u64)"
proof
  show "timestamp_value Little_Endian b = int (be_nat b)" using assms by (rule timestamp_value_little)
  have "be_nat (b @ [0, 0]) = be_nat b * 2 ^ 16"
    by (simp add: be_nat_def)
  then have "timestamp_value Big_Endian b = sint (push_bit 16 (of_nat (be_nat b * 2 ^ 16) :: u64))"
    by (simp add: timestamp_value_def big_to_native_def load_native_def timestamp_stored_size_def numeral_2_eq_2)
  also have "push_bit 16 (of_nat (be_nat b * 2 ^ 16) :: u64) = of_nat (be_nat b * 2 ^ 32)"
    by (simp add: push_bit_eq_mult)
  finally show "timestamp_value Big_Endian b = sint (of_nat (be_nat b * 2 ^ 32) :: u64)" .
qed

theorem timestamp_on_hosts_witness:
  "timestamp_value Little_Endian [0, 0, 0, 0, 0, 7] = 7 \<and> timestamp_value Big_Endian [0, 0, 0, 0, 0, 7] = 7 * 2 ^ 32"
  using timestamp_on_hosts [of "[0, 0, 0, 0, 0, 7]"] by (simp add: be_nat_def)

end
