(* ===== verification/Itch_Feed.thy ===== *)
theory Itch_Feed imports
  Itch_Messages
begin

section \<open>ITCH feed: reading the next message\<close>

text \<open>
  \<open>read_next_message\<close> of \<open>src/src/nasdaq_exec/itch_messages.hpp\<close>: a two-byte big-endian length, one
  message, a \<open>switch\<close> over its code; the messages it knows are decoded and pushed to a queue, the
  others are skipped by the length of the header. The queue is a template parameter of the source:
  here its \<open>try_push\<close> is an argument that returns whether the message was accepted and the queue
  afterwards. The push is retried until it succeeds, so it is a partial function, \<open>None\<close> when no try
  ever does.
\<close>

subsection \<open>The message variant and the counters\<close>

datatype message_type =
    System_event
  | Stock_directory stock_directory
  | Stock_trading_action
  | Reg_sho_sale_price_test
  | Market_participant_position
  | Mwcb_decline_level
  | Mwcb_status
  | Ipo_quoting_period_update
  | Luld_auction_collar
  | Operational_halt
  | Add_order_without_attribution add_order_without_attribution
  | Add_order_with_attribution add_order_with_attribution
  | Order_executed order_executed
  | Order_executed_with_price order_executed_with_price
  | Order_cancel order_cancel
  | Order_delete order_delete
  | Order_replace order_replace
  | Trade_non_cross trade_non_cross
  | Trade_cross trade_cross
  | Broken_trade_order broken_trade_order
  | Noii
  | Rpii
  | Eot

record messages_status =
  ms_stall :: u64
  ms_loaded :: u64
  ms_skipped :: u64
  ms_read :: u64

record read_status =
  rs_messages :: messages_status
  rs_bytes_read :: u64
  rs_total_bytes :: u64

text \<open>The counters of the writing side, which only other programs of the family fill.\<close>

record write_status =
  ws_errors :: u64
  ws_unmatched :: u64
  ws_tables_created :: u64
  ws_rows_written :: u64
  ws_bytes_written :: u64

text \<open>Both sides together, with three readings of a clock.\<close>

record global_status =
  gs_start_time :: int
  gs_read_end_time :: int
  gs_write_end_time :: int
  gs_read :: read_status
  gs_write :: write_status

definition messages_status_init :: messages_status where
  "messages_status_init = \<lparr>ms_stall = 0, ms_loaded = 0, ms_skipped = 0, ms_read = 0\<rparr>"

subsection \<open>Reading one message\<close>

text \<open>
  The \<open>switch\<close>: which object a code constructs and decodes. \<open>None\<close> is the default label; a result
  \<open>Some None\<close> is a decoder that read outside the buffer.
\<close>

definition as_variant :: "('x \<Rightarrow> message_type) \<Rightarrow> (bool \<times> 'x \<times> u8 list) option
    \<Rightarrow> (message_type \<times> u8 list) option option" where
  "as_variant con d = Some (map_option (\<lambda>(_, m, rest). (con m, rest)) d)"

definition dispatch :: "endian \<Rightarrow> char \<Rightarrow> u8 list \<Rightarrow> (message_type \<times> u8 list) option option" where
  "dispatch en code bs =
     (if code = mi_code stock_directory then as_variant Stock_directory (decode_stock_directory en bs)
      else if code = mi_code add_order_without_attribution then as_variant Add_order_without_attribution (decode_add_order_without_attribution en bs)
      else if code = mi_code add_order_with_attribution then as_variant Add_order_with_attribution (decode_add_order_with_attribution en bs)
      else if code = mi_code order_executed then as_variant Order_executed (decode_order_executed en bs)
      else if code = mi_code order_executed_with_price then as_variant Order_executed_with_price (decode_order_executed_with_price en bs)
      else if code = mi_code order_cancel then as_variant Order_cancel (decode_order_cancel en bs)
      else if code = mi_code order_delete then as_variant Order_delete (decode_order_delete en bs)
      else if code = mi_code order_replace then as_variant Order_replace (decode_order_replace en bs)
      else if code = mi_code trade_cross then as_variant Trade_cross (decode_trade_cross en bs)
      else if code = mi_code trade_non_cross then as_variant Trade_non_cross (decode_trade_non_cross en bs)
      else if code = mi_code broken_trade_order then as_variant Broken_trade_order (decode_broken_trade_order en bs)
      else None)"

text \<open>\<open>while (!q.try_push(m)) status.stall++;\<close>\<close>

partial_function (option) push_message ::
    "(message_type \<Rightarrow> 'q \<Rightarrow> bool \<times> 'q) \<Rightarrow> message_type \<Rightarrow> 'q \<Rightarrow> u64 \<Rightarrow> ('q \<times> u64) option" where
  "push_message try_push m q stalls =
     (case try_push m q of (ok, q') \<Rightarrow>
        if ok then Some (q', stalls) else push_message try_push m q' (stalls + 1))"

text \<open>
  \<open>Ended\<close> is the return value false, \<open>Advanced\<close> is true; \<open>Bad_Access\<close> is a read outside the buffer.
\<close>

datatype 'q feed_result =
    Ended "u8 list" messages_status 'q
  | Advanced "u8 list" messages_status 'q
  | Bad_Access

definition read_next_message :: "endian \<Rightarrow> (message_type \<Rightarrow> 'q \<Rightarrow> bool \<times> 'q) \<Rightarrow> u8 list
    \<Rightarrow> messages_status \<Rightarrow> 'q \<Rightarrow> 'q feed_result option" where
  "read_next_message en try_push bs st q =
     (if length bs < 2 then Some (Ended bs st q)
      else case unchecked_decode_integer en bs of
        None \<Rightarrow> Some Bad_Access
      | Some (message_size :: u16, bs) \<Rightarrow>
          if length bs < unat message_size then Some (Ended bs st q)
          else case bs of
            [] \<Rightarrow> Some Bad_Access
          | b # _ \<Rightarrow>
              (case dispatch en (byte_char b) bs of
                 None \<Rightarrow> Some (Advanced (drop (unat message_size) bs)
                                 (st\<lparr>ms_skipped := ms_skipped st + 1\<rparr>) q)
               | Some None \<Rightarrow> Some Bad_Access
               | Some (Some (m, rest)) \<Rightarrow> do {
                   (q', stalls) \<leftarrow> push_message try_push m q (ms_stall st);
                   Some (Advanced rest (st\<lparr>ms_stall := stalls,
                           ms_loaded := ms_loaded st + ucast message_size,
                           ms_read := ms_read st + 1\<rparr>) q')
                 }))"

subsection \<open>What the switch does with the buffer\<close>

definition known_messages :: "message_info list" where
  "known_messages =
     [stock_directory,
      add_order_without_attribution,
      add_order_with_attribution,
      order_executed,
      order_executed_with_price,
      order_cancel,
      order_delete,
      order_replace,
      trade_cross,
      trade_non_cross,
      broken_trade_order]"

lemmas decoders_move =
  decode_stock_directory_moves
  decode_add_order_without_attribution_moves
  decode_add_order_with_attribution_moves
  decode_order_executed_moves
  decode_order_executed_with_price_moves
  decode_order_cancel_moves
  decode_order_delete_moves
  decode_order_replace_moves
  decode_trade_cross_moves
  decode_trade_non_cross_moves
  decode_broken_trade_order_moves

lemma known_codes_distinct: "distinct (map mi_code known_messages)"
  by (simp add: known_messages_def tag_defs)

text \<open>A decoder that stays inside the buffer and moves by the size of its message.\<close>

definition moves_by :: "nat \<Rightarrow> u8 list \<Rightarrow> (message_type \<times> u8 list) option option \<Rightarrow> bool" where
  "moves_by n bs d \<longleftrightarrow> (\<exists>m. d = Some (Some (m, if n \<le> length bs then drop n bs else bs)))"

lemma as_variant_moves:
  assumes "\<exists>m. d = Some (n \<le> length bs, m, if n \<le> length bs then drop n bs else bs)"
  shows "moves_by n bs (as_variant con d)"
  using assms by (auto simp: moves_by_def as_variant_def)

lemma dispatch_cases:
  "(dispatch en c bs = None \<and> c \<notin> mi_code ` set known_messages) \<or>
   (\<exists>i\<in>set known_messages. mi_code i = c \<and> moves_by (mi_size i) bs (dispatch en c bs))"
  unfolding dispatch_def known_messages_def
  by (auto intro!: as_variant_moves decoders_move)

lemma dispatch_known:
  assumes "i \<in> set known_messages"
  shows "moves_by (mi_size i) bs (dispatch en (mi_code i) bs)"
proof -
  obtain j where "j \<in> set known_messages" "mi_code j = mi_code i"
    "moves_by (mi_size j) bs (dispatch en (mi_code i) bs)"
    using dispatch_cases [of en "mi_code i" bs] assms by blast
  then show ?thesis
    using known_codes_distinct assms by (metis distinct_map inj_onD)
qed

lemma dispatch_unknown: "c \<notin> mi_code ` set known_messages \<Longrightarrow> dispatch en c bs = None"
  using dispatch_cases [of en c bs] by blast

lemma dispatch_in_buffer: "dispatch en c bs \<noteq> Some None"
  using dispatch_cases [of en c bs] by (auto simp: moves_by_def)

lemma decode_size [cursor_simps]:
  "2 \<le> length bs \<Longrightarrow> unchecked_decode_integer en bs = Some (be_word (take 2 bs) :: u16, drop 2 bs)"
  using decode_u16 [of 0 bs en] by (simp add: field_def numeral_2_eq_2)

lemma unat_be_word_size: "length b = 2 \<Longrightarrow> unat (be_word b :: u16) = be_nat b"
  using be_nat_bound [of b] by (auto simp: be_word_def intro: unat_of_nat_small)

subsection \<open>The queue\<close>

text \<open>
  What the loop relies on: an accepted message is appended to what was pushed so far, a refused one
  leaves it as it is, and a refusal is temporary (the consumer frees a slot after finitely many
  tries, counted by \<open>backlog\<close>).
\<close>

definition fifo_queue :: "(message_type \<Rightarrow> 'q \<Rightarrow> bool \<times> 'q) \<Rightarrow> ('q \<Rightarrow> message_type list)
    \<Rightarrow> ('q \<Rightarrow> nat) \<Rightarrow> bool" where
  "fifo_queue try_push pushed backlog \<longleftrightarrow>
     (\<forall>m q ok q'. try_push m q = (ok, q') \<longrightarrow>
        (if ok then pushed q' = pushed q @ [m]
         else pushed q' = pushed q \<and> backlog q' < backlog q))"

lemma push_message_delivers:
  assumes "fifo_queue try_push pushed backlog"
  shows "\<exists>q' stalls'. push_message try_push m q stalls = Some (q', stalls') \<and> pushed q' = pushed q @ [m]"
proof (induction "backlog q" arbitrary: q stalls rule: less_induct)
  case less
  obtain ok q1 where t: "try_push m q = (ok, q1)" by fastforce
  show ?case
  proof (cases ok)
    case True
    then show ?thesis using t assms by (auto simp: push_message.simps fifo_queue_def)
  next
    case False
    then have q1: "backlog q1 < backlog q" "pushed q1 = pushed q"
      using t assms by (auto simp: fifo_queue_def)
    then show ?thesis
      using less.hyps [OF q1(1), of "stalls + 1"] t False by (auto simp: push_message.simps [of _ _ q])
  qed
qed

subsection \<open>The four outcomes of a call\<close>

lemma empty_header: "length bs = 2 \<Longrightarrow> be_word (take 2 bs) = (0 :: u16) \<longleftrightarrow> bs = [0, 0]"
proof -
  assume "length bs = 2"
  then obtain a b where b: "bs = [a, b]" by (cases bs; cases "tl bs") auto
  have "unat (be_word (take 2 bs) :: u16) = unat b + 256 * unat a"
    using unat_be_word_size [of "take 2 bs"] by (simp add: b be_nat_def)
  then have "be_word (take 2 bs) = (0 :: u16) \<longleftrightarrow> unat b + 256 * unat a = 0"
    by (metis unat_eq_0)
  then show ?thesis by (auto simp: b unat_eq_0)
qed

lemma read_empty_frame: "read_next_message en try_push [0, 0] st q = Some Bad_Access"
  using empty_header [of "[0, 0]"] by (simp add: read_next_message_def decode_size)

text \<open>
  On any bytes a call ends the feed, reads past a header that announces an empty message at the end, or
  goes on behind at least the two bytes of the header, with one message skipped or one pushed.
\<close>

definition goes_on :: "u8 list \<Rightarrow> u8 list \<Rightarrow> bool" where
  "goes_on bs rest \<longleftrightarrow> (\<exists>k. 2 \<le> k \<and> k \<le> length bs \<and> rest = drop k bs)"

lemma read_next_outcome:
  assumes fifo: "fifo_queue try_push pushed backlog"
  shows "(\<exists>k. read_next_message en try_push bs st q = Some (Ended (drop k bs) st q)) \<or>
    (bs = [0, 0] \<and> read_next_message en try_push bs st q = Some Bad_Access) \<or>
    (\<exists>rest. read_next_message en try_push bs st q = Some (Advanced rest (st\<lparr>ms_skipped := ms_skipped st + 1\<rparr>) q) \<and> goes_on bs rest) \<or>
    (\<exists>rest st' q' m. read_next_message en try_push bs st q = Some (Advanced rest st' q') \<and> goes_on bs rest \<and>
       pushed q' = pushed q @ [m] \<and> ms_read st' = ms_read st + 1 \<and> ms_skipped st' = ms_skipped st)"
    (is "?ended \<or> ?bad \<or> ?skipped \<or> ?read")
proof -
  let ?n = "be_word (take 2 bs) :: u16" and ?rest = "drop 2 bs"
  consider (short) "length bs < 2" | (cut) "2 \<le> length bs" "length ?rest < unat ?n"
    | (empty) "2 \<le> length bs" "unat ?n \<le> length ?rest" "?rest = []"
    | (code) b r where "2 \<le> length bs" "unat ?n \<le> length ?rest" "?rest = b # r"
  proof (cases "length bs < 2 \<or> length ?rest < unat ?n")
    case False
    then show thesis using empty code by (cases ?rest) (simp_all only: not_le not_less de_Morgan_disj)
  qed (use short cut in linarith)
  then show ?thesis
  proof cases
    case short
    then have "read_next_message en try_push bs st q = Some (Ended (drop 0 bs) st q)" by (simp add: read_next_message_def)
    then show ?thesis by blast
  next
    case cut
    then have "read_next_message en try_push bs st q = Some (Ended ?rest st q)"
      by (simp add: read_next_message_def decode_size)
    then show ?thesis by blast
  next
    case empty
    then have "length bs = 2" "?n = 0" by (simp_all add: unat_eq_0)
    then have "bs = [0, 0]" using empty_header by blast
    then show ?thesis using read_empty_frame [of en try_push st q] by blast
  next
    case code
    show ?thesis
    proof (cases "dispatch en (byte_char b) (b # r)")
      case None
      have "read_next_message en try_push bs st q =
          Some (Advanced (drop (unat ?n) ?rest) (st\<lparr>ms_skipped := ms_skipped st + 1\<rparr>) q)"
        using code None by (simp add: read_next_message_def decode_size)
      moreover have "goes_on bs (drop (unat ?n) ?rest)"
        using code(1,2) unfolding goes_on_def by (intro exI [of _ "unat ?n + 2"]) (simp add: le_diff_conv2)
      ultimately show ?thesis by blast
    next
      case (Some d)
      then obtain i :: message_info where "moves_by (mi_size i) (b # r) (dispatch en (byte_char b) (b # r))"
        using dispatch_cases [of en "byte_char b" "b # r"] by auto
      then obtain m where "dispatch en (byte_char b) (b # r) =
          Some (Some (m, if mi_size i \<le> length (b # r) then drop (mi_size i) (b # r) else b # r))"
        unfolding moves_by_def by blast
      then have d: "d = Some (m, if mi_size i \<le> length ?rest then drop (mi_size i) ?rest else ?rest)"
        using Some code(3) by simp
      obtain q' k where p: "push_message try_push m q (ms_stall st) = Some (q', k)" "pushed q' = pushed q @ [m]"
        using push_message_delivers [OF fifo] by blast
      have r: "\<exists>st'. read_next_message en try_push bs st q =
          Some (Advanced (if mi_size i \<le> length ?rest then drop (mi_size i) ?rest else ?rest) st' q') \<and>
          ms_read st' = ms_read st + 1 \<and> ms_skipped st' = ms_skipped st"
        using code Some d p(1) by (simp add: read_next_message_def decode_size)
      have "goes_on bs (if mi_size i \<le> length ?rest then drop (mi_size i) ?rest else ?rest)"
        unfolding goes_on_def using code(1)
        by (intro exI [of _ "if mi_size i \<le> length ?rest then mi_size i + 2 else 2"]) auto
      then show ?thesis using r p(2) by blast
    qed
  qed
qed

subsection \<open>Frames\<close>

text \<open>
  A frame of the feed: the length of the body, then the body. A well-formed body is not empty, fits
  the two-byte length, and has the size its code calls for when the code is one the reader decodes.
\<close>

definition frame :: "u8 list \<Rightarrow> u8 list" where
  "frame body = be_bytes 2 (length body) @ body"

definition known_code :: "u8 list \<Rightarrow> bool" where
  "known_code body \<longleftrightarrow> byte_char (hd body) \<in> mi_code ` set known_messages"

definition well_formed_body :: "u8 list \<Rightarrow> bool" where
  "well_formed_body body \<longleftrightarrow> body \<noteq> [] \<and> length body < 2 ^ 16 \<and>
     list_all (\<lambda>i. byte_char (hd body) = mi_code i \<longrightarrow> length body = mi_size i) known_messages"

text \<open>The messages a body stands for: one when its code is known, none otherwise.\<close>

definition decoded :: "endian \<Rightarrow> u8 list \<Rightarrow> message_type list" where
  "decoded en body = (case dispatch en (byte_char (hd body)) body of
     Some (Some (m, _)) \<Rightarrow> [m] | _ \<Rightarrow> [])"

lemmas decoders_append =
  decode_stock_directory_append
  decode_add_order_without_attribution_append
  decode_add_order_with_attribution_append
  decode_order_executed_append
  decode_order_executed_with_price_append
  decode_order_cancel_append
  decode_order_delete_append
  decode_order_replace_append
  decode_trade_cross_append
  decode_trade_non_cross_append
  decode_broken_trade_order_append

lemma as_variant_append:
  "as_variant con (map_option (\<lambda>(ok, m, r). (ok, m, r @ rest)) d) =
     map_option (map_option (\<lambda>(m, r). (m, r @ rest))) (as_variant con d)"
  by (cases d) (auto simp: as_variant_def)

lemma dispatch_codes:
  "dispatch en (mi_code stock_directory) bs = as_variant Stock_directory (decode_stock_directory en bs)"
  "dispatch en (mi_code add_order_without_attribution) bs = as_variant Add_order_without_attribution (decode_add_order_without_attribution en bs)"
  "dispatch en (mi_code add_order_with_attribution) bs = as_variant Add_order_with_attribution (decode_add_order_with_attribution en bs)"
  "dispatch en (mi_code order_executed) bs = as_variant Order_executed (decode_order_executed en bs)"
  "dispatch en (mi_code order_executed_with_price) bs = as_variant Order_executed_with_price (decode_order_executed_with_price en bs)"
  "dispatch en (mi_code order_cancel) bs = as_variant Order_cancel (decode_order_cancel en bs)"
  "dispatch en (mi_code order_delete) bs = as_variant Order_delete (decode_order_delete en bs)"
  "dispatch en (mi_code order_replace) bs = as_variant Order_replace (decode_order_replace en bs)"
  "dispatch en (mi_code trade_cross) bs = as_variant Trade_cross (decode_trade_cross en bs)"
  "dispatch en (mi_code trade_non_cross) bs = as_variant Trade_non_cross (decode_trade_non_cross en bs)"
  "dispatch en (mi_code broken_trade_order) bs = as_variant Broken_trade_order (decode_broken_trade_order en bs)"
  by (simp_all add: dispatch_def tag_defs)

lemma dispatch_append:
  assumes "i \<in> set known_messages" and "length body = mi_size i"
  shows "dispatch en (mi_code i) (body @ rest) =
     map_option (map_option (\<lambda>(m, r). (m, r @ rest))) (dispatch en (mi_code i) body)"
  using assms unfolding known_messages_def
  by (auto simp: dispatch_codes decoders_append as_variant_append)

lemma header_size:
  assumes "length body < 2 ^ 16"
  shows "unat (be_word (be_bytes 2 (length body)) :: u16) = length body"
  using assms by (simp add: unat_be_word_size be_nat_be_bytes)

lemma read_known_frame:
  assumes fifo: "fifo_queue try_push pushed backlog" and wf: "well_formed_body body" and k: "known_code body"
  shows "\<exists>q' st' m. read_next_message en try_push (frame body @ rest) st q = Some (Advanced rest st' q') \<and>
     decoded en body = [m] \<and> pushed q' = pushed q @ [m] \<and>
     ms_read st' = ms_read st + 1 \<and> ms_skipped st' = ms_skipped st"
proof -
  obtain i where i: "i \<in> set known_messages" "byte_char (hd body) = mi_code i"
    using k by (auto simp: known_code_def)
  have len: "length body = mi_size i" and ne: "body \<noteq> []" and lt: "length body < 2 ^ 16"
    using wf i by (auto simp: well_formed_body_def list_all_iff)
  obtain m where m: "dispatch en (mi_code i) body = Some (Some (m, []))"
    using dispatch_known [OF i(1), of body en] len by (auto simp: moves_by_def)
  have d: "dispatch en (mi_code i) (body @ rest) = Some (Some (m, rest))"
    using dispatch_append [OF i(1) len, of en rest] m by simp
  obtain q' stalls' where p: "push_message try_push m q (ms_stall st) = Some (q', stalls')"
    "pushed q' = pushed q @ [m]"
    using push_message_delivers [OF fifo] by blast
  obtain b bs where b: "body = b # bs" using ne by (cases body) auto
  then show ?thesis
    using i(2) d p m header_size [OF lt]
    by (simp add: read_next_message_def frame_def decode_size decoded_def)
qed

lemma read_unknown_frame:
  assumes wf: "well_formed_body body" and k: "\<not> known_code body"
  shows "read_next_message en try_push (frame body @ rest) st q =
     Some (Advanced rest (st\<lparr>ms_skipped := ms_skipped st + 1\<rparr>) q)"
    and "decoded en body = []"
proof -
  have ne: "body \<noteq> []" and lt: "length body < 2 ^ 16"
    using wf by (auto simp: well_formed_body_def)
  obtain b bs where b: "body = b # bs" using ne by (cases body) auto
  have d: "dispatch en (byte_char b) bs' = None" for bs'
    using k b dispatch_unknown by (simp add: known_code_def)
  show "read_next_message en try_push (frame body @ rest) st q =
     Some (Advanced rest (st\<lparr>ms_skipped := ms_skipped st + 1\<rparr>) q)"
    using d b header_size [OF lt] by (simp add: read_next_message_def frame_def decode_size)
  show "decoded en body = []"
    using d b by (simp add: decoded_def)
qed

text \<open>A reader that calls \<open>read_next_message\<close> until it returns false, at most \<open>n\<close> times.\<close>

fun read_all :: "nat \<Rightarrow> endian \<Rightarrow> (message_type \<Rightarrow> 'q \<Rightarrow> bool \<times> 'q) \<Rightarrow> u8 list
    \<Rightarrow> messages_status \<Rightarrow> 'q \<Rightarrow> (u8 list \<times> messages_status \<times> 'q) option" where
  "read_all 0 en try_push bs st q = None"
| "read_all (Suc n) en try_push bs st q =
     (case read_next_message en try_push bs st q of
        Some (Ended bs' st' q') \<Rightarrow> Some (bs', st', q')
      | Some (Advanced bs' st' q') \<Rightarrow> read_all n en try_push bs' st' q'
      | Some Bad_Access \<Rightarrow> None
      | None \<Rightarrow> None)"

lemma read_all_step:
  "read_next_message en try_push bs st q = Some (Advanced bs' st' q') \<Longrightarrow>
   read_all (Suc n) en try_push bs st q = read_all n en try_push bs' st' q'"
  by simp

lemma read_all_frames:
  assumes fifo: "fifo_queue try_push pushed backlog" and "list_all well_formed_body bodies"
  shows "\<exists>st' q'. read_all (length bodies + n) en try_push (concat (map frame bodies) @ tail) st q = read_all n en try_push tail st' q' \<and>
     pushed q' = pushed q @ concat (map (decoded en) bodies) \<and>
     ms_read st' = ms_read st + of_nat (length (filter known_code bodies)) \<and>
     ms_skipped st' = ms_skipped st + of_nat (length (filter (\<lambda>b. \<not> known_code b) bodies))"
  using assms(2)
proof (induction bodies arbitrary: st q)
  case Nil
  show ?case by auto
next
  case (Cons body bodies)
  then have wf: "well_formed_body body" and rest: "list_all well_formed_body bodies" by simp_all
  let ?rest = "concat (map frame bodies) @ tail"
  show ?case
  proof (cases "known_code body")
    case True
    then obtain q1 st1 m where r: "read_next_message en try_push (frame body @ ?rest) st q = Some (Advanced ?rest st1 q1)"
      "decoded en body = [m]" "pushed q1 = pushed q @ [m]" "ms_read st1 = ms_read st + 1" "ms_skipped st1 = ms_skipped st"
      using read_known_frame [OF fifo wf True] by blast
    show ?thesis
      using Cons.IH [OF rest, of st1 q1] read_all_step [OF r(1), of "length bodies + n"] r(2-5) True
      by (auto simp: ac_simps simp del: read_all.simps)
  next
    case False
    show ?thesis
      using Cons.IH [OF rest, of "st\<lparr>ms_skipped := ms_skipped st + 1\<rparr>" q] False
        read_all_step [OF read_unknown_frame(1) [OF wf False], of "length bodies + n" en try_push ?rest st q]
        read_unknown_frame(2) [OF wf False, of en]
      by (auto simp: ac_simps simp del: read_all.simps)
  qed
qed

lemma read_cut_frame:
  assumes "length body < 2 ^ 16" and "k < length (frame body)"
  shows "read_next_message en try_push (take k (frame body)) st q =
    Some (Ended (if k < 2 then take k (frame body) else take (k - 2) body) st q)"
proof (cases "k < 2")
  case False
  then have "take k (frame body) = be_bytes 2 (length body) @ take (k - 2) body"
    by (simp add: frame_def)
  then show ?thesis
    using assms False header_size [OF assms(1)] by (simp add: read_next_message_def decode_size frame_def)
qed (use assms in \<open>simp add: read_next_message_def\<close>)

text \<open>On any bytes the reader stops, because every call that goes on takes at least the header.\<close>

lemma read_all_drains:
  assumes fifo: "fifo_queue try_push pushed backlog"
  shows "drop (length bs - 2) bs \<noteq> [0, 0] \<Longrightarrow> length bs < 2 * n \<Longrightarrow>
    \<exists>k st' q' ms skipped. read_all n en try_push bs st q = Some (drop k bs, st', q') \<and>
      pushed q' = pushed q @ ms \<and> ms_read st' = ms_read st + of_nat (length ms) \<and>
      ms_skipped st' = ms_skipped st + of_nat skipped \<and> 2 * (length ms + skipped) \<le> length bs"
proof (induction n arbitrary: bs st q)
  case (Suc n)
  let ?r = "read_next_message en try_push bs st q"
  have step: "\<exists>k st' q' ms skipped. read_all n en try_push rest st1 q1 = Some (drop k bs, st', q') \<and>
      pushed q' = pushed q1 @ ms \<and> ms_read st' = ms_read st1 + of_nat (length ms) \<and>
      ms_skipped st' = ms_skipped st1 + of_nat skipped \<and> 2 * (length ms + skipped) + 2 \<le> length bs"
    if g: "goes_on bs rest" for rest st1 q1
  proof -
    obtain k where k: "2 \<le> k" "k \<le> length bs" "rest = drop k bs" using g by (auto simp: goes_on_def)
    have "drop (length rest - 2) rest \<noteq> [0, 0]"
    proof
      assume last: "drop (length rest - 2) rest = [0, 0]"
      then have "length (drop (length rest - 2) rest) = 2" by simp
      then have "length rest - 2 + k = length bs - 2" using k by simp
      then show False using last Suc.prems(1) k(3) by simp
    qed
    moreover have "length rest < 2 * n" using k Suc.prems(2) by simp
    ultimately obtain j st' q' ms skipped where "read_all n en try_push rest st1 q1 = Some (drop j rest, st', q')"
      "pushed q' = pushed q1 @ ms" "ms_read st' = ms_read st1 + of_nat (length ms)"
      "ms_skipped st' = ms_skipped st1 + of_nat skipped" "2 * (length ms + skipped) \<le> length rest"
      using Suc.IH [of rest st1 q1] by blast
    then show ?thesis using k by (intro exI [of _ "j + k"] exI [of _ st'] exI [of _ q'] exI [of _ ms] exI [of _ skipped]) simp
  qed
  from read_next_outcome [OF fifo, of en bs st q] show ?case
  proof (elim disjE exE conjE)
    fix k assume "read_next_message en try_push bs st q = Some (Ended (drop k bs) st q)"
    then show ?thesis by (intro exI [of _ k] exI [of _ st] exI [of _ q] exI [of _ "[]"] exI [of _ 0]) simp
  next
    assume "bs = [0, 0]"
    then show ?thesis using Suc.prems(1) by simp
  next
    fix rest
    assume r: "read_next_message en try_push bs st q = Some (Advanced rest (st\<lparr>ms_skipped := ms_skipped st + 1\<rparr>) q)"
      and g: "goes_on bs rest"
    from step [OF g, of "st\<lparr>ms_skipped := ms_skipped st + 1\<rparr>" q] obtain k st' q' ms skipped where
      "read_all n en try_push rest (st\<lparr>ms_skipped := ms_skipped st + 1\<rparr>) q = Some (drop k bs, st', q')"
      "pushed q' = pushed q @ ms" "ms_read st' = ms_read st + of_nat (length ms)"
      "ms_skipped st' = ms_skipped st + 1 + of_nat skipped" "2 * (length ms + skipped) + 2 \<le> length bs" by auto
    then show ?thesis
      by (intro exI [of _ k] exI [of _ st'] exI [of _ q'] exI [of _ ms] exI [of _ "Suc skipped"])
        (simp add: r ac_simps)
  next
    fix rest st1 q1 m
    assume r: "read_next_message en try_push bs st q = Some (Advanced rest st1 q1)" and g: "goes_on bs rest"
      and one: "pushed q1 = pushed q @ [m]" "ms_read st1 = ms_read st + 1" "ms_skipped st1 = ms_skipped st"
    from step [OF g, of st1 q1] obtain k st' q' ms skipped where
      "read_all n en try_push rest st1 q1 = Some (drop k bs, st', q')"
      "pushed q' = pushed q1 @ ms" "ms_read st' = ms_read st1 + of_nat (length ms)"
      "ms_skipped st' = ms_skipped st1 + of_nat skipped" "2 * (length ms + skipped) + 2 \<le> length bs" by blast
    then show ?thesis
      by (intro exI [of _ k] exI [of _ st'] exI [of _ q'] exI [of _ "m # ms"] exI [of _ skipped])
        (simp add: r one ac_simps)
  qed
qed simp

subsection \<open>A feed is delivered in order\<close>

definition list_queue :: "nat \<Rightarrow> message_type \<Rightarrow> nat \<times> message_type list \<Rightarrow> bool \<times> nat \<times> message_type list" where
  "list_queue k m q = (if fst q = 0 then (True, k, snd q @ [m]) else (False, fst q - 1, snd q))"

lemma list_queue_fifo: "fifo_queue (list_queue k) snd fst"
  by (auto simp: fifo_queue_def list_queue_def)

text \<open>C14: Reading a buffer of well-formed frames to its end consumes the whole buffer, pushes exactly the
  decoded messages of the known codes, in the order of the buffer, and counts each frame once, as read or
  as skipped, however often a full queue refuses a message on the way.\<close>

theorem feed_delivered_in_order:
  assumes "fifo_queue try_push pushed backlog" and "list_all well_formed_body bodies"
  shows "\<exists>st' q'. read_all (Suc (length bodies)) en try_push (concat (map frame bodies)) st q = Some ([], st', q') \<and>
     pushed q' = pushed q @ concat (map (decoded en) bodies) \<and>
     ms_read st' = ms_read st + of_nat (length (filter known_code bodies)) \<and>
     ms_skipped st' = ms_skipped st + of_nat (length (filter (\<lambda>b. \<not> known_code b) bodies))"
  using read_all_frames [OF assms, of 1 en "[]" st q] by (auto simp: read_next_message_def)

definition delete_body :: "u8 list" where
  "delete_body = [68, 0, 1, 0, 0, 0, 0, 0, 0, 0, 5, 0, 0, 0, 0, 0, 0, 0, 9]"

definition system_body :: "u8 list" where
  "system_body = [83, 0, 0]"

lemma sample_codes: "byte_char 68 = CHR ''D''" "byte_char 83 = CHR ''S''"
  by code_simp+

lemma sample_bodies: "list_all well_formed_body [delete_body, system_body]" "known_code delete_body" "\<not> known_code system_body"
  by (simp_all add: well_formed_body_def known_code_def delete_body_def system_body_def sample_codes known_messages_def
      tag_defs size_defs)

theorem feed_delivered_in_order_witness:
  "\<exists>st' q'. read_all 3 Little_Endian (list_queue 2) (frame delete_body @ frame system_body) messages_status_init (1, []) = Some ([], st', q') \<and>
     ms_read st' = 1 \<and> ms_skipped st' = 1"
  using feed_delivered_in_order [OF list_queue_fifo sample_bodies(1), of Little_Endian 2 messages_status_init "(1, [])"]
    sample_bodies(2,3) by (auto simp: messages_status_init_def numeral_3_eq_3 simp del: read_all.simps)

subsection \<open>One message\<close>

text \<open>C16: For every message the reader knows, decoding a buffer with at least the message's size reads
  exactly that many bytes, on a host of either byte order; a shorter buffer moves nothing; no decoder
  reads outside the buffer, and any other code decodes nothing. The code stands for one message only.\<close>

theorem dispatch_reads_its_size:
  "(if c \<in> mi_code ` set known_messages
    then \<exists>i m. i \<in> set known_messages \<and> mi_code i = c \<and> filter (\<lambda>p. fst p = c) code_to_message_map = [(c, i)] \<and>
      dispatch en c bs = Some (Some (m, if mi_size i \<le> length bs then drop (mi_size i) bs else bs))
    else dispatch en c bs = None)"
proof (cases "c \<in> mi_code ` set known_messages")
  case True
  then obtain i where i: "i \<in> set known_messages" "mi_code i = c" by auto
  have "i \<in> set complete_list" using i(1) by (auto simp: known_messages_def complete_list_def)
  then have "filter (\<lambda>p. fst p = c) code_to_message_map = [(c, i)]" using code_to_message_map_entry [of i] i(2) by simp
  then show ?thesis using True i dispatch_known [OF i(1), of bs en] by (auto simp: moves_by_def)
qed (simp add: dispatch_unknown)

text \<open>C31: The reader checks the frame's length before the message, so it reads outside its buffer in one
  case only: a header that announces an empty message at the very end of the buffer, whose code is then
  read past the end.\<close>

theorem bad_access_iff:
  assumes "fifo_queue try_push pushed backlog"
  shows "read_next_message en try_push bs st q = Some Bad_Access \<longleftrightarrow> bs = [0, 0]"
  using read_next_outcome [OF assms, of en bs st q] read_empty_frame [of en try_push st q]
  by (cases "bs = [0, 0]") auto

theorem bad_access_iff_witness:
  "read_next_message Little_Endian (list_queue 0) [0, 0] messages_status_init (0, []) = Some Bad_Access"
  using bad_access_iff [OF list_queue_fifo] by blast

subsection \<open>Feeds of any bytes\<close>

text \<open>C15: On any bytes at all, but a buffer that ends in a header of an empty message, a reader that calls until
  the feed ends does end: half as many calls as there are bytes, and one more, are enough, the messages
  are pushed behind the ones before, each is counted once, and no byte is used for two of them.\<close>

theorem reader_ends_on_any_bytes:
  assumes "fifo_queue try_push pushed backlog" and "drop (length bs - 2) bs \<noteq> [0, 0]"
  shows "\<exists>k st' q' ms skipped. read_all (length bs div 2 + 1) en try_push bs st q = Some (drop k bs, st', q') \<and>
    pushed q' = pushed q @ ms \<and> ms_read st' = ms_read st + of_nat (length ms) \<and>
    ms_skipped st' = ms_skipped st + of_nat skipped \<and> 2 * (length ms + skipped) \<le> length bs"
  using assms by (intro read_all_drains) simp_all

theorem reader_ends_on_any_bytes_witness:
  "\<exists>k st' q' ms. read_all 4 Big_Endian (list_queue 3) [0, 1, 68, 0, 0, 7] messages_status_init (2, []) =
       Some (drop k [0, 1, 68, 0, 0, 7], st', q') \<and> snd q' = ms \<and> length ms \<le> 3"
proof -
  let ?bs = "[0, 1, 68, 0, 0, 7] :: u8 list"
  have last: "drop (length ?bs - 2) ?bs \<noteq> [0, 0]" and calls: "length ?bs div 2 + 1 = 4" and len: "length ?bs = 6" by simp_all
  show ?thesis
    using reader_ends_on_any_bytes [OF list_queue_fifo last, of Big_Endian 3 messages_status_init "(2, [])"]
    unfolding calls len by fastforce
qed

text \<open>C30: When a buffer ends inside a frame, the frames before it are all delivered; of the cut frame at most one
  byte of its length stays with what is left, or its beginning without the length, so that a reader that
  goes on with more bytes takes the message for a length.\<close>

theorem cut_frame_loses_its_length:
  assumes "fifo_queue try_push pushed backlog" and "list_all well_formed_body bodies" and "well_formed_body body"
    and "k < length (frame body)"
  shows "\<exists>st' q'. read_all (Suc (length bodies)) en try_push (concat (map frame bodies) @ take k (frame body)) st q =
      Some (if k < 2 then take k (frame body) else take (k - 2) body, st', q') \<and>
    pushed q' = pushed q @ concat (map (decoded en) bodies)"
proof -
  have fits: "length body < 2 ^ 16" using assms(3) by (simp add: well_formed_body_def)
  obtain st' q' where r: "read_all (Suc (length bodies)) en try_push (concat (map frame bodies) @ take k (frame body)) st q =
      read_all 1 en try_push (take k (frame body)) st' q'" "pushed q' = pushed q @ concat (map (decoded en) bodies)"
    using read_all_frames [OF assms(1,2), of 1 en "take k (frame body)" st q] by auto
  moreover have "read_all 1 en try_push (take k (frame body)) st' q' =
      Some (if k < 2 then take k (frame body) else take (k - 2) body, st', q')"
    by (simp add: read_cut_frame [OF fits assms(4)])
  ultimately show ?thesis by auto
qed

theorem cut_frame_loses_its_length_witness:
  "\<exists>st' q'. read_all 2 Little_Endian (list_queue 0) (frame system_body @ take 4 (frame delete_body)) messages_status_init (0, []) =
     Some ([68, 0], st', q')"
proof -
  have "list_all well_formed_body [system_body]" "well_formed_body delete_body" "4 < length (frame delete_body)"
    using sample_bodies by (simp_all add: frame_def delete_body_def)
  from cut_frame_loses_its_length [OF list_queue_fifo this, of Little_Endian 0 messages_status_init "(0, [])"]
  show ?thesis by (auto simp: delete_body_def numeral_2_eq_2 simp del: read_all.simps)
qed

end
