(* ===== verification/Muldiv.thy ===== *)
theory Muldiv imports
  Prelude
begin

section \<open>Muldiv: a product divided without a wider type\<close>

text \<open>
  \<open>muldiv64\<close> of \<open>src/src/utils/utils.cpp\<close> computes \<open>a * b / c\<close> in 64 bits: with 128-bit integers
  where the compiler has them, and by a long division in base \<open>2 ^ 32\<close> on Windows. The integers
  are natural numbers with the wrap-around of \<open>uint64_t\<close> written out: \<open>wrap64\<close> after an operation that
  can leave the range, \<open>wrap_sub\<close> for a subtraction. The theory proves the two bodies equal.
\<close>

subsection \<open>The two bodies\<close>

definition wrap64 :: "nat \<Rightarrow> nat" where
  "wrap64 x = x mod 2 ^ 64"

definition wrap_sub :: "nat \<Rightarrow> nat \<Rightarrow> nat" where
  "wrap_sub x y = (x + (2 ^ 64 - y mod 2 ^ 64)) mod 2 ^ 64"

definition base32 :: nat where
  "base32 = 2 ^ 32"

definition muldiv64_wide :: "nat \<Rightarrow> nat \<Rightarrow> nat \<Rightarrow> nat" where
  "muldiv64_wide a b c = wrap64 (a * b div c)"

text \<open>The loop that corrects an estimated digit.\<close>

function adjust :: "nat \<Rightarrow> nat \<Rightarrow> nat \<Rightarrow> nat \<Rightarrow> nat \<Rightarrow> nat" where
  "adjust q rhat ch cl p =
     (if base32 \<le> q \<or> (rhat < base32 \<and> wrap64 (rhat * base32 + p) < wrap64 (q * cl))
      then adjust (wrap_sub q 1) (wrap64 (rhat + ch)) ch cl p
      else q)"
  by pat_completeness auto

lemma wrap_sub_1_less: "0 < q \<Longrightarrow> wrap_sub q 1 < q"
proof -
  assume q: "0 < q"
  have e: "q + (2 ^ 64 - 1 mod 2 ^ 64) = (q - 1) + 2 ^ 64" using q by simp
  have "wrap_sub q 1 = (q - 1) mod 2 ^ 64" unfolding wrap_sub_def e by simp
  also have "\<dots> \<le> q - 1" by (rule mod_less_eq_dividend)
  finally show ?thesis using q by simp
qed

termination adjust
proof (relation "measure (\<lambda>(q, rhat, ch, cl, p). q)")
  fix q rhat ch cl p
  assume c: "base32 \<le> q \<or> (rhat < base32 \<and> wrap64 (rhat * base32 + p) < wrap64 (q * cl))"
  then have "0 < q" by (cases "q = 0") (simp_all add: base32_def wrap64_def)
  then show "((wrap_sub q 1, wrap64 (rhat + ch), ch, cl, p), q, rhat, ch, cl, p) \<in> measure (\<lambda>(q, rhat, ch, cl, p). q)"
    using wrap_sub_1_less [of q] by simp
qed simp

declare adjust.simps [simp del]

definition muldiv64_long :: "nat \<Rightarrow> nat \<Rightarrow> nat \<Rightarrow> nat" where
  "muldiv64_long a b c =
     (let maxdiv = (base32 - 1) * base32 + (base32 - 1);
          res = wrap64 (wrap64 (a div c * b) + wrap64 (a mod c * (b div c)));
          a = a mod c;
          b = b mod c
      in if a = 0 \<or> b = 0 then res
         else if c < base32 then wrap64 (res + wrap64 (a * b) div c)
         else let
           norm = maxdiv div c;
           c = wrap64 (c * norm);
           a = wrap64 (a * norm);
           ah = a div base32; al = a mod base32;
           bh = b div base32; bl = b mod base32;
           ch = c div base32; cl = c mod base32;
           p0 = wrap64 (al * bl);
           p1 = wrap64 (p0 div base32 + wrap64 (al * bh));
           p0 = p0 mod base32;
           p2 = wrap64 (p1 div base32 + wrap64 (ah * bh));
           p1 = wrap64 (p1 mod base32 + wrap64 (ah * bl));
           p2 = wrap64 (p2 + p1 div base32);
           p1 = p1 mod base32;
           p2 = p2 mod c;
           q1 = adjust (p2 div ch) (p2 mod ch) ch cl p1;
           p1 = wrap_sub (wrap64 (wrap64 (p2 mod base32 * base32) + p1)) (wrap64 (q1 * cl));
           p2 = wrap_sub (wrap64 (p2 div base32 * base32 + p1 div base32)) (wrap64 (q1 * ch));
           p1 = wrap64 (p1 mod base32 + wrap64 (p2 mod base32 * base32));
           q0 = adjust (p1 div ch) (p1 mod ch) ch cl p0
         in wrap64 (wrap64 (res + q0) + wrap64 (q1 * base32)))"

subsection \<open>One digit of the quotient\<close>

lemma wrap64_id: "x < 2 ^ 64 \<Longrightarrow> wrap64 x = x"
  by (simp add: wrap64_def)

lemma adjust_correct:
  assumes c: "c = ch * base32 + cl" "cl < base32" "0 < ch"
    and p: "p < base32" and n: "n < 2 ^ 64" "n < c" and inv: "q * ch + rhat = n" and ge: "(n * base32 + p) div c \<le> q"
  shows "adjust q rhat ch cl p = (n * base32 + p) div c"
  using inv ge
proof (induction q arbitrary: rhat)
  case 0
  then have "(n * base32 + p) div c = 0" by simp
  moreover have "adjust 0 rhat ch cl p = 0"
    by (subst adjust.simps) (simp add: base32_def wrap64_def)
  ultimately show ?case by simp
next
  case (Suc q)
  let ?Q = "(n * base32 + p) div c"
  have "n * base32 + p < c * base32"
  proof -
    have "(n + 1) * base32 \<le> c * base32" using n(2) by (intro mult_right_mono) simp_all
    then show ?thesis using p by simp
  qed
  then have Q: "?Q < base32" using c by (simp add: less_mult_imp_div_less mult.commute)
  have q64: "Suc q < 2 ^ 64"
  proof -
    have "Suc q * 1 \<le> Suc q * ch" using c(3) by (intro mult_le_mono2) simp
    then have "Suc q \<le> Suc q * ch" by (simp only: mult_1_right)
    also have "\<dots> \<le> n" using Suc.prems(1) by (metis le_add1)
    finally show ?thesis using n(1) by simp
  qed
  have too_big: "?Q < Suc q \<longleftrightarrow> n * base32 + p < Suc q * c"
    using c(1,3) by (subst div_less_iff_less_mult) (simp_all add: base32_def)
  have rel: "Suc q * c + rhat * base32 = n * base32 + Suc q * cl"
    unfolding c(1) Suc.prems(1) [symmetric] by (simp add: algebra_simps)
  let ?cond = "base32 \<le> Suc q \<or> (rhat < base32 \<and> wrap64 (rhat * base32 + p) < wrap64 (Suc q * cl))"
  have cond: "?cond \<longleftrightarrow> ?Q < Suc q"
  proof (cases "base32 \<le> Suc q")
    case True
    then show ?thesis using Q by simp
  next
    case False
    then have small: "Suc q * cl < base32 * base32" using c(2) by (intro mult_strict_mono) simp_all
    then have w: "wrap64 (Suc q * cl) = Suc q * cl" by (intro wrap64_id) (simp add: base32_def)
    show ?thesis
    proof (cases "rhat < base32")
      case True
      then have "(rhat + 1) * base32 \<le> base32 * base32" by (intro mult_right_mono) simp_all
      then have "rhat * base32 + p < base32 * base32" using p by simp
      then have "wrap64 (rhat * base32 + p) = rhat * base32 + p" by (intro wrap64_id) (simp add: base32_def)
      then show ?thesis using False True w too_big rel by linarith
    next
      case r: False
      then have "base32 * base32 \<le> rhat * base32" by (intro mult_right_mono) simp_all
      then have "\<not> n * base32 + p < Suc q * c" using small rel by linarith
      then show ?thesis using False r too_big by simp
    qed
  qed
  show ?case
  proof (cases "?Q < Suc q")
    case True
    have r: "q * ch + (rhat + ch) = n" using Suc.prems(1) by simp
    have "wrap64 (rhat + ch) = rhat + ch" using r n(1) by (intro wrap64_id) linarith
    moreover have "wrap_sub (Suc q) 1 = q" using q64 by (simp add: wrap_sub_def)
    moreover have "adjust (Suc q) rhat ch cl p = adjust (wrap_sub (Suc q) 1) (wrap64 (rhat + ch)) ch cl p"
      by (subst adjust.simps) (rule if_P [OF cond [THEN iffD2, OF True]])
    ultimately have "adjust (Suc q) rhat ch cl p = adjust q (rhat + ch) ch cl p" by simp
    then show ?thesis using Suc.IH [OF r] True by simp
  next
    case False
    then have nc: "\<not> ?cond" using cond by blast
    have "adjust (Suc q) rhat ch cl p = Suc q" by (subst adjust.simps) (rule if_not_P [OF nc])
    then show ?thesis using False Suc.prems(2) by simp
  qed
qed

text \<open>The estimate from the leading digit of the divisor is never too small.\<close>

lemma digit_correct:
  assumes "c = ch * base32 + cl" "cl < base32" "0 < ch" "p < base32" "n < 2 ^ 64" "n < c"
  shows "adjust (n div ch) (n mod ch) ch cl p = (n * base32 + p) div c"
proof (rule adjust_correct [OF assms])
  have "(n * base32 + p) div c \<le> (n * base32 + p) div (ch * base32)"
    using assms(1,3) by (intro div_le_mono2) (simp_all add: base32_def)
  also have "\<dots> = (n * base32 + p) div base32 div ch" by (simp add: mult.commute div_mult2_eq)
  also have "\<dots> = n div ch" using assms(4) by simp
  finally show "(n * base32 + p) div c \<le> n div ch" .
qed simp


subsection \<open>The product and the subtraction\<close>

text \<open>The schoolbook product of two numbers of two digits, as the three values the code keeps.\<close>

lemma base32_pos: "0 < base32"
  by (simp add: base32_def)

lemma base32_square: "base32 * base32 = 2 ^ 64"
  by (simp add: base32_def)

lemma digit_mult: "x < base32 \<Longrightarrow> y < base32 \<Longrightarrow> z < base32 \<Longrightarrow> z + x * y < 2 ^ 64"
proof -
  assume a: "x < base32" "y < base32" "z < base32"
  have "x * y \<le> (base32 - 1) * (base32 - 1)" using a by (intro mult_mono) simp_all
  then have "z + x * y \<le> (base32 - 1) + (base32 - 1) * (base32 - 1)" using a by linarith
  then show ?thesis by (simp add: base32_def)
qed

lemma high_digit: "x < 2 ^ 64 \<Longrightarrow> x div base32 < base32"
  by (simp add: less_mult_imp_div_less base32_def)

lemma product_digits:
  assumes a: "a < 2 ^ 64" and b: "b < 2 ^ 64"
  defines "ah \<equiv> a div base32" and "al \<equiv> a mod base32" and "bh \<equiv> b div base32" and "bl \<equiv> b mod base32"
  defines "p0 \<equiv> wrap64 (al * bl)"
  defines "p1 \<equiv> wrap64 (p0 div base32 + wrap64 (al * bh))"
  defines "p2 \<equiv> wrap64 (p1 div base32 + wrap64 (ah * bh))"
  defines "p1' \<equiv> wrap64 (p1 mod base32 + wrap64 (ah * bl))"
  defines "p2' \<equiv> wrap64 (p2 + p1' div base32)"
  shows "a * b = (p2' * base32 + p1' mod base32) * base32 + p0 mod base32"
proof -
  have d: "ah < base32" "al < base32" "bh < base32" "bl < base32"
    using a b base32_pos by (simp_all add: ah_def al_def bh_def bl_def high_digit)
  have small: "x * y < 2 ^ 64" if "x < base32" "y < base32" for x y
    using digit_mult [OF that base32_pos] by simp
  have e0: "p0 = al * bl" unfolding p0_def using d by (intro wrap64_id small)
  have p0: "p0 < 2 ^ 64" unfolding e0 using d by (intro small)
  have e1: "p1 = p0 div base32 + al * bh"
    unfolding p1_def wrap64_id [OF small [OF d(2,3)]] using d p0 by (intro wrap64_id digit_mult high_digit)
  have p1: "p1 < 2 ^ 64" unfolding e1 using d p0 by (intro digit_mult high_digit)
  have e2: "p2 = p1 div base32 + ah * bh"
    unfolding p2_def wrap64_id [OF small [OF d(1,3)]] using d p1 by (intro wrap64_id digit_mult high_digit)
  have e1': "p1' = p1 mod base32 + ah * bl"
    unfolding p1'_def wrap64_id [OF small [OF d(1,4)]]
    using d base32_pos by (intro wrap64_id digit_mult mod_less_divisor)
  have split: "p0 = p0 div base32 * base32 + p0 mod base32" "p1 = p1 div base32 * base32 + p1 mod base32"
    "p1' = p1' div base32 * base32 + p1' mod base32" "a = ah * base32 + al" "b = bh * base32 + bl"
    by (simp_all add: ah_def al_def bh_def bl_def)
  define h0 l0 h1 l1 h1' l1' where "h0 = p0 div base32" and "l0 = p0 mod base32" and "h1 = p1 div base32"
    and "l1 = p1 mod base32" and "h1' = p1' div base32" and "l1' = p1' mod base32"
  have eqs: "al * bl = h0 * base32 + l0" "h0 + al * bh = h1 * base32 + l1" "l1 + ah * bl = h1' * base32 + l1'"
    using split(1-3) e0 e1 e1' unfolding h0_def l0_def h1_def l1_def h1'_def l1'_def by metis+
  have prod: "a * b = ((p2 + h1') * base32 + l1') * base32 + l0"
  proof -
    have "a * b = (ah * bh) * base32 * base32 + (ah * bl + al * bh) * base32 + al * bl"
      unfolding split(4,5) by (simp add: algebra_simps)
    also have "\<dots> = (ah * bh) * base32 * base32 + (ah * bl + (h0 + al * bh)) * base32 + l0"
      unfolding eqs(1) by (simp add: algebra_simps)
    also have "\<dots> = (h1 + ah * bh) * base32 * base32 + (l1 + ah * bl) * base32 + l0"
      unfolding eqs(2) by (simp add: algebra_simps)
    also have "\<dots> = ((p2 + h1') * base32 + l1') * base32 + l0"
      unfolding eqs(3) e2 h1_def by (simp add: algebra_simps)
    finally show ?thesis .
  qed
  have "(p2 + h1') * (base32 * base32) \<le> a * b" unfolding prod by (simp add: algebra_simps)
  also have "\<dots> < 2 ^ 64 * 2 ^ 64" using a b by (intro mult_strict_mono) simp_all
  finally have "p2 + h1' < 2 ^ 64" unfolding base32_square by simp
  then show ?thesis using prod by (simp add: p2'_def wrap64_id h1'_def l1'_def l0_def)
qed

text \<open>The remainder after the first digit; the words are compared as residues modulo \<open>2 ^ 64\<close>.\<close>

lemma int_wrap_sub: "int (wrap_sub x y) = (int x - int y) mod 2 ^ 64"
proof -
  have le: "y mod 2 ^ 64 \<le> 2 ^ 64" by (simp add: less_imp_le)
  have "int (wrap_sub x y) = (int x + (2 ^ 64 - int y mod 2 ^ 64)) mod 2 ^ 64"
    unfolding wrap_sub_def zmod_int of_nat_add of_nat_diff [OF le] by (simp add: zmod_int)
  also have "\<dots> = (int x - int y mod 2 ^ 64) mod 2 ^ 64"
    using mod_add_self2 [of "int x - int y mod 2 ^ 64" "2 ^ 64"] by (simp add: algebra_simps)
  also have "\<dots> = (int x - int y) mod 2 ^ 64" by (simp only: mod_diff_right_eq)
  finally show ?thesis .
qed

lemma int_wrap_sub_wrap64: "int (wrap_sub (wrap64 x) (wrap64 y)) = (int x - int y) mod 2 ^ 64"
  unfolding int_wrap_sub wrap64_def zmod_int of_nat_power of_nat_numeral by (rule mod_diff_eq)

lemma wrap_sub_mod_base32:
  "int (wrap_sub (wrap64 x) (wrap64 y) mod base32) = (int x - int y) mod int base32"
proof -
  have "int base32 dvd 2 ^ 64" by (simp add: base32_def)
  then show ?thesis unfolding zmod_int int_wrap_sub_wrap64 by (rule mod_mod_cancel)
qed

lemma remainder_digit:
  assumes p: "p < base32" "n < 2 ^ 64" and c: "c = ch * base32 + cl" and c64: "c < 2 ^ 64"
    and q: "q * c \<le> n * base32 + p" "n * base32 + p < (q + 1) * c"
  defines "p1 \<equiv> wrap_sub (wrap64 (wrap64 (n mod base32 * base32) + p)) (wrap64 (q * cl))"
  defines "p2 \<equiv> wrap_sub (wrap64 (n div base32 * base32 + p1 div base32)) (wrap64 (q * ch))"
  shows "wrap64 (p1 mod base32 + wrap64 (p2 mod base32 * base32)) = n * base32 + p - q * c"
proof -
  let ?B = "int base32"
  define X Y R where "X = int (n mod base32) * ?B + int p" and "Y = int q * int cl"
    and "R = int (n * base32 + p - q * c)"
  have BB: "(2::int) ^ 64 = ?B * ?B" by (simp add: base32_def)
  have B: "0 < ?B" by (simp add: base32_def)
  have "n mod base32 * base32 \<le> (base32 - 1) * base32" using base32_pos by (intro mult_right_mono) (simp_all add: Suc_le_eq flip: less_Suc_eq_le)
  then have small: "n mod base32 * base32 + p < 2 ^ 64" using p(1) by (simp add: base32_def)
  then have "int p1 = (int (n mod base32 * base32 + p) - int (q * cl)) mod 2 ^ 64"
    unfolding p1_def int_wrap_sub by (simp add: wrap64_id) (simp add: wrap64_def zmod_int mod_diff_right_eq)
  then have p1: "int p1 = (X - Y) mod (?B * ?B)" 
    unfolding X_def Y_def BB [symmetric] by simp
  have p1_mod: "int (p1 mod base32) = (X - Y) mod ?B"
    unfolding zmod_int p1 by (simp add: mod_mod_cancel)
  have "int (p1 div base32) = (X - Y) mod (?B * ?B) div ?B" by (simp add: zdiv_int p1)
  also have "\<dots> = (X - Y) div ?B mod ?B" using B by (simp add: zmod_zmult2_eq)
  finally have p1_div: "int (p1 div base32) = (X - Y) div ?B mod ?B" .
  have "int (p2 mod base32) = (int (n div base32) * ?B + int (p1 div base32) - int q * int ch) mod ?B"
    unfolding p2_def wrap_sub_mod_base32 by simp
  also have "\<dots> = (int (n div base32) * ?B + (X - Y) div ?B - int q * int ch) mod ?B"
    unfolding p1_div by (intro mod_diff_cong mod_add_cong refl mod_mod_trivial)
  finally have p2: "int (p2 mod base32) = (int (n div base32) * ?B + (X - Y) div ?B - int q * int ch) mod ?B"
    .
  have R: "R = ?B * (int (n div base32) * ?B - int q * int ch) + (X - Y)"
  proof -
    have "int n = int (n div base32) * ?B + int (n mod base32)" by (simp flip: of_nat_mult of_nat_add)
    then show ?thesis
      using q(1) unfolding R_def X_def Y_def c by (simp add: of_nat_diff algebra_simps)
  qed
  have "n * base32 + p < q * c + c" using q(2) by (simp only: add_mult_distrib mult_1)
  then have lt: "n * base32 + p - q * c < 2 ^ 64" using c64 by linarith
  then have "R < int (2 ^ 64)" unfolding R_def by (simp only: of_nat_less_iff)
  then have bounds: "0 \<le> R" "R < ?B * ?B"
    by (simp add: R_def, simp only: of_nat_power of_nat_numeral BB)
  have "R mod ?B = (X - Y) mod ?B" "R div ?B = int (n div base32) * ?B - int q * int ch + (X - Y) div ?B"
    unfolding R using B by simp_all
  moreover have "R div ?B < ?B"
  proof (rule ccontr)
    assume "\<not> R div ?B < ?B"
    then have "?B * ?B \<le> R div ?B * ?B" using B by (intro mult_right_mono) simp_all
    also have "\<dots> \<le> R" using B pos_mod_sign [of ?B R] by (simp add: minus_mod_eq_div_mult [symmetric] del: pos_mod_sign)
    finally show False using bounds by simp
  qed
  then have "R div ?B mod ?B = R div ?B"
    using bounds(1) B by (intro mod_pos_pos_trivial) (simp_all add: pos_imp_zdiv_nonneg_iff)
  with calculation have "int (p2 mod base32) = R div ?B" "int (p1 mod base32) = R mod ?B"
    using p2 p1_mod by (simp_all add: add_diff_eq diff_add_eq)
  then have "int (p1 mod base32 + p2 mod base32 * base32) = R" by (simp add: mult.commute)
  then have "p1 mod base32 + p2 mod base32 * base32 = n * base32 + p - q * c" by (simp only: R_def of_nat_eq_iff)
  then show ?thesis
    using lt by (simp only: wrap64_def mod_add_right_eq mod_less)
qed


subsection \<open>The long division is the division\<close>

lemma quotient_split:
  assumes "0 < c"
  shows "a * b div c = a div c * b + a mod c * (b div c) + a mod c * (b mod c) div (c :: nat)"
proof -
  define qa ra qb rb where "qa = a div c" and "ra = a mod c" and "qb = b div c" and "rb = b mod c"
  have a: "a = qa * c + ra" and b: "b = qb * c + rb" by (simp_all add: qa_def ra_def qb_def rb_def)
  have "a * b = qa * c * b + ra * b" unfolding a by (simp add: algebra_simps)
  also have "ra * b = ra * qb * c + ra * rb" unfolding b by (simp add: algebra_simps)
  finally have "a * b = ra * rb + c * (qa * b + ra * qb)" by (simp add: algebra_simps)
  then have "a * b div c = qa * b + ra * qb + ra * rb div c" using assms by simp
  then show ?thesis unfolding qa_def ra_def qb_def rb_def .
qed

lemma two_digit_quotient:
  assumes "0 < c"
  shows "(n * base32 + l) div c =
     n div c * base32 + ((n - n div c * c) * base32 + l) div (c :: nat)"
proof -
  define q r where "q = n div c" and "r = n - n div c * c"
  have n: "n = q * c + r" by (simp add: q_def r_def)
  have "n * base32 + l = (r * base32 + l) + c * (q * base32)" unfolding n by (simp add: algebra_simps)
  then have "(n * base32 + l) div c = q * base32 + (r * base32 + l) div c"
    using assms by (simp only: div_mult_self2 neq0_conv)
  then show ?thesis unfolding q_def r_def .
qed

definition long_division :: "nat \<Rightarrow> nat \<Rightarrow> nat \<Rightarrow> nat \<Rightarrow> nat" where
  "long_division res a b c =
     (let ah = a div base32; al = a mod base32;
          bh = b div base32; bl = b mod base32;
          ch = c div base32; cl = c mod base32;
          p0 = wrap64 (al * bl);
          p1 = wrap64 (p0 div base32 + wrap64 (al * bh));
          p0 = p0 mod base32;
          p2 = wrap64 (p1 div base32 + wrap64 (ah * bh));
          p1 = wrap64 (p1 mod base32 + wrap64 (ah * bl));
          p2 = wrap64 (p2 + p1 div base32);
          p1 = p1 mod base32;
          p2 = p2 mod c;
          q1 = adjust (p2 div ch) (p2 mod ch) ch cl p1;
          p1 = wrap_sub (wrap64 (wrap64 (p2 mod base32 * base32) + p1)) (wrap64 (q1 * cl));
          p2 = wrap_sub (wrap64 (p2 div base32 * base32 + p1 div base32)) (wrap64 (q1 * ch));
          p1 = wrap64 (p1 mod base32 + wrap64 (p2 mod base32 * base32));
          q0 = adjust (p1 div ch) (p1 mod ch) ch cl p0
        in wrap64 (wrap64 (res + q0) + wrap64 (q1 * base32)))"

lemma long_division_correct:
  assumes a: "a < c" and b: "b < 2 ^ 64" and c: "base32 \<le> c" "c < 2 ^ 64"
  shows "long_division res a b c = wrap64 (res + a * b div c)"
proof -
  define ah al bh bl where "ah = a div base32" and "al = a mod base32" and "bh = b div base32" and "bl = b mod base32"
  define ch cl where "ch = c div base32" and "cl = c mod base32"
  define p0 where "p0 = wrap64 (al * bl)"
  define p1 where "p1 = wrap64 (p0 div base32 + wrap64 (al * bh))"
  define l0 where "l0 = p0 mod base32"
  define p2 where "p2 = wrap64 (p1 div base32 + wrap64 (ah * bh))"
  define p1' where "p1' = wrap64 (p1 mod base32 + wrap64 (ah * bl))"
  define n where "n = wrap64 (p2 + p1' div base32)"
  define l1 where "l1 = p1' mod base32"
  define q1 where "q1 = (n * base32 + l1) div c"
  define r where "r = n * base32 + l1 - q1 * c"
  have l: "l0 < base32" "l1 < base32" "cl < base32" using base32_pos by (simp_all add: l0_def l1_def cl_def)
  have ccl: "c = ch * base32 + cl" by (simp add: ch_def cl_def)
  have ch: "0 < ch" using c(1) base32_pos by (simp add: ch_def div_greater_zero_iff)
  have c0: "0 < c" using a by simp
  have P: "a * b = (n * base32 + l1) * base32 + l0"
    using product_digits [of a b] a b c(2)
    by (simp add: n_def l1_def l0_def p0_def p1_def p2_def p1'_def ah_def al_def bh_def bl_def)
  have "n * (base32 * base32) \<le> a * b" unfolding P by (simp add: algebra_simps)
  also have "\<dots> \<le> a * 2 ^ 64" using b by (intro mult_le_mono2) simp
  finally have "n \<le> a" by (simp add: base32_square)
  then have n: "n < c" "n < 2 ^ 64" using a c(2) by linarith+
  have nc: "n mod c = n" using n(1) by simp
  have q1: "adjust (n div ch) (n mod ch) ch cl l1 = q1"
    unfolding q1_def using ccl l ch n by (intro digit_correct)
  have qle: "q1 * c \<le> n * base32 + l1" unfolding q1_def by (rule div_times_less_eq_dividend)
  have qgt: "n * base32 + l1 < (q1 + 1) * c"
    using dividend_less_div_times [OF c0, of "n * base32 + l1"] by (simp add: q1_def add.commute)
  note rem = remainder_digit [OF l(2) n(2) ccl c(2) qle qgt, folded r_def]
  have "n * base32 + l1 < q1 * c + c" using qgt by (simp only: add_mult_distrib mult_1)
  then have r: "r < c" using qle unfolding r_def by linarith
  then have "r < 2 ^ 64" using c(2) by linarith
  then have q0: "adjust (r div ch) (r mod ch) ch cl l0 = (r * base32 + l0) div c"
    using ccl l ch r by (intro digit_correct)
  have "long_division res a b c = wrap64 (wrap64 (res + (r * base32 + l0) div c) + wrap64 (q1 * base32))"
    unfolding long_division_def Let_def ah_def [symmetric] al_def [symmetric] bh_def [symmetric] bl_def [symmetric]
      ch_def [symmetric] cl_def [symmetric] p0_def [symmetric] p1_def [symmetric] l0_def [symmetric] p2_def [symmetric]
      p1'_def [symmetric] n_def [symmetric] l1_def [symmetric] nc q1 rem q0 ..
  also have "\<dots> = wrap64 (res + (q1 * base32 + (r * base32 + l0) div c))"
    unfolding wrap64_def mod_add_eq by (simp only: ac_simps)
  also have "q1 * base32 + (r * base32 + l0) div c = a * b div c"
    unfolding P q1_def r_def by (rule two_digit_quotient [OF c0, symmetric])
  finally show ?thesis .
qed

lemma muldiv64_long_steps:
  "muldiv64_long a b c =
     (let res = wrap64 (wrap64 (a div c * b) + wrap64 (a mod c * (b div c)));
          a = a mod c; b = b mod c; norm = ((base32 - 1) * base32 + (base32 - 1)) div c
      in if a = 0 \<or> b = 0 then res else if c < base32 then wrap64 (res + wrap64 (a * b) div c)
         else long_division res (wrap64 (a * norm)) b (wrap64 (c * norm)))"
  unfolding muldiv64_long_def long_division_def Let_def by (rule refl)

lemma muldiv64_equal:
  assumes c: "0 < c" "c < 2 ^ 64"
  shows "muldiv64_long a b c = muldiv64_wide a b c"
proof -
  define res where "res = wrap64 (wrap64 (a div c * b) + wrap64 (a mod c * (b div c)))"
  define a' b' where "a' = a mod c" and "b' = b mod c"
  define norm where "norm = ((base32 - 1) * base32 + (base32 - 1)) div c"
  have ab: "a' < c" "b' < c" using c by (simp_all add: a'_def b'_def)
  have steps: "muldiv64_long a b c = (if a' = 0 \<or> b' = 0 then res else if c < base32 then wrap64 (res + wrap64 (a' * b') div c)
         else long_division res (wrap64 (a' * norm)) b' (wrap64 (c * norm)))"
    unfolding muldiv64_long_steps Let_def a'_def b'_def res_def norm_def ..
  have goal: "muldiv64_wide a b c = wrap64 (res + a' * b' div c)"
  proof -
    have "res = wrap64 (a div c * b + a mod c * (b div c))" by (simp only: res_def wrap64_def mod_add_eq)
    then show ?thesis
      unfolding muldiv64_wide_def quotient_split [OF c(1), of a b] a'_def b'_def
      by (simp only: wrap64_def mod_add_left_eq)
  qed
  have res: "wrap64 res = res" by (simp add: res_def wrap64_def)
  consider "a' = 0 \<or> b' = 0" | "\<not> (a' = 0 \<or> b' = 0)" "c < base32" | "\<not> (a' = 0 \<or> b' = 0)" "base32 \<le> c" by linarith
  then show ?thesis
  proof cases
    case 1
    then show ?thesis using steps goal res by auto
  next
    case 2
    then have "a' * b' < base32 * base32" using ab by (intro mult_strict_mono) linarith+
    then have "wrap64 (a' * b') = a' * b'" by (intro wrap64_id) (simp add: base32_square)
    then show ?thesis using 2 steps goal by simp
  next
    case 3
    have M: "(base32 - 1) * base32 + (base32 - 1) = 2 ^ 64 - 1" by (simp add: base32_def)
    have norm: "0 < norm" using c unfolding norm_def M by (simp add: div_greater_zero_iff)
    have "norm * c \<le> 2 ^ 64 - 1" unfolding norm_def M by (rule div_times_less_eq_dividend)
    then have cn: "c * norm < 2 ^ 64" by (simp add: mult.commute)
    have an: "a' * norm < c * norm" using ab norm by simp
    have "base32 \<le> c * norm" using 3(2) norm by (metis le_trans mult_le_mono2 mult_1_right Suc_leI One_nat_def)
    then have "long_division res (a' * norm) b' (c * norm) = wrap64 (res + a' * norm * b' div (c * norm))"
      using an cn ab c(2) by (intro long_division_correct) linarith+
    also have "a' * norm * b' div (c * norm) = a' * b' div c"
      using div_mult_mult2 [of norm "a' * b'" c] norm by (simp add: ac_simps)
    finally show ?thesis
      using 3 steps goal wrap64_id [OF cn] wrap64_id [OF less_trans [OF an cn]] by simp
  qed
qed


subsection \<open>The two bodies agree\<close>

text \<open>C28: The long division in base two to the power of thirty-two, used where the compiler has no wider
  type, computes the same as the body with 128-bit integers, the product divided and cut to 64 bits, for
  all operands and every divisor but zero.\<close>

theorem long_division_equals_wide:
  assumes "0 < c" and "c < 2 ^ 64"
  shows "muldiv64_long a b c = muldiv64_wide a b c \<and> (a * b div c < 2 ^ 64 \<longrightarrow> muldiv64_long a b c = a * b div c)"
  using muldiv64_equal [OF assms, of a b] by (simp add: muldiv64_wide_def wrap64_def)

theorem long_division_equals_wide_witness:
  "muldiv64_long 10000000000000000000 3000000000 9000000001 = 10000000000000000000 * 3000000000 div 9000000001"
  using long_division_equals_wide [of 9000000001 10000000000000000000 3000000000] by simp

end
