(* ===== verification/Clock.thy ===== *)
theory Clock imports
  Timespec
  Muldiv
begin

section \<open>Clock: time stamps\<close>

text \<open>
  \<open>timestamp\<close> of \<open>src/src/utils/time.cpp\<close> and the Windows clocks of \<open>precise_time.cpp\<close>. What a
  clock reads is the operating system's, so a loop that polls one takes the list of its readings, and
  \<open>None\<close> says that the readings ran out before the loop ended. The counters are 64-bit words, and a failed
  assertion on one of them is \<open>None\<close> too.
\<close>

subsection \<open>Polling a clock\<close>

text \<open>
  The loop of the POSIX branch: it leaves when the seconds or the nanoseconds of a reading are
  greater than those of the first one.
\<close>

fun draw_posix :: "timespec \<Rightarrow> timespec list \<Rightarrow> timespec \<Rightarrow> timespec option" where
  "draw_posix ref readings draw =
     (if ts_sec draw \<le> ts_sec ref \<and> ts_nsec draw \<le> ts_nsec ref
      then (case readings of [] \<Rightarrow> None | r # rs \<Rightarrow> draw_posix ref rs r)
      else Some draw)"

declare draw_posix.simps [simp del]

definition timestamp_posix :: "timespec list \<Rightarrow> timespec option" where
  "timestamp_posix readings = (case readings of [] \<Rightarrow> None | ref # rs \<Rightarrow> draw_posix ref rs ref)"

text \<open>The loop of the Windows and macOS branches compares whole time stamps.\<close>

fun draw_after :: "timespec \<Rightarrow> timespec list \<Rightarrow> timespec \<Rightarrow> timespec option" where
  "draw_after ref readings draw =
     (if draw \<le> ref then (case readings of [] \<Rightarrow> None | r # rs \<Rightarrow> draw_after ref rs r) else Some draw)"

declare draw_after.simps [simp del]

definition timestamp_after :: "timespec list \<Rightarrow> timespec option" where
  "timestamp_after readings = (case readings of [] \<Rightarrow> None | ref # rs \<Rightarrow> draw_after ref rs ref)"

subsection \<open>The Windows clocks\<close>

definition delta_epoch :: u64 where
  "delta_epoch = 116444736000000000"

text \<open>Tenths of microseconds since 1970, from the two halves of a file time since 1601.\<close>

definition filetime_since_epoch :: "u32 \<Rightarrow> u32 \<Rightarrow> u64" where
  "filetime_since_epoch high low = or (push_bit 32 (ucast high)) (ucast low) - delta_epoch"

record clock_state =
  zero_time :: u64
  offset :: u64
  frequency :: u64

definition clock_factor :: u64 where
  "clock_factor = 10000000"

text \<open>
  A clock starts from the system's file time and a reading of its counter, both asserted to be positive, and
  asks for the counts per second; when the system does not answer with a positive number, the program is
  terminated, and so it is by a failed assertion (\<open>None\<close>).
\<close>

definition update_frequency :: "bool \<times> u64 \<Rightarrow> u64 option" where
  "update_frequency answer = (case answer of (ok, per_second) \<Rightarrow> if \<not> ok \<or> per_second = 0 then None else Some per_second)"

definition start_clock :: "u32 \<Rightarrow> u32 \<Rightarrow> u64 \<Rightarrow> bool \<times> u64 \<Rightarrow> clock_state option" where
  "start_clock high low counter answer =
     (if \<not> (0 < filetime_since_epoch high low \<and> 0 < counter) then None
      else do {
        per_second \<leftarrow> update_frequency answer;
        Some \<lparr>zero_time = filetime_since_epoch high low, offset = counter, frequency = per_second\<rparr>
      })"

definition muldiv64 :: "u64 \<Rightarrow> u64 \<Rightarrow> u64 \<Rightarrow> u64" where
  "muldiv64 a b c = of_nat (muldiv64_long (unat a) (unat b) (unat c))"

definition clock_delta :: "clock_state \<Rightarrow> u64 \<Rightarrow> u64 option" where
  "clock_delta c ts =
     (if 0 < frequency c then Some (muldiv64 (ts - offset c) clock_factor (frequency c)) else None)"

definition clock_now :: "clock_state \<Rightarrow> u64 \<Rightarrow> u64 option" where
  "clock_now c ts =
     (if 0 < zero_time c \<and> 0 < offset c then do {delta \<leftarrow> clock_delta c ts; Some (zero_time c + delta)} else None)"

text \<open>The constructor of a timespec from a duration in tenths of microseconds, unsigned.\<close>

definition timespec_of_ticks :: "u64 \<Rightarrow> timespec" where
  "timespec_of_ticks t = Timespec (uint (t div clock_factor)) (uint (t mod clock_factor) * 100)"

definition emulate_timestamp :: "clock_state \<Rightarrow> u64 \<Rightarrow> timespec option" where
  "emulate_timestamp c ts = map_option timespec_of_ticks (clock_now c ts)"

definition get_timespec :: "u32 \<Rightarrow> u32 \<Rightarrow> timespec" where
  "get_timespec high low = timespec_of_ticks (filetime_since_epoch high low)"

text \<open>\<open>get_timespec_function\<close>: the precise system time where the library has it, else the counter.\<close>

definition get_timespec_function :: "bool \<Rightarrow> bool \<Rightarrow> clock_state \<Rightarrow> u32 \<Rightarrow> u32 \<Rightarrow> u64 \<Rightarrow> timespec option" where
  "get_timespec_function loaded has_precise c high low counter =
     (if loaded \<and> has_precise then Some (get_timespec high low) else emulate_timestamp c counter)"

subsection \<open>The macOS clock\<close>

text \<open>
  \<open>mac_hires_clock\<close>: the ratio of the time base, the time of day at the start and the nanoseconds
  since the boot at the start; \<open>ticks\<close> is what \<open>mach_absolute_time\<close> returns.
\<close>

record mac_clock =
  mac_numer :: u64
  mac_denom :: u64
  mac_zero_time :: timespec
  mac_delta :: int

definition mac_ns_since_bootup :: "mac_clock \<Rightarrow> u64 \<Rightarrow> int" where
  "mac_ns_since_bootup c ticks = sint (muldiv64 ticks (mac_numer c) (mac_denom c))"

definition mac_clock_start :: "u64 \<Rightarrow> u64 \<Rightarrow> int \<Rightarrow> int \<Rightarrow> u64 \<Rightarrow> mac_clock" where
  "mac_clock_start numer denom tv_sec tv_usec ticks =
     (let c = \<lparr>mac_numer = numer, mac_denom = denom, mac_zero_time = Timespec tv_sec (tv_usec * 1000), mac_delta = 0\<rparr>
      in c\<lparr>mac_delta := mac_ns_since_bootup c ticks\<rparr>)"

text \<open>A reading is asserted to be later than the start of the clock.\<close>

definition mac_now :: "mac_clock \<Rightarrow> u64 \<Rightarrow> timespec option" where
  "mac_now c ticks = do {
     ts \<leftarrow> i64 (mac_ns_since_bootup c ticks - mac_delta c);
     if 0 < ts then timespec_add (mac_zero_time c) ts else None
   }"

subsection \<open>What polling returns\<close>

lemma draw_after_greater: "draw_after ref rs draw = Some t \<Longrightarrow> ref < t"
  by (induction ref rs draw rule: draw_after.induct) (subst (asm) (2) draw_after.simps, auto split: if_splits list.splits)

lemma draw_after_returns:
  "\<exists>r\<in>set rs. ref < r \<Longrightarrow> \<exists>t. draw_after ref rs draw = Some t"
proof (induction rs arbitrary: draw)
  case (Cons r rs)
  show ?case
  proof (cases "ref < r")
    case True
    then have "\<not> r \<le> ref" by simp
    then show ?thesis by (simp add: draw_after.simps [of ref "r # rs" draw] draw_after.simps [of ref rs r])
  next
    case False
    then have "\<exists>r\<in>set rs. ref < r" using Cons.prems by auto
    then show ?thesis using Cons.IH [of r] by (simp add: draw_after.simps [of ref "r # rs" draw])
  qed
qed simp

definition not_before :: "timespec list \<Rightarrow> bool" where
  "not_before readings \<longleftrightarrow> (\<forall>r\<in>set readings. hd readings \<le> r)"

lemma draw_posix_leaves:
  "draw_posix ref rs draw = Some t \<Longrightarrow> t \<in> insert draw (set rs) \<and> (ts_sec ref < ts_sec t \<or> ts_nsec ref < ts_nsec t)"
proof (induction rs arbitrary: draw)
  case Nil
  then show ?case by (auto simp: draw_posix.simps [of ref "[]" draw] not_le split: if_splits)
next
  case (Cons r rs)
  then show ?case using Cons.IH [of r] by (auto simp: draw_posix.simps [of ref "r # rs" draw] not_le split: if_splits)
qed

subsection \<open>The counter clock\<close>

lemma muldiv64_div:
  assumes "c \<noteq> 0"
  shows "muldiv64 a b c = of_nat (unat a * unat b div unat c)"
proof -
  have "0 < unat c" "unat c < 2 ^ 64" using assms unsigned_less [of c] by (simp_all add: unat_gt_0)
  then have "muldiv64 a b c = of_nat (wrap64 (unat a * unat b div unat c))"
    by (simp only: muldiv64_def muldiv64_equal muldiv64_wide_def)
  also have "\<dots> = of_nat (unat a * unat b div unat c)"
    by (simp add: word_of_nat_eq_iff wrap64_def take_bit_eq_mod)
  finally show ?thesis .
qed

lemma timespec_of_ticks_nanos: "normal (timespec_of_ticks t) \<and> nanos (timespec_of_ticks t) = uint t * 100"
proof -
  have "uint (t div clock_factor) = uint t div 10000000" "uint (t mod clock_factor) = uint t mod 10000000"
    by (simp_all add: clock_factor_def uint_div uint_mod)
  moreover have "uint t div 10000000 * 1000000000 + uint t mod 10000000 * 100 = uint t * 100"
  proof -
    define q m where "q = uint t div 10000000" and "m = uint t mod 10000000"
    have "uint t = q * 10000000 + m" by (simp add: q_def m_def)
    then show ?thesis unfolding q_def [symmetric] m_def [symmetric] by simp
  qed
  ultimately show ?thesis
    by (simp add: timespec_of_ticks_def normal_def nanos_def ns_per_s_def)
qed


subsection \<open>What a time stamp guarantees\<close>

lemma draw_posix_returns:
  "\<exists>r\<in>set rs. ref < r \<Longrightarrow> \<exists>t. draw_posix ref rs draw = Some t"
proof (induction rs arbitrary: draw)
  case (Cons r rs)
  show ?case
  proof (cases "ref < r")
    case True
    then have "\<not> (ts_sec r \<le> ts_sec ref \<and> ts_nsec r \<le> ts_nsec ref)" by (auto simp: less_timespec_def)
    then have "draw_posix ref rs r = Some r" by (simp only: draw_posix.simps [of ref rs r] if_False)
    then show ?thesis by (simp add: draw_posix.simps [of ref "r # rs" draw])
  next
    case False
    then have "\<exists>r\<in>set rs. ref < r" using Cons.prems by auto
    then show ?thesis using Cons.IH [of r] by (simp add: draw_posix.simps [of ref "r # rs" draw])
  qed
qed simp

text \<open>C38: The Windows and macOS time stamp returns as soon as the clock has a reading later than its first
  one, and what it returns is later; the POSIX time stamp compares the seconds and the nanoseconds
  separately, so it too returns then, but after a step back of the clock across a second it can return a
  time before its first reading.\<close>

theorem timestamps_return:
  assumes "\<exists>r\<in>set rs. ref < r"
  shows "\<exists>t u. timestamp_after (ref # rs) = Some t \<and> ref < t \<and> timestamp_posix (ref # rs) = Some u \<and>
    (ts_sec ref < ts_sec u \<or> ts_nsec ref < ts_nsec u)"
proof -
  obtain t u where "draw_after ref rs ref = Some t" "draw_posix ref rs ref = Some u"
    using draw_after_returns [OF assms] draw_posix_returns [OF assms] by blast
  then show ?thesis
    using draw_after_greater [of ref rs ref t] draw_posix_leaves [of ref rs ref u]
    by (simp add: timestamp_after_def timestamp_posix_def)
qed

theorem timestamps_return_witness:
  "\<exists>t u. timestamp_after [Timespec 5 1, Timespec 4 9, Timespec 6 0] = Some t \<and> Timespec 5 1 < t \<and>
     timestamp_posix [Timespec 5 1, Timespec 4 9, Timespec 6 0] = Some u \<and> (5 < ts_sec u \<or> 1 < ts_nsec u)"
proof -
  have "\<exists>r\<in>set [Timespec 4 9, Timespec 6 0]. Timespec 5 1 < r" by (auto simp: less_timespec_def)
  from timestamps_return [OF this] show ?thesis by auto
qed

text \<open>When the clock steps back across a second to a reading with more nanoseconds, the POSIX time stamp
  returns that earlier reading.\<close>

theorem posix_timestamp_goes_back:
  assumes "ts_sec r < ts_sec ref" and "ts_nsec ref < ts_nsec r"
  shows "timestamp_posix (ref # r # rs) = Some r \<and> r < ref"
  using assms by (simp add: timestamp_posix_def draw_posix.simps [of ref "r # rs"] draw_posix.simps [of ref rs r] less_timespec_def)

theorem posix_timestamp_goes_back_witness:
  "timestamp_posix [Timespec 5 1, Timespec 4 9] = Some (Timespec 4 9) \<and> Timespec 4 9 < Timespec 5 1"
  using posix_timestamp_goes_back [of "Timespec 4 9" "Timespec 5 1" "[]"] by simp

text \<open>The counter clock never divides by zero and none of its assertions fails: it scales the ticks since its
  start by ten million over the frequency, adds them to the file time of its start, and gives a time with its
  nanoseconds below one second.\<close>

theorem emulated_timestamp_nanos:
  assumes "start_clock high low counter answer = Some c"
    and "unat (filetime_since_epoch high low) + unat (ts - counter) * 10000000 div unat (snd answer) < 2 ^ 64"
  shows "\<exists>t. emulate_timestamp c ts = Some t \<and> normal t \<and> nanos t =
    (int (unat (filetime_since_epoch high low)) + int (unat (ts - counter) * 10000000 div unat (snd answer))) * 100"
proof -
  have c: "0 < frequency c" "0 < zero_time c" "0 < offset c"
    "zero_time c = filetime_since_epoch high low" "offset c = counter" "frequency c = snd answer"
    using assms(1) by (auto simp: start_clock_def update_frequency_def word_neq_0_conv split: prod.splits if_splits)
  let ?d = "unat (ts - counter) * 10000000 div unat (snd answer)"
  have "frequency c \<noteq> 0" using c(1) by auto
  from muldiv64_div [OF this] have now: "clock_now c ts = Some (zero_time c + of_nat ?d)"
    using c by (simp add: clock_now_def clock_delta_def clock_factor_def)
  have "unat (of_nat ?d :: u64) = ?d" using assms(2) by (intro unat_of_nat_small) simp
  then have "unat (zero_time c + of_nat ?d) = unat (zero_time c) + ?d"
    using assms(2) by (simp add: unat_word_ariths c)
  then have "uint (zero_time c + of_nat ?d) = int (unat (zero_time c)) + int ?d"
    by (simp only: uint_nat of_nat_add)
  moreover have "emulate_timestamp c ts = Some (timespec_of_ticks (zero_time c + of_nat ?d))"
    by (simp only: emulate_timestamp_def now option.map)
  ultimately show ?thesis using timespec_of_ticks_nanos [of "zero_time c + of_nat ?d"] c(4) by simp
qed

theorem emulated_timestamp_nanos_witness:
  "\<exists>c t. start_clock 27111902 3627643008 1000 (True, 3) = Some c \<and> emulate_timestamp c 1002 = Some t \<and> nanos t = 5666666600"
proof -
  have t: "filetime_since_epoch 27111902 3627643008 = 50000000"
    by (simp add: filetime_since_epoch_def delta_epoch_def)
  obtain c where "start_clock 27111902 3627643008 1000 (True, 3) = Some c"
    by (simp add: start_clock_def update_frequency_def t)
  moreover from this obtain s where "emulate_timestamp c 1002 = Some s" "nanos s = 5666666600"
    using emulated_timestamp_nanos [of 27111902 3627643008 1000 "(True, 3)" c 1002] by (auto simp: t)
  ultimately show ?thesis by blast
qed

end
