(* ===== verification/Files.thy ===== *)
theory Files imports
  Prelude
begin

section \<open>Files: streams and mappings\<close>

text \<open>
  \<open>basic_file_stream\<close> of \<open>src/src/utils/file_stream.hpp\<close>, a template over the calls that open, read
  and seek, with its two implementations, and \<open>file_mapping\<close> of \<open>file_mapping.hpp\<close>. An error code is
  an integer, 0 for none; a size is a 64-bit word, so totals wrap around. A file of the C library is its
  bytes, the position in them, \<open>errno\<close>, and the answers of its device: what a read that fails delivers,
  the error it sets and where it leaves the position, and the error of every seek when the device cannot.
  The answers of the Windows API are arguments in the same way. A handle is an option, \<open>None\<close> the empty
  handle. Reading or seeking through the C library's null pointer is undefined behaviour, the result
  \<open>None\<close>; the Windows API answers an error for its empty handle.
\<close>

subsection \<open>The status\<close>

record read_status =
  rs_ec :: int
  rs_last_read :: u64
  rs_total_read :: u64

definition rs_good :: "read_status \<Rightarrow> bool" where
  "rs_good s \<longleftrightarrow> rs_ec s = 0"

definition read_status_of :: "int \<Rightarrow> u64 \<Rightarrow> read_status" where
  "read_status_of e lr = \<lparr>rs_ec = e, rs_last_read = lr, rs_total_read = lr\<rparr>"

definition status_add :: "read_status \<Rightarrow> read_status \<Rightarrow> read_status" where
  "status_add s other =
     \<lparr>rs_ec = (if rs_ec s \<noteq> 0 then rs_ec s else rs_ec other), rs_last_read = rs_last_read other,
      rs_total_read = rs_total_read s + rs_total_read other\<rparr>"

subsection \<open>The stream\<close>

record 'h file_stream =
  fs_status :: read_status
  fs_handle :: 'h

definition stream_open :: "read_status \<times> 'h \<Rightarrow> 'h file_stream" where
  "stream_open r = \<lparr>fs_status = fst r, fs_handle = snd r\<rparr>"

type_synonym 'h stream_op = "'h \<Rightarrow> u64 \<Rightarrow> (read_status \<times> 'h) option"

definition stream_read :: "'h stream_op \<Rightarrow> u64 \<Rightarrow> 'h file_stream \<Rightarrow> 'h file_stream option" where
  "stream_read impl_read s st =
     (if rs_good (fs_status st)
      then do {
        (r, h) \<leftarrow> impl_read (fs_handle st) s;
        Some \<lparr>fs_status = status_add (fs_status st) r, fs_handle = h\<rparr>
      }
      else Some st)"

definition stream_seek :: "'h stream_op \<Rightarrow> u64 \<Rightarrow> 'h file_stream \<Rightarrow> 'h file_stream option" where
  "stream_seek impl_seek s st =
     (if rs_good (fs_status st)
      then do {
        (r, h) \<leftarrow> impl_seek (fs_handle st) s;
        Some \<lparr>fs_status = status_add (fs_status st) r, fs_handle = h\<rparr>
      }
      else Some st)"

text \<open>The destructor.\<close>

definition stream_destroy :: "('h \<Rightarrow> 'h) \<Rightarrow> 'h file_stream \<Rightarrow> 'h file_stream" where
  "stream_destroy impl_close st = st\<lparr>fs_handle := impl_close (fs_handle st)\<rparr>"

definition stream_good :: "'h file_stream \<Rightarrow> bool" where
  "stream_good st = rs_good (fs_status st)"

definition stream_last_error :: "'h file_stream \<Rightarrow> int" where
  "stream_last_error st = rs_ec (fs_status st)"

definition stream_last_read :: "'h file_stream \<Rightarrow> u64" where
  "stream_last_read st = rs_last_read (fs_status st)"

definition stream_total_read :: "'h file_stream \<Rightarrow> u64" where
  "stream_total_read st = rs_total_read (fs_status st)"

text \<open>A client's calls, in order.\<close>

datatype stream_call = Read u64 | Seek u64

fun run_calls :: "'h stream_op \<Rightarrow> 'h stream_op \<Rightarrow> stream_call list \<Rightarrow> 'h file_stream \<Rightarrow> 'h file_stream option" where
  "run_calls rd sk [] st = Some st"
| "run_calls rd sk (Read s # cs) st = do { st \<leftarrow> stream_read rd s st; run_calls rd sk cs st }"
| "run_calls rd sk (Seek s # cs) st = do { st \<leftarrow> stream_seek sk s st; run_calls rd sk cs st }"

subsection \<open>The C library's files\<close>

record c_file =
  cf_bytes :: "u8 list"
  cf_pos :: nat
  cf_errno :: int
  cf_read_error :: "nat \<Rightarrow> u64 \<Rightarrow> (u64 \<times> int \<times> nat) option"
  cf_seek_error :: "int option"

definition capi_empty_handle :: "c_file option" where
  "capi_empty_handle = None"

text \<open>\<open>fopen\<close> answers a file at its first byte, or a null pointer and \<open>errno\<close>.\<close>

definition capi_open :: "c_file option \<Rightarrow> int \<Rightarrow> read_status \<times> c_file option" where
  "capi_open found errno =
     (case found of
        None \<Rightarrow> (read_status_of errno 0, capi_empty_handle)
      | Some f \<Rightarrow> (read_status_of 0 0, Some (f\<lparr>cf_pos := 0\<rparr>)))"

definition capi_close :: "c_file option \<Rightarrow> c_file option" where
  "capi_close h = (case h of None \<Rightarrow> h | Some f \<Rightarrow> None)"

definition capi_last_error :: "c_file \<Rightarrow> int" where
  "capi_last_error f = cf_errno f"

text \<open>
  \<open>fread\<close>: fewer bytes than asked for at the end of the file, which leaves \<open>errno\<close> as it is, or when the
  device fails, which sets it and leaves the position wherever it likes.
\<close>

definition fread :: "c_file \<Rightarrow> u64 \<Rightarrow> u64 \<times> c_file" where
  "fread f s =
     (let r = min (unat s) (length (cf_bytes f) - cf_pos f); done = (word_of_nat r, f\<lparr>cf_pos := cf_pos f + r\<rparr>)
      in case cf_read_error f (cf_pos f) s of
           None \<Rightarrow> done
         | Some (n, e, p) \<Rightarrow> if n < s then (n, f\<lparr>cf_pos := p, cf_errno := e\<rparr>) else done)"

fun capi_read :: "c_file option stream_op" where
  "capi_read None s = None"
| "capi_read (Some f) s =
     (let (r, f) = fread f s
      in Some (if r = s then read_status_of 0 r else read_status_of (capi_last_error f) r, Some f))"

text \<open>
  \<open>fseek\<close> from the current position, by a \<open>long\<close> of 64 bits: it fails with \<open>EINVAL\<close> before the start of the
  file, with \<open>EOVERFLOW\<close> where the position does not fit a \<open>long\<close>, and on a device that cannot seek.
\<close>

definition fseek_cur :: "c_file \<Rightarrow> int \<Rightarrow> bool \<times> c_file" where
  "fseek_cur f offset =
     (let p = int (cf_pos f) + offset in
      case cf_seek_error f of
        Some e \<Rightarrow> (False, f\<lparr>cf_errno := e\<rparr>)
      | None \<Rightarrow> if p < 0 then (False, f\<lparr>cf_errno := 22\<rparr>)
          else if 2 ^ 63 \<le> p then (False, f\<lparr>cf_errno := 75\<rparr>)
          else (True, f\<lparr>cf_pos := nat p\<rparr>))"

text \<open>The size becomes a signed offset: one of \<open>2\<^sup>6\<^sup>3\<close> or more seeks backwards.\<close>

fun capi_seek :: "c_file option stream_op" where
  "capi_seek None s = None"
| "capi_seek (Some f) s =
     (case fseek_cur f (sint s) of
        (True, f) \<Rightarrow> Some (read_status_of 0 s, Some f)
      | (False, f) \<Rightarrow> Some (read_status_of (capi_last_error f) 0, Some f))"

subsection \<open>The Windows API's files\<close>

text \<open>
  \<open>wf_fault\<close> is the error of a device that fails, \<open>wf_last_error\<close> what \<open>GetLastError\<close> returns: 0 after a
  \<open>SetFilePointer\<close> that did not fail. Reading at the end of the file is a success of 0 bytes; for the
  empty handle the error is 6.
\<close>

record w_file =
  wf_bytes :: "u8 list"
  wf_pos :: nat
  wf_fault :: "int option"
  wf_last_error :: int

definition winapi_empty_handle :: "w_file option" where
  "winapi_empty_handle = None"

definition winapi_open :: "w_file option \<Rightarrow> int \<Rightarrow> read_status \<times> w_file option" where
  "winapi_open found last_error =
     (case found of
        None \<Rightarrow> (read_status_of last_error 0, winapi_empty_handle)
      | Some f \<Rightarrow> (read_status_of 0 0, Some (f\<lparr>wf_pos := 0\<rparr>)))"

definition winapi_close :: "w_file option \<Rightarrow> w_file option" where
  "winapi_close h = (case h of None \<Rightarrow> h | Some f \<Rightarrow> None)"

definition winapi_last_error :: "w_file \<Rightarrow> int" where
  "winapi_last_error f = wf_last_error f"

text \<open>\<open>ReadFile\<close> takes a count of 32 bits.\<close>

definition read_file :: "w_file \<Rightarrow> u32 \<Rightarrow> bool \<times> u32 \<times> w_file" where
  "read_file f s =
     (case wf_fault f of
        Some e \<Rightarrow> (False, 0, f\<lparr>wf_last_error := e\<rparr>)
      | None \<Rightarrow> let r = min (unat s) (length (wf_bytes f) - wf_pos f)
          in (True, word_of_nat r, f\<lparr>wf_pos := wf_pos f + r\<rparr>))"

fun winapi_read :: "w_file option stream_op" where
  "winapi_read None s = Some (read_status_of 6 0, None)"
| "winapi_read (Some f) s =
     (case read_file f (ucast s) of
        (False, r, f) \<Rightarrow> Some (read_status_of (winapi_last_error f) (ucast r), Some f)
      | (True, r, f) \<Rightarrow> Some (read_status_of 0 (ucast r), Some f))"

text \<open>\<open>SetFilePointer\<close> returns the low half of the new position, and \<open>0xFFFFFFFF\<close> when it fails.\<close>

definition invalid_set_file_pointer :: nat where
  "invalid_set_file_pointer = 2 ^ 32 - 1"

definition set_file_pointer :: "w_file \<Rightarrow> int \<Rightarrow> nat \<times> w_file" where
  "set_file_pointer f distance =
     (let p = int (wf_pos f) + distance in
      case wf_fault f of
        Some e \<Rightarrow> (invalid_set_file_pointer, f\<lparr>wf_last_error := e\<rparr>)
      | None \<Rightarrow> if p < 0 then (invalid_set_file_pointer, f\<lparr>wf_last_error := 131\<rparr>)
          else if 2 ^ 63 \<le> p then (invalid_set_file_pointer, f\<lparr>wf_last_error := 87\<rparr>)
          else (nat p mod 2 ^ 32, f\<lparr>wf_pos := nat p, wf_last_error := 0\<rparr>))"

fun winapi_seek :: "w_file option stream_op" where
  "winapi_seek None s = Some (read_status_of 6 0, None)"
| "winapi_seek (Some f) s =
     (case set_file_pointer f (sint s) of
        (low, f) \<Rightarrow> if low = invalid_set_file_pointer then Some (read_status_of (winapi_last_error f) 0, Some f)
          else Some (read_status_of 0 s, Some f))"

subsection \<open>What a stream promises\<close>

text \<open>What the constructor and every call establish: a good stream has a usable handle.\<close>

definition stream_ready :: "('h \<Rightarrow> bool) \<Rightarrow> 'h file_stream \<Rightarrow> bool" where
  "stream_ready usable st \<longleftrightarrow> (stream_good st \<longrightarrow> usable (fs_handle st))"

lemma totals_chain: "t1 + p0 = p1 + t0 \<Longrightarrow> t + p1 = p + t1 \<Longrightarrow> t + p0 = p + (t0 :: u64)"
proof -
  assume "t1 + p0 = p1 + t0" and "t + p1 = p + t1"
  then have "t1 = p1 + t0 - p0" "t = p + t1 - p1" by (simp_all add: eq_diff_eq)
  then show ?thesis by simp
qed

text \<open>
  The contract of an implementation: through a usable handle a call is defined and keeps the handle
  usable, and a read without error moves the position as far as it reports, modulo \<open>2\<^sup>6\<^sup>4\<close>; in an exact
  one so does a seek.
\<close>

locale stream_impl =
  fixes rd sk :: "'h \<Rightarrow> u64 \<Rightarrow> (read_status \<times> 'h) option"
    and pos :: "'h \<Rightarrow> u64" and usable :: "'h \<Rightarrow> bool"
  assumes read_moves: "usable h \<Longrightarrow> \<exists>r h'. rd h s = Some (r, h') \<and> (rs_good r \<longrightarrow> usable h' \<and>
      pos h' = pos h + rs_total_read r)"
    and seek_moves: "usable h \<Longrightarrow> \<exists>r h'. sk h s = Some (r, h') \<and> (rs_good r \<longrightarrow> usable h')"
begin

lemma read_ready:
  assumes "stream_ready usable st"
  shows "\<exists>st'. stream_read rd s st = Some st' \<and> stream_ready usable st' \<and>
    (stream_good st' \<longrightarrow> stream_total_read st' + pos (fs_handle st) = pos (fs_handle st') + stream_total_read st)"
proof (cases "stream_good st")
  case True
  then obtain r h where "rd (fs_handle st) s = Some (r, h)" "rs_good r \<longrightarrow> usable h \<and> pos h = pos (fs_handle st) + rs_total_read r"
    using read_moves [of "fs_handle st" s] assms by (auto simp: stream_ready_def)
  then show ?thesis
    using True by (simp add: stream_read_def stream_good_def stream_ready_def stream_total_read_def status_add_def rs_good_def)
qed (use assms in \<open>simp add: stream_read_def stream_good_def\<close>)

lemma seek_ready:
  assumes "stream_ready usable st"
  shows "\<exists>st'. stream_seek sk s st = Some st' \<and> stream_ready usable st'"
proof (cases "stream_good st")
  case True
  then obtain r h where "sk (fs_handle st) s = Some (r, h)" "rs_good r \<longrightarrow> usable h"
    using seek_moves [of "fs_handle st" s] assms by (auto simp: stream_ready_def)
  then show ?thesis
    using True by (simp add: stream_seek_def stream_good_def stream_ready_def status_add_def rs_good_def)
qed (use assms in \<open>simp add: stream_seek_def stream_good_def\<close>)

text \<open>After an error nothing moves, and the error stays.\<close>

lemma calls_after_error: "\<not> stream_good st \<Longrightarrow> run_calls rd sk cs st = Some st"
proof (induction cs)
  case (Cons c cs)
  then show ?case by (cases c) (simp_all add: stream_good_def stream_read_def stream_seek_def)
qed simp

text \<open>No call is undefined.\<close>

lemma call_ready:
  assumes "stream_ready usable st"
  shows "\<exists>st1. run_calls rd sk (c # cs) st = run_calls rd sk cs st1 \<and> run_calls rd sk [c] st = Some st1 \<and> stream_ready usable st1"
proof (cases c)
  case (Read s)
  then show ?thesis using read_ready [OF assms, of s] by auto
next
  case (Seek s)
  then show ?thesis using seek_ready [OF assms, of s] by auto
qed

lemma calls_ready: "stream_ready usable st \<Longrightarrow> \<exists>st'. run_calls rd sk cs st = Some st' \<and> stream_ready usable st'"
proof (induction cs arbitrary: st)
  case (Cons c cs)
  then show ?case using call_ready [OF Cons.prems, of c cs] by metis
qed simp

end

locale exact_stream_impl = stream_impl +
  assumes seek_exact: "usable h \<Longrightarrow> sk h s = Some (r, h') \<Longrightarrow> rs_good r \<Longrightarrow> pos h' = pos h + rs_total_read r"
begin

lemma seek_total:
  assumes "stream_ready usable st" and "stream_seek sk s st = Some st'" and "stream_good st'"
  shows "stream_total_read st' + pos (fs_handle st) = pos (fs_handle st') + stream_total_read st"
proof (cases "stream_good st")
  case True
  then obtain r h where r: "sk (fs_handle st) s = Some (r, h)"
    using seek_moves [of "fs_handle st" s] assms(1) by (auto simp: stream_ready_def)
  moreover have "pos h = pos (fs_handle st) + rs_total_read r" if "rs_good r"
    using seek_exact [OF _ r that] True assms(1) by (simp add: stream_ready_def)
  ultimately show ?thesis
    using True assms(2,3) by (auto simp: stream_seek_def stream_good_def stream_total_read_def status_add_def rs_good_def)
qed (use assms in \<open>simp add: stream_seek_def stream_good_def\<close>)

text \<open>While a stream is good, its total has grown as far as its position has moved.\<close>

lemma calls_total:
  "stream_ready usable st \<Longrightarrow> run_calls rd sk cs st = Some st' \<Longrightarrow> stream_good st' \<Longrightarrow>
     stream_total_read st' + pos (fs_handle st) = pos (fs_handle st') + stream_total_read st"
proof (induction cs arbitrary: st)
  case (Cons c cs)
  obtain st1 where c: "run_calls rd sk (c # cs) st = run_calls rd sk cs st1" "run_calls rd sk [c] st = Some st1"
    "stream_ready usable st1" using call_ready [OF Cons.prems(1), of c cs] by blast
  have rest: "run_calls rd sk cs st1 = Some st'" using c(1) Cons.prems(2) by simp
  have good: "stream_good st1" using calls_after_error [of st1 cs] rest Cons.prems(3) by auto
  have "stream_total_read st1 + pos (fs_handle st) = pos (fs_handle st1) + stream_total_read st"
  proof (cases c)
    case (Read s)
    then show ?thesis using read_ready [OF Cons.prems(1), of s] c(2) good by auto
  next
    case (Seek s)
    then show ?thesis using seek_total [OF Cons.prems(1), of s st1] c(2) good by (cases "stream_seek sk s st") auto
  qed
  moreover have "stream_total_read st' + pos (fs_handle st1) = pos (fs_handle st') + stream_total_read st1"
    using Cons.IH [OF c(3) rest Cons.prems(3)] .
  ultimately show ?case by (rule totals_chain)
qed simp

end

fun c_pos :: "c_file option \<Rightarrow> nat" where
  "c_pos None = 0"
| "c_pos (Some f) = cf_pos f"

fun w_pos :: "w_file option \<Rightarrow> nat" where
  "w_pos None = 0"
| "w_pos (Some f) = wf_pos f"

text \<open>A file of at most \<open>2\<^sup>6\<^sup>3 - 1\<close> bytes whose device reports a failure by an error that is not 0.\<close>

definition file_ok :: "c_file \<Rightarrow> bool" where
  "file_ok f \<longleftrightarrow> length (cf_bytes f) < 2 ^ 63 \<and> cf_pos f < 2 ^ 63 \<and> (\<forall>p s n e p'. cf_read_error f p s = Some (n, e, p') \<longrightarrow> e \<noteq> 0) \<and>
     cf_seek_error f \<noteq> Some 0"

definition c_usable :: "c_file option \<Rightarrow> bool" where
  "c_usable h \<longleftrightarrow> (case h of None \<Rightarrow> False | Some f \<Rightarrow> file_ok f)"

lemma word_of_seek: "0 \<le> int c + sint s \<Longrightarrow> (word_of_nat (nat (int c + sint s)) :: u64) = word_of_nat c + s"
  by (simp only: of_nat_nat of_int_add of_int_of_nat_eq of_int_sint scast_id)

lemma unat_small: "n < 2 ^ 64 \<Longrightarrow> unat (word_of_nat n :: u64) = n"
  by (simp add: unsigned_of_nat take_bit_nat_eq_self)

lemma capi_read_moves:
  assumes "c_usable h"
  shows "\<exists>r h'. capi_read h s = Some (r, h') \<and>
    (rs_good r \<longrightarrow> c_usable h' \<and> (word_of_nat (c_pos h') :: u64) = word_of_nat (c_pos h) + rs_total_read r)"
proof -
  obtain f where f: "h = Some f" "file_ok f" using assms by (auto simp: c_usable_def split: option.splits)
  let ?r = "min (unat s) (length (cf_bytes f) - cf_pos f)"
  have ok: "file_ok (f\<lparr>cf_pos := cf_pos f + ?r\<rparr>)" using f(2) by (auto simp: file_ok_def min_def)
  show ?thesis
  proof (cases "cf_read_error f (cf_pos f) s = None \<or> (\<exists>n e p. cf_read_error f (cf_pos f) s = Some (n, e, p) \<and> \<not> n < s)")
    case True
    then have "fread f s = (word_of_nat ?r, f\<lparr>cf_pos := cf_pos f + ?r\<rparr>)" by (auto simp: fread_def Let_def)
    then show ?thesis using f(1) ok by (simp add: c_usable_def Let_def read_status_of_def)
  next
    case False
    then obtain n e p where n: "cf_read_error f (cf_pos f) s = Some (n, e, p)" "n < s" by (cases "cf_read_error f (cf_pos f) s") auto
    then have "e \<noteq> 0" using f(2) unfolding file_ok_def by metis
    then show ?thesis using f(1) n by (auto simp: fread_def Let_def read_status_of_def capi_last_error_def rs_good_def)
  qed
qed

lemma capi_seek_moves:
  assumes "c_usable h"
  shows "\<exists>r h'. capi_seek h s = Some (r, h') \<and>
    (rs_good r \<longrightarrow> c_usable h' \<and> (word_of_nat (c_pos h') :: u64) = word_of_nat (c_pos h) + rs_total_read r)"
proof -
  obtain f where f: "h = Some f" "file_ok f" using assms by (auto simp: c_usable_def split: option.splits)
  let ?p = "int (cf_pos f) + sint s"
  show ?thesis
  proof (cases "cf_seek_error f = None \<and> 0 \<le> ?p \<and> ?p < 2 ^ 63")
    case True
    then have "fseek_cur f (sint s) = (True, f\<lparr>cf_pos := nat ?p\<rparr>)" by (simp add: fseek_cur_def Let_def)
    moreover have "file_ok (f\<lparr>cf_pos := nat ?p\<rparr>)" using f(2) True by (auto simp: file_ok_def)
    moreover have "(word_of_nat (nat ?p) :: u64) = word_of_nat (cf_pos f) + s"
      using True by (intro word_of_seek) simp
    ultimately show ?thesis using f(1) by (simp add: c_usable_def read_status_of_def)
  next
    case False
    define e where "e = (case cf_seek_error f of Some e \<Rightarrow> e | None \<Rightarrow> if ?p < 0 then 22 else 75)"
    have "fseek_cur f (sint s) = (False, f\<lparr>cf_errno := e\<rparr>)"
      using False by (auto simp: fseek_cur_def Let_def e_def split: option.splits)
    moreover have "e \<noteq> 0" using f(2) by (auto simp: e_def file_ok_def split: option.splits)
    ultimately show ?thesis using f(1) by (simp add: read_status_of_def capi_last_error_def rs_good_def)
  qed
qed

interpretation capi: exact_stream_impl capi_read capi_seek "\<lambda>h. word_of_nat (c_pos h)" c_usable
proof
  fix h s r h'
  show "c_usable h \<Longrightarrow> \<exists>r h'. capi_read h s = Some (r, h') \<and>
      (rs_good r \<longrightarrow> c_usable h' \<and> word_of_nat (c_pos h') = word_of_nat (c_pos h) + rs_total_read r)"
    by (rule capi_read_moves)
  show "c_usable h \<Longrightarrow> \<exists>r h'. capi_seek h s = Some (r, h') \<and> (rs_good r \<longrightarrow> c_usable h')"
    using capi_seek_moves [of h s] by blast
  show "c_usable h \<Longrightarrow> capi_seek h s = Some (r, h') \<Longrightarrow> rs_good r \<Longrightarrow>
      word_of_nat (c_pos h') = word_of_nat (c_pos h) + rs_total_read r"
    using capi_seek_moves [of h s] by auto
qed

definition w_usable :: "w_file option \<Rightarrow> bool" where
  "w_usable h \<longleftrightarrow> (case h of None \<Rightarrow> True | Some f \<Rightarrow> wf_fault f \<noteq> Some 0)"

lemma read_file_moves:
  assumes "wf_fault f \<noteq> Some 0"
  shows "\<exists>b r f'. read_file f s = (b, r, f') \<and> wf_fault f' = wf_fault f \<and>
    (if b then (word_of_nat (wf_pos f') :: u64) = word_of_nat (wf_pos f) + ucast r else wf_last_error f' \<noteq> 0)"
proof (cases "wf_fault f")
  case None
  let ?r = "min (unat s) (length (wf_bytes f) - wf_pos f)"
  have "?r < 2 ^ 32" using unsigned_less [of s, where 'a = nat] by (simp add: min_less_iff_disj)
  then have u: "ucast (word_of_nat ?r :: u32) = (word_of_nat ?r :: u64)"
    by (simp add: ucast_eq unsigned_of_nat take_bit_nat_eq_self uint_nat)
  have "read_file f s = (True, word_of_nat ?r, f\<lparr>wf_pos := wf_pos f + ?r\<rparr>)"
    by (simp only: read_file_def None Let_def option.case)
  moreover have "(word_of_nat (wf_pos f + ?r) :: u64) = word_of_nat (wf_pos f) + ucast (word_of_nat ?r :: u32)"
    unfolding u by (simp only: of_nat_add)
  ultimately show ?thesis using None by (metis w_file.select_convs(2,3) w_file.simps(8) w_file.update_convs(2) w_file.surjective)
qed (use assms in \<open>auto simp: read_file_def\<close>)

lemma winapi_read_moves:
  assumes "w_usable h"
  shows "\<exists>r h'. winapi_read h s = Some (r, h') \<and>
    (rs_good r \<longrightarrow> w_usable h' \<and> (word_of_nat (w_pos h') :: u64) = word_of_nat (w_pos h) + rs_total_read r)"
proof (cases h)
  case (Some f)
  then obtain b r f' where "read_file f (ucast s) = (b, r, f')" "wf_fault f' = wf_fault f"
    "if b then (word_of_nat (wf_pos f') :: u64) = word_of_nat (wf_pos f) + ucast r else wf_last_error f' \<noteq> 0"
    using read_file_moves [of f "ucast s"] assms by (auto simp: w_usable_def)
  then show ?thesis
    using Some assms by (cases b) (simp_all add: read_status_of_def rs_good_def winapi_last_error_def w_usable_def)
qed (simp add: read_status_of_def rs_good_def)

lemma winapi_seek_usable:
  "w_usable h \<Longrightarrow> \<exists>r h'. winapi_seek h s = Some (r, h') \<and> (rs_good r \<longrightarrow> w_usable h')"
  by (cases h) (auto simp: w_usable_def set_file_pointer_def Let_def split: option.splits)

interpretation winapi: stream_impl winapi_read winapi_seek "\<lambda>h. word_of_nat (w_pos h)" w_usable
  by unfold_locales (rule winapi_read_moves winapi_seek_usable; assumption)+

lemmas file_defs = stream_open_def stream_read_def stream_seek_def capi_open_def rs_good_def read_status_of_def
  status_add_def stream_good_def stream_total_read_def stream_last_read_def stream_last_error_def
  capi_last_error_def winapi_last_error_def

subsection \<open>File mappings\<close>

text \<open>
  The handles the process holds, the answers of the API in the order of the calls, and the members of
  \<open>file_mapping\<close>. A throwing constructor leaves the object without running its destructor.
\<close>

record win_answers =
  wa_open :: bool
  wa_size :: "nat option"
  wa_mapping :: bool
  wa_view :: "u8 list option"

record win_handles =
  wh_files :: nat
  wh_mappings :: nat
  wh_views :: nat

record file_mapping =
  fm_mapping :: bool
  fm_p :: "u8 list option"
  fm_size :: nat

datatype map_error = Last_Error | Cannot_Fit

definition map_file :: "nat \<Rightarrow> win_answers \<Rightarrow> win_handles \<Rightarrow> (map_error + file_mapping) \<times> win_handles" where
  "map_file size_bits a w =
     (if \<not> wa_open a then (Inl Last_Error, w)
      else let w = w\<lparr>wh_files := wh_files w + 1\<rparr> in
        case wa_size a of
          None \<Rightarrow> (Inl Last_Error, w)
        | Some s \<Rightarrow>
            if 2 ^ 32 \<le> s \<and> size_bits < 64 then (Inl Cannot_Fit, w)
            else let w = (if wa_mapping a then w\<lparr>wh_mappings := wh_mappings w + 1\<rparr> else w);
                     w = w\<lparr>wh_files := wh_files w - 1\<rparr>
                 in if \<not> wa_mapping a then (Inl Last_Error, w)
                    else case wa_view a of
                      None \<Rightarrow> (Inl Last_Error, w)
                    | Some p \<Rightarrow> (Inr \<lparr>fm_mapping = True, fm_p = Some p, fm_size = s\<rparr>, w\<lparr>wh_views := wh_views w + 1\<rparr>))"

definition mapping_view :: "file_mapping \<Rightarrow> u8 list option \<times> nat" where
  "mapping_view m = (fm_p m, fm_size m)"

definition mapping_close :: "file_mapping \<Rightarrow> win_handles \<Rightarrow> file_mapping \<times> win_handles" where
  "mapping_close m w =
     (let (m, w) = (if fm_p m \<noteq> None then (m\<lparr>fm_p := None, fm_size := 0\<rparr>, w\<lparr>wh_views := wh_views w - 1\<rparr>) else (m, w))
      in if fm_mapping m then (m\<lparr>fm_mapping := False\<rparr>, w\<lparr>wh_mappings := wh_mappings w - 1\<rparr>) else (m, w))"

lemma map_file_close:
  "map_file bits a w = (Inr m, w') \<Longrightarrow> snd (mapping_close m w') = w \<and> mapping_view (fst (mapping_close m w')) = (None, 0)"
  by (auto simp: map_file_def mapping_close_def mapping_view_def Let_def split: if_splits option.splits)


subsection \<open>What the clients of a stream see\<close>

lemma capi_open_ready:
  assumes "case found of None \<Rightarrow> errno \<noteq> 0 | Some f \<Rightarrow> file_ok f"
  shows "stream_ready c_usable (stream_open (capi_open found errno))"
  using assms by (cases found) (auto simp: stream_ready_def file_defs capi_empty_handle_def c_usable_def file_ok_def)

text \<open>C39: However a client mixes reads and seeks on a stream it opened over the C library, on a file of less than
  \<open>2\<^sup>6\<^sup>3\<close> bytes whose device names its failures: no call ever goes through a null pointer, while there is no error
  the total is exactly the position in the file, also after a seek by a size so large that it goes
  backwards, and after the first error nothing more happens and the error stays.\<close>

theorem stream_totals:
  assumes "case found of None \<Rightarrow> errno \<noteq> 0 | Some f \<Rightarrow> file_ok f"
  shows "\<exists>st. run_calls capi_read capi_seek cs (stream_open (capi_open found errno)) = Some st \<and>
    (stream_good st \<longrightarrow> unat (stream_total_read st) = c_pos (fs_handle st)) \<and>
    (\<not> stream_good st \<longrightarrow> run_calls capi_read capi_seek cs' st = Some st) \<and>
    (found = None \<longrightarrow> stream_last_error st = errno \<and> stream_total_read st = 0)"
proof -
  let ?st = "stream_open (capi_open found errno)"
  have ready: "stream_ready c_usable ?st" using assms by (rule capi_open_ready)
  obtain st where st: "run_calls capi_read capi_seek cs ?st = Some st" "stream_ready c_usable st"
    using capi.calls_ready [OF ready] by blast
  have start: "c_pos (fs_handle ?st) = 0" "stream_total_read ?st = 0"
    by (cases found; simp add: file_defs capi_empty_handle_def)+
  have total: "unat (stream_total_read st) = c_pos (fs_handle st)" if good: "stream_good st"
  proof -
    have "stream_total_read st = word_of_nat (c_pos (fs_handle st))"
      using capi.calls_total [OF ready st(1) good] start by simp
    moreover have "c_pos (fs_handle st) < 2 ^ 64"
      using st(2) good by (auto simp: stream_ready_def c_usable_def file_ok_def split: option.splits)
    ultimately show ?thesis by (simp add: unat_small)
  qed
  have "st = ?st" if "found = None"
    using capi.calls_after_error [of ?st cs] st(1) assms that by (simp add: file_defs)
  then show ?thesis
    using st(1) total capi.calls_after_error [of st cs'] by (auto simp: file_defs capi_empty_handle_def)
qed

definition sample_file :: c_file where
  "sample_file = \<lparr>cf_bytes = [1, 2, 3, 4, 5], cf_pos = 0, cf_errno = 0, cf_read_error = (\<lambda>_ _. None), cf_seek_error = None\<rparr>"

theorem stream_totals_witness:
  "\<exists>st. run_calls capi_read capi_seek [Read 2, Seek 3, Seek (- 1)] (stream_open (capi_open (Some sample_file) 2)) = Some st \<and>
     unat (stream_total_read st) = 4"
proof -
  let ?o = "stream_open (capi_open (Some sample_file) 2)"
  obtain st where st: "run_calls capi_read capi_seek [Read 2, Seek 3, Seek (- 1)] ?o = Some st"
    "stream_good st \<longrightarrow> unat (stream_total_read st) = c_pos (fs_handle st)"
    using stream_totals [where found = "Some sample_file" and errno = 2 and cs = "[Read 2, Seek 3, Seek (- 1)]"] by (auto simp: sample_file_def file_ok_def)
  moreover have "c_pos (fs_handle st) = 4" "stream_good st"
    using st(1) by (auto simp: sample_file_def file_defs fread_def fseek_cur_def Let_def)
  ultimately show ?thesis by simp
qed

text \<open>A read that reaches the end of the file is short but no error, when \<open>errno\<close> was clear: the stream
  stays good, and only the count of the last read tells.\<close>

theorem read_at_end_is_good:
  assumes "stream_good st" and "fs_handle st = Some f" and "cf_errno f = 0" and "cf_read_error f (cf_pos f) s = None"
    and "length (cf_bytes f) - cf_pos f < unat s"
  shows "\<exists>st'. stream_read capi_read s st = Some st' \<and> stream_good st' \<and>
    unat (stream_last_read st') = length (cf_bytes f) - cf_pos f"
proof -
  have "length (cf_bytes f) - cf_pos f < 2 ^ 64" using assms(5) unsigned_less [of s, where 'a = nat] by simp
  then have n: "unat (word_of_nat (length (cf_bytes f) - cf_pos f) :: u64) = length (cf_bytes f) - cf_pos f" by (rule unat_small)
  then have "word_of_nat (length (cf_bytes f) - cf_pos f) \<noteq> s" using assms(5) by auto
  then show ?thesis using assms n by (simp add: file_defs fread_def Let_def)
qed

theorem read_at_end_is_good_witness:
  "\<exists>st'. stream_read capi_read 8 (stream_open (capi_open (Some sample_file) 2)) = Some st' \<and> stream_good st' \<and>
     unat (stream_last_read st') = 5"
  using read_at_end_is_good [of "stream_open (capi_open (Some sample_file) 2)" sample_file 8]
  by (auto simp: sample_file_def file_defs)

text \<open>Over the Windows API a seek that ends at a position whose low half is the failure value is taken for
  a failure with no error: the stream stays good, but the bytes skipped are missing from its total.\<close>

theorem winapi_seek_uncounted:
  assumes "stream_good st" and "fs_handle st = Some f" and "wf_fault f = None"
    and "0 \<le> p" and "p < 2 ^ 63" and "nat p mod 2 ^ 32 = invalid_set_file_pointer" and "p = int (wf_pos f) + sint s"
  shows "\<exists>st'. stream_seek winapi_seek s st = Some st' \<and> stream_good st' \<and>
    int (w_pos (fs_handle st')) = p \<and> stream_total_read st' = stream_total_read st"
proof -
  have "set_file_pointer f (sint s) = (invalid_set_file_pointer, f\<lparr>wf_pos := nat p, wf_last_error := 0\<rparr>)"
    using assms by (simp add: set_file_pointer_def Let_def)
  then show ?thesis using assms(1,2,4) by (simp add: file_defs)
qed

theorem winapi_seek_uncounted_witness:
  "\<exists>st'. stream_seek winapi_seek 4294967295
       (stream_open (winapi_open (Some \<lparr>wf_bytes = [], wf_pos = 0, wf_fault = None, wf_last_error = 0\<rparr>) 2)) = Some st' \<and>
     stream_good st' \<and> int (w_pos (fs_handle st')) = 4294967295 \<and> stream_total_read st' = 0"
proof -
  let ?f = "\<lparr>wf_bytes = [] :: u8 list, wf_pos = 0, wf_fault = None, wf_last_error = 0\<rparr>"
  let ?st = "stream_open (winapi_open (Some ?f) 2)"
  have st: "stream_good ?st" "fs_handle ?st = Some ?f" "stream_total_read ?st = 0"
    by (simp_all add: file_defs winapi_open_def)
  have p: "(4294967295 :: int) = int (wf_pos ?f) + sint (4294967295 :: u64)" by simp
  have m: "nat (4294967295 :: int) mod 2 ^ 32 = invalid_set_file_pointer" by (simp add: invalid_set_file_pointer_def)
  have f: "wf_fault ?f = None" by simp
  have "\<exists>st'. stream_seek winapi_seek 4294967295 ?st = Some st' \<and> stream_good st' \<and>
      int (w_pos (fs_handle st')) = 4294967295 \<and> stream_total_read st' = stream_total_read ?st"
    by (rule winapi_seek_uncounted [OF st(1,2) f _ _ m p]) simp_all
  then show ?thesis using st(3) by metis
qed

subsection \<open>The handles of a mapping\<close>

text \<open>C40: Closing a file mapping gives back every handle its constructor took; but a constructor that throws
  keeps some: the file's when its size cannot be read or does not fit, the mapping's when no view is
  given.\<close>

theorem mapping_handles:
  "(case map_file bits a w of
     (Inr m, w') \<Rightarrow> snd (mapping_close m w') = w \<and> mapping_view (fst (mapping_close m w')) = (None, 0)
   | (Inl err, w') \<Rightarrow>
       w' = (if \<not> wa_open a then w
             else if wa_size a = None \<or> err = Cannot_Fit then w\<lparr>wh_files := wh_files w + 1\<rparr>
             else if \<not> wa_mapping a then w
             else w\<lparr>wh_mappings := wh_mappings w + 1\<rparr>))"
proof (cases "map_file bits a w")
  case (Pair r w')
  show ?thesis
  proof (cases r)
    case (Inr m)
    then show ?thesis using map_file_close [of bits a w m w'] Pair by simp
  next
    case (Inl err)
    then show ?thesis using Pair by (auto simp: map_file_def Let_def split: if_splits option.splits)
  qed
qed

end
