(* ===== verification/Humanize.thy ===== *)
theory Humanize imports
  Doubles
begin

section \<open>Humanize: numbers with a unit prefix\<close>

text \<open>
  \<open>humanize_number\<close> of \<open>src/src/utils/humanize_number.cpp\<close>. The decimal text of the scaled number is
  the generator library's, an argument. The table of prefixes has nine entries, and the loop may
  leave with the stage 9, one past them: the assertion on the stage fails then, as the one on the factor does
  when it is not positive, \<open>None\<close>.
\<close>

definition units :: "string list" where
  "units = ['' '', '' Ki'', '' Mi'', '' Gi'', '' Ti'', '' Pi'', '' Ei'', '' Zi'', '' iY'']"

function humanize_loop :: "double \<Rightarrow> double \<Rightarrow> nat \<Rightarrow> double \<times> nat" where
  "humanize_loop thousands val stage =
     (if dbl_ge val thousands \<and> stage < length units
      then humanize_loop thousands (dbl_div val thousands) (stage + 1)
      else (val, stage))"
  by pat_completeness auto

termination humanize_loop
  by (relation "measure (\<lambda>(_, _, stage). length units - stage)") auto

declare humanize_loop.simps [simp del]

definition max_unit_length :: nat where
  "max_unit_length = 25"

definition humanize_number :: "(double \<Rightarrow> string) \<Rightarrow> nat \<Rightarrow> string \<Rightarrow> double \<Rightarrow> string option" where
  "humanize_number generate_double n unit thousands =
     (if \<not> dbl_less (Finite 0) thousands then None
      else if length unit > max_unit_length then Some []
      else let (val, stage) = humanize_loop thousands (dbl_of_int (int n)) 0
           in if stage < length units then Some (generate_double val @ units ! stage @ unit) else None)"

subsection \<open>The stage for multiples of 1024\<close>

lemma length_units [simp]: "length units = 9"
  by (simp add: units_def)

lemma round53_powi:
  assumes "- 1000 \<le> e"
  shows "round53 (2 powi e) = 2 powi e"
proof (rule round53_exact [of _ 1 e])
  have "rat_log2 (2 powi e) \<le> e" by (intro rat_log2_less powi_2_less) simp_all
  then show "ulp_exp (2 powi e) \<le> e" using assms by (simp add: ulp_exp_def)
qed simp_all

text \<open>One turn of the loop, for a value below a power of two.\<close>

lemma scaled_down:
  assumes "0 \<le> x" and "x \<le> 2 powi (e + 10)" and "0 \<le> e" and "e \<le> 60"
  shows "\<exists>y. dbl_div (Finite x) (Finite 1024) = Finite y \<and> 0 \<le> y \<and> y \<le> 2 powi e"
proof -
  have "(2::rat) powi (e + 10) = 2 powi e * 1024" by (simp add: power_int_add)
  then have le: "x / 1024 \<le> 2 powi e" using assms(2) by simp
  have "(2::rat) powi e \<le> 2 powi 60" using assms(4) by (rule powi_2_le)
  also have "\<dots> \<le> 2 ^ 1000" by simp
  finally have "\<bar>x / 1024\<bar> \<le> 2 ^ 1000" using le assms(1) by simp
  then have "dbl_div (Finite x) (Finite 1024) = Finite (round53 (x / 1024))"
    by (simp add: to_double_finite)
  moreover have "round53 (x / 1024) \<le> 2 powi e"
    using round53_mono [OF le] round53_powi [of e] assms(3) by simp
  moreover have "0 \<le> round53 (x / 1024)" using assms(1) by (intro round53_nonneg) simp
  ultimately show ?thesis by blast
qed

lemma humanize_loop_stage:
  assumes "0 \<le> x" and "x \<le> 2 powi (int (10 * k) + 4)" and "k \<le> 6" and "stage + k \<le> 8"
  shows "\<exists>y s. humanize_loop (Finite 1024) (Finite x) stage = (Finite y, s) \<and> 0 \<le> y \<and> y < 1024 \<and> s \<le> stage + k"
  using assms
proof (induction k arbitrary: x stage)
  case 0
  then have "x < 1024" by simp
  then show ?case using 0(1) by (simp add: humanize_loop.simps [of "Finite 1024" "Finite x" stage] dbl_ge_def)
next
  case (Suc k)
  show ?case
  proof (cases "dbl_ge (Finite x) (Finite 1024)")
    case True
    have "int (10 * Suc k) + 4 = (int (10 * k) + 4) + 10" by simp
    then obtain y where y: "dbl_div (Finite x) (Finite 1024) = Finite y" "0 \<le> y" "y \<le> 2 powi (int (10 * k) + 4)"
      using scaled_down [of x "int (10 * k) + 4"] Suc.prems by auto
    show ?thesis
      using Suc.IH [OF y(2,3), of "stage + 1"] Suc.prems True y(1)
      by (auto simp: humanize_loop.simps [of "Finite 1024" "Finite x" stage] simp del: dbl_div.simps)
  next
    case False
    then have "x < 1024" by (auto simp: dbl_ge_def)
    then show ?thesis
      using False Suc.prems(1) by (auto simp: humanize_loop.simps [of "Finite 1024" "Finite x" stage])
  qed
qed


subsection \<open>Every 64-bit count has a prefix\<close>

text \<open>With 1024 to the next prefix, every 64-bit count is scaled below 1024 in at most six steps, so a
  prefix is always there and the text is the scaled number, the prefix and the unit.\<close>

theorem humanize_in_table:
  assumes "n < 2 ^ 64" and "length unit \<le> max_unit_length"
  shows "\<exists>y stage. stage \<le> 6 \<and> 0 \<le> y \<and> y < 1024 \<and> humanize_loop (Finite 1024) (dbl_of_int (int n)) 0 = (Finite y, stage) \<and>
    humanize_number gen n unit (Finite 1024) = Some (gen (Finite y) @ units ! stage @ unit)"
proof -
  have "(of_int (int n) :: rat) \<le> of_int (2 ^ 64)" using assms(1) by (simp only: of_int_le_iff) simp
  also have "\<dots> \<le> 2 ^ 1000" by simp
  finally have d: "dbl_of_int (int n) = Finite (round53 (of_int (int n)))"
    by (simp add: dbl_of_int_def to_double_finite)
  have "round53 (of_int (int n)) \<le> round53 (2 powi 64)"
    using assms(1) by (intro round53_mono) (simp add: powi_2_nat del: power_int_numeral)
  then have le: "round53 (of_int (int n)) \<le> 2 powi (int (10 * 6) + 4)"
    by (simp add: round53_powi del: power_int_numeral)
  have "0 \<le> round53 (of_int (int n))" by (intro round53_nonneg) simp
  from humanize_loop_stage [OF this le, of 0] obtain y stage where
    "humanize_loop (Finite 1024) (dbl_of_int (int n)) 0 = (Finite y, stage)" "0 \<le> y" "y < 1024" "stage \<le> 6"
    by (auto simp: d)
  then show ?thesis using assms(2) by (auto simp: humanize_number_def)
qed

theorem humanize_in_table_witness:
  "\<exists>stage. stage \<le> 6 \<and> humanize_number (\<lambda>_. ''x'') 5000000 ''B'' (Finite 1024) = Some (''x'' @ units ! stage @ ''B'')"
proof -
  have "length ''B'' \<le> max_unit_length" "(5000000 :: nat) < 2 ^ 64" by (simp_all add: max_unit_length_def)
  then show ?thesis using humanize_in_table [of 5000000 "''B''" "\<lambda>_. ''x''"] by auto
qed

end
