(* ===== verification/Quotes.thy ===== *)
theory Quotes imports
  Doubles
  Timespec
  Tables
begin

section \<open>Quotes: generated prices\<close>

text \<open>
  \<open>quote_generator.hpp\<close> and the values of \<open>quote.hpp\<close> in \<open>src/src/simulator\<close>. The random engines and
  distributions of the C++ library are an argument: what a distribution draws from the state of its
  engine. Prices are IEEE doubles; adding a margin to them is monotonic, which the brokers rely on. A failed
  assertion is \<open>None\<close>, as is an access outside a vector.
\<close>

subsection \<open>Random numbers\<close>

record 'r random =
  uniform_real :: "double \<Rightarrow> double \<Rightarrow> 'r \<Rightarrow> double \<times> 'r"
  uniform_int :: "nat \<Rightarrow> nat \<Rightarrow> 'r \<Rightarrow> nat \<times> 'r"

subsection \<open>The quote generator\<close>

record quote_values =
  qv_volume :: double
  qv_open :: double
  qv_high :: double
  qv_low :: double
  qv_close :: double

record 'r quote_gen =
  qg_random :: 'r
  qg_amplitude :: double
  qg_last :: double

text \<open>\<open>value_distribution\<close>: between minus and plus half of the amplitude.\<close>

definition draw_value :: "('r, 'm) random_scheme \<Rightarrow> double \<Rightarrow> 'r \<Rightarrow> double \<times> 'r" where
  "draw_value rnd amplitude r =
     uniform_real rnd (dbl_div (dbl_neg amplitude) (Finite 2)) (dbl_div amplitude (Finite 2)) r"

definition midpoint :: "double \<Rightarrow> double \<Rightarrow> double \<Rightarrow> nat \<Rightarrow> double" where
  "midpoint front back v generation =
     dbl_max (to_double (1 / 100))
       (dbl_add (dbl_div (dbl_add front back) (Finite 2)) (dbl_div v (dbl_of_int (int generation))))"

text \<open>A positive price; a comparison with a NaN is false.\<close>

definition price_ok :: "double \<Rightarrow> bool" where
  "price_ok d \<longleftrightarrow> dbl_less (Finite 0) d"

text \<open>
  \<open>fill_values\<close> on the values between its iterators: the smallest and the largest it has seen, the
  values afterwards, and the random state. Both halves keep the middle value. It asserts that there are two
  values at least, which makes its own test of that always true, and that the two ends are positive.
\<close>

function fill_values ::
  "('r, 'm) random_scheme \<Rightarrow> double \<Rightarrow> double list \<Rightarrow> nat \<Rightarrow> 'r \<Rightarrow> ((double \<times> double) \<times> double list \<times> 'r) option" where
  "fill_values rnd amplitude vs generation r =
     (let front = hd vs; back = last vs
      in if length vs < 2 \<or> \<not> price_ok front \<or> \<not> price_ok back then None
         else
           let current_min = dbl_min front back; current_max = dbl_max front back;
               (v, r) = draw_value rnd amplitude r;
               new_value = midpoint front back v generation;
               middle = max (length vs div 2) 1;
               (mn, mx) = (dbl_min current_min new_value, dbl_max current_max new_value);
               vs = vs[middle := new_value]
           in (case (if 2 \<le> middle
                     then (case fill_values rnd amplitude (take (middle + 1) vs) (generation + 1) r of
                        None \<Rightarrow> None
                      | Some ((new_min, new_max), left, r) \<Rightarrow> Some ((dbl_min mn new_min, dbl_max mx new_max), left, r))
                     else Some ((mn, mx), take (middle + 1) vs, r)) of
                 None \<Rightarrow> None
               | Some ((mn, mx), left, r) \<Rightarrow>
                   if 2 \<le> length vs - middle
                   then (case fill_values rnd amplitude (last left # drop (middle + 1) vs) (generation + 1) r of
                      None \<Rightarrow> None
                    | Some ((new_min, new_max), right, r) \<Rightarrow>
                        Some ((dbl_min mn new_min, dbl_max mx new_max), butlast left @ right, r))
                   else Some ((mn, mx), left @ drop (middle + 1) vs, r)))"
  by pat_completeness auto

termination fill_values
  by (relation "measure (\<lambda>(_, _, vs, _, _). length vs)") (auto simp: max_def)

declare fill_values.simps [simp del]

text \<open>
  \<open>operator()\<close>: the front of an empty vector is outside it. The last price stays the initial one, and the
  low price is asserted not to be above the high one.
\<close>

definition dbl_at_most :: "double \<Rightarrow> double \<Rightarrow> bool" where
  "dbl_at_most a b \<longleftrightarrow> dbl_less a b \<or> (a = b \<and> a \<noteq> NaN)"

definition generate_quote :: "('r, 'm) random_scheme \<Rightarrow> nat \<Rightarrow> 'r quote_gen \<Rightarrow> (quote_values \<times> 'r quote_gen) option" where
  "generate_quote rnd volume g =
     (if volume = 0 then None
      else let values = (replicate volume (Finite 0))[0 := qg_last g];
               (v, r) = draw_value rnd (qg_amplitude g) (qg_random g);
               values = values[volume - 1 :=
                 dbl_max (to_double (1 / 10000)) (dbl_add (qg_last g) (dbl_mul v (Finite 2)))]
           in (case fill_values rnd (qg_amplitude g) values 1 r of
                 None \<Rightarrow> None
               | Some ((low, high), values, r) \<Rightarrow>
                   if dbl_at_most low high
                   then Some (\<lparr>qv_volume = dbl_of_int (int (length values)), qv_open = hd values, qv_high = high,
                     qv_low = low, qv_close = last values\<rparr>, g\<lparr>qg_random := r\<rparr>)
                   else None))"

subsection \<open>Prices\<close>

definition dbl_le :: "double \<Rightarrow> double \<Rightarrow> bool" where
  "dbl_le a b \<longleftrightarrow> a = b \<or> dbl_less a b"

lemma price_ok_cases: "price_ok d \<Longrightarrow> (\<And>x. d = Finite x \<Longrightarrow> 0 < x \<Longrightarrow> P) \<Longrightarrow> (d = PosInf \<Longrightarrow> P) \<Longrightarrow> P"
  by (cases d) (auto simp: price_ok_def)

lemma dbl_le_refl [simp]: "dbl_le a a"
  by (simp add: dbl_le_def)

lemma dbl_le_trans: "dbl_le a b \<Longrightarrow> dbl_le b c \<Longrightarrow> dbl_le a c"
  by (cases a; cases b; cases c) (auto simp: dbl_le_def)

lemma dbl_le_at_most: "price_ok a \<Longrightarrow> dbl_le a b \<Longrightarrow> dbl_at_most a b"
  by (auto simp: dbl_at_most_def dbl_le_def price_ok_def)

lemma dbl_min_ok: "price_ok a \<Longrightarrow> price_ok b \<Longrightarrow>
    price_ok (dbl_min a b) \<and> dbl_le (dbl_min a b) a \<and> dbl_le (dbl_min a b) b"
  by (elim price_ok_cases) (auto simp: dbl_min_def dbl_le_def price_ok_def)

lemma dbl_max_ok: "price_ok a \<Longrightarrow> price_ok b \<Longrightarrow>
    price_ok (dbl_max a b) \<and> dbl_le a (dbl_max a b) \<and> dbl_le b (dbl_max a b)"
  by (elim price_ok_cases) (auto simp: dbl_max_def dbl_le_def price_ok_def)

text \<open>The floor of a new price makes it a price, whatever was drawn.\<close>

lemma price_ok_floor: "price_ok c \<Longrightarrow> price_ok (dbl_max c x)"
  by (cases c; cases x) (auto simp: dbl_max_def price_ok_def)

lemma floors_ok: "price_ok (to_double (1 / 100)) \<and> price_ok (to_double (1 / 10000))"
  by code_simp

lemma price_ok_midpoint: "price_ok (midpoint front back v generation)"
  using floors_ok by (simp add: midpoint_def price_ok_floor)

lemma to_double_mono:
  assumes "x \<le> y"
  shows "dbl_le (to_double x) (to_double y)"
proof -
  have r: "round53 x \<le> round53 y" using assms by (rule round53_mono)
  show ?thesis
  proof (cases "0 < round53 x \<or> round53 y < 0")
    case True
    then have "rat_log2 \<bar>round53 x\<bar> \<le> rat_log2 \<bar>round53 y\<bar> \<and> 0 < round53 x \<or>
        rat_log2 \<bar>round53 y\<bar> \<le> rat_log2 \<bar>round53 x\<bar> \<and> round53 y < 0"
      using r rat_log2_mono [of "\<bar>round53 x\<bar>" "\<bar>round53 y\<bar>"] rat_log2_mono [of "\<bar>round53 y\<bar>" "\<bar>round53 x\<bar>"]
      by linarith
    then show ?thesis using r by (auto simp: to_double_def Let_def dbl_le_def)
  next
    case False
    then show ?thesis using r by (auto simp: to_double_def Let_def dbl_le_def)
  qed
qed

lemma to_double_fix: "to_double x = Finite y \<Longrightarrow> x \<le> z \<Longrightarrow> dbl_le (Finite y) (to_double z)"
  by (metis to_double_mono)

text \<open>Adding a margin keeps prices prices, and their order.\<close>

definition margin_ok :: "double \<Rightarrow> bool" where
  "margin_ok d \<longleftrightarrow> price_ok d \<and> (\<forall>x. d = Finite x \<longrightarrow> to_double x = d)"

lemma price_ok_le: "price_ok a \<Longrightarrow> dbl_le a b \<Longrightarrow> price_ok b"
  by (cases a; cases b) (auto simp: price_ok_def dbl_le_def)

lemma price_ok_margin:
  assumes "price_ok p" and "margin_ok m"
  shows "price_ok (dbl_add p m)"
proof (cases "\<exists>x y. p = Finite x \<and> m = Finite y")
  case True
  then obtain x y where xy: "p = Finite x" "m = Finite y" by blast
  then have "dbl_le m (to_double (x + y))"
    using assms by (auto simp: margin_ok_def price_ok_def intro: to_double_fix)
  then show ?thesis
    using assms xy price_ok_le [of m] by (simp add: margin_ok_def)
next
  case False
  then show ?thesis using assms by (cases p; cases m) (auto simp: price_ok_def margin_ok_def)
qed

lemma dbl_le_margin: "dbl_le a b \<Longrightarrow> price_ok m \<Longrightarrow> price_ok a \<Longrightarrow> dbl_le (dbl_add a m) (dbl_add b m)"
proof (cases "\<exists>x y z. a = Finite x \<and> b = Finite y \<and> m = Finite z")
  case True
  assume le: "dbl_le a b"
  from True obtain x y z where "a = Finite x" "b = Finite y" "m = Finite z" by blast
  with le show ?thesis
    by (auto simp: dbl_le_def simp del: less_imp_le intro!: to_double_mono [unfolded dbl_le_def])
next
  case False
  assume "dbl_le a b" "price_ok m" "price_ok a"
  with False show ?thesis
    by (cases a; cases b; cases m) (auto simp: price_ok_def dbl_le_def to_double_def Let_def)
qed

definition priced_in :: "double \<Rightarrow> double \<Rightarrow> double list \<Rightarrow> bool" where
  "priced_in mn mx vs \<longleftrightarrow> price_ok mn \<and> price_ok mx \<and> (\<forall>v\<in>set vs. price_ok v \<and> dbl_le mn v \<and> dbl_le v mx)"

lemma priced_in_widen:
  assumes "priced_in a b vs" and "price_ok mn" and "price_ok mx"
  shows "priced_in (dbl_min mn a) (dbl_max mx b) vs"
  using assms dbl_min_ok [of mn a] dbl_max_ok [of mx b] by (auto simp: priced_in_def intro: dbl_le_trans)

lemma priced_in_append: "priced_in mn mx (xs @ ys) \<longleftrightarrow> priced_in mn mx xs \<and> priced_in mn mx ys"
  by (auto simp: priced_in_def)

lemma priced_in_bounds_ok: "priced_in mn mx vs \<Longrightarrow> price_ok mn \<and> price_ok mx"
  by (simp add: priced_in_def)

text \<open>What a call promises: it keeps the length and the first value, and its bounds hold for all values.\<close>

definition filled :: "double list \<Rightarrow> (double \<times> double) \<times> double list \<times> 'r \<Rightarrow> bool" where
  "filled vs res = (case res of ((mn, mx), vs', _) \<Rightarrow>
     length vs' = length vs \<and> hd vs' = hd vs \<and> priced_in mn mx vs')"

lemma fill_values_filled:
  "2 \<le> length vs \<Longrightarrow> price_ok (hd vs) \<Longrightarrow> price_ok (last vs) \<Longrightarrow>
    \<exists>res. fill_values rnd amplitude vs generation r = Some res \<and> filled vs res"
proof (induction "length vs" arbitrary: vs generation r rule: less_induct)
  case less
  let ?front = "hd vs" and ?rear = "last vs"
  note ends = dbl_min_ok [OF less.prems(2,3)] dbl_max_ok [OF less.prems(2,3)]
  have checked: "\<not> (length vs < 2 \<or> \<not> price_ok ?front \<or> \<not> price_ok ?rear)" using less.prems by simp
  obtain v r1 where v: "draw_value rnd amplitude r = (v, r1)" by fastforce
  define n m x where "n = length vs" and "m = max (length vs div 2) 1" and "x = midpoint ?front ?rear v generation"
  define mn mx where "mn = dbl_min (dbl_min ?front ?rear) x" and "mx = dbl_max (dbl_max ?front ?rear) x"
  define vs1 where "vs1 = vs[m := x]"
  define L where "L = (if 2 \<le> m
      then (case fill_values rnd amplitude (take (m + 1) vs1) (generation + 1) r1 of
         None \<Rightarrow> None
       | Some ((new_min, new_max), left, r) \<Rightarrow> Some ((dbl_min mn new_min, dbl_max mx new_max), left, r))
      else Some ((mn, mx), take (m + 1) vs1, r1))"
  have unfolded: "fill_values rnd amplitude vs generation r = (case L of None \<Rightarrow> None
   | Some ((mn1, mx1), left, r2) \<Rightarrow>
       if 2 \<le> length vs1 - m
       then (case fill_values rnd amplitude (last left # drop (m + 1) vs1) (generation + 1) r2 of
          None \<Rightarrow> None
        | Some ((new_min, new_max), right, r) \<Rightarrow>
            Some ((dbl_min mn1 new_min, dbl_max mx1 new_max), butlast left @ right, r))
       else Some ((mn1, mx1), left @ drop (m + 1) vs1, r2))"
    by (subst fill_values.simps)
      (simp only: L_def mn_def mx_def vs1_def x_def m_def Let_def v prod.case if_not_P [OF checked])
  have m: "1 \<le> m" "m < n" "2 \<le> m \<Longrightarrow> m + 1 < n" using less.prems(1) by (auto simp: m_def n_def max_def)
  have n: "length vs = n" "length vs1 = n" by (simp_all add: n_def vs1_def)
  have x_ok: "price_ok x"
    unfolding x_def by (rule price_ok_midpoint)
  have ok: "price_ok mn" "price_ok mx" "dbl_le mn ?front" "dbl_le ?front mx" "dbl_le mn x" "dbl_le x mx"
    using ends x_ok dbl_min_ok [of "dbl_min ?front ?rear" x] dbl_max_ok [of "dbl_max ?front ?rear" x]
    by (auto simp: mn_def mx_def intro: dbl_le_trans)
  let ?seg = "take (m + 1) vs1"
  have seg: "length ?seg = m + 1" "hd ?seg = ?front" "last ?seg = x" "?seg \<noteq> []"
  proof -
    have "vs \<noteq> []" using less.prems(1) by auto
    then show "length ?seg = m + 1" "hd ?seg = ?front" "last ?seg = x" "?seg \<noteq> []"
      using m n by (auto simp: vs1_def hd_conv_nth last_conv_nth nth_list_update min_def)
  qed
  have "\<exists>mn1 mx1 left r2. L = Some ((mn1, mx1), left, r2) \<and> length left = m + 1 \<and> hd left = ?front \<and> priced_in mn1 mx1 left"
  proof (cases "2 \<le> m")
    case True
    have "\<exists>res. fill_values rnd amplitude ?seg (generation + 1) r1 = Some res \<and> filled ?seg res"
      using seg m True n less.prems(2) x_ok by (intro less.hyps) auto
    then obtain a b l r' where f: "fill_values rnd amplitude ?seg (generation + 1) r1 = Some ((a, b), l, r')"
      and l: "length l = m + 1" "hd l = ?front" "priced_in a b l"
      using seg(1,2) by (auto simp: filled_def)
    have "L = Some ((dbl_min mn a, dbl_max mx b), l, r')"
      unfolding L_def if_P [OF True] f by simp
    then show ?thesis using l priced_in_widen [OF l(3) ok(1,2)] by blast
  next
    case False
    then have "m = 1" using m by simp
    obtain y ys where ys: "?seg = y # ys" using seg(4) by (cases ?seg) auto
    then obtain z where "ys = [z]" using seg(1) \<open>m = 1\<close> by (cases ys) auto
    with ys have two: "?seg = [?front, x]" using seg(2,3) by simp
    have "L = Some ((mn, mx), [?front, x], r1)" unfolding L_def if_not_P [OF False] two ..
    then show ?thesis
      using \<open>m = 1\<close> ok less.prems(2) x_ok by (simp add: priced_in_def)
  qed
  then obtain mn1 mx1 left r2 where L': "L = Some ((mn1, mx1), left, r2)"
    and left: "length left = m + 1" "hd left = ?front" "priced_in mn1 mx1 left" by blast
  have eq: "fill_values rnd amplitude vs generation r =
     (if 2 \<le> length vs1 - m
      then (case fill_values rnd amplitude (last left # drop (m + 1) vs1) (generation + 1) r2 of
         None \<Rightarrow> None
       | Some ((new_min, new_max), right, r) \<Rightarrow>
           Some ((dbl_min mn1 new_min, dbl_max mx1 new_max), butlast left @ right, r))
      else Some ((mn1, mx1), left @ drop (m + 1) vs1, r2))"
    by (simp only: unfolded L' option.case prod.case)
  have lne: "left \<noteq> []" using left(1) by auto
  then have last_ok: "price_ok (last left)" using left(3) by (auto simp: priced_in_def)
  show ?case
  proof (cases "2 \<le> n - m")
    case True
    let ?rest = "drop (m + 1) vs1"
    have rest: "?rest \<noteq> []" "last ?rest = ?rear" "length ?rest = n - m - 1"
    proof -
      have "m + 1 < length vs" using True n by linarith
      then show "?rest \<noteq> []" "last ?rest = ?rear" "length ?rest = n - m - 1"
        using n by (simp_all add: vs1_def last_drop)
    qed
    have "\<exists>res. fill_values rnd amplitude (last left # ?rest) (generation + 1) r2 = Some res \<and> filled (last left # ?rest) res"
      using rest m True n last_ok less.prems(3) by (intro less.hyps) auto
    then obtain a b right r' where f: "fill_values rnd amplitude (last left # ?rest) (generation + 1) r2 = Some ((a, b), right, r')"
      and right: "length right = n - m" "hd right = last left" "priced_in a b right"
      using rest(3) True by (auto simp: filled_def)
    have ok1: "price_ok mn1" "price_ok mx1" "price_ok a" "price_ok b"
      using left(3) right(3) priced_in_bounds_ok by blast+
    have "priced_in (dbl_min mn1 a) (dbl_max mx1 b) left"
      using left(3) ok1 dbl_min_ok [of mn1 a] dbl_max_ok [of mx1 b] by (auto simp: priced_in_def intro: dbl_le_trans)
    then have w: "priced_in (dbl_min mn1 a) (dbl_max mx1 b) (butlast left)"
      by (auto simp: priced_in_def dest: in_set_butlastD)
    have "priced_in (dbl_min mn1 a) (dbl_max mx1 b) right" using right(3) ok1 by (intro priced_in_widen)
    with w have "priced_in (dbl_min mn1 a) (dbl_max mx1 b) (butlast left @ right)" by (simp add: priced_in_append)
    moreover have "hd (butlast left @ right) = ?front"
      using left m lne by (cases left) auto
    moreover have "length (butlast left @ right) = n" using left right m by simp
    moreover have "fill_values rnd amplitude vs generation r = Some ((dbl_min mn1 a, dbl_max mx1 b), butlast left @ right, r')"
      by (simp only: eq n(2) if_P [OF True] f option.case prod.case)
    ultimately show ?thesis by (simp add: filled_def n(1))
  next
    case False
    then have "drop (m + 1) vs1 = []" using m n by simp
    moreover have "n = m + 1" using False m by simp
    ultimately show ?thesis using False n left by (simp add: eq filled_def)
  qed
qed

subsection \<open>A generated quote\<close>

lemma generate_quote_correct:
  assumes "2 \<le> volume" and "price_ok (qg_last g)"
  shows "\<exists>q g'. generate_quote rnd volume g = Some (q, g') \<and> qv_volume q = dbl_of_int (int volume) \<and>
    qv_open q = qg_last g \<and> qg_last g' = qg_last g \<and> qg_amplitude g' = qg_amplitude g \<and> price_ok (qv_low q) \<and>
    (\<forall>p\<in>{qv_open q, qv_close q}. dbl_le (qv_low q) p \<and> dbl_le p (qv_high q))"
proof -
  obtain v r where v: "draw_value rnd (qg_amplitude g) (qg_random g) = (v, r)" by fastforce
  define rear where "rear = dbl_max (to_double (1 / 10000)) (dbl_add (qg_last g) (dbl_mul v (Finite 2)))"
  define vs where "vs = ((replicate volume (Finite 0))[0 := qg_last g])[volume - 1 := rear]"
  have len: "length vs = volume" by (simp add: vs_def)
  have ends: "vs \<noteq> []" "hd vs = qg_last g" "last vs = rear"
    using assms(1) by (auto simp: vs_def hd_conv_nth last_conv_nth nth_list_update)
  have "price_ok rear" using floors_ok by (simp add: rear_def price_ok_floor)
  obtain low high vs' r' where f: "fill_values rnd (qg_amplitude g) vs 1 r = Some ((low, high), vs', r')"
    and vs': "length vs' = volume" "hd vs' = qg_last g" "priced_in low high vs'"
  proof -
    have "\<exists>res. fill_values rnd (qg_amplitude g) vs 1 r = Some res \<and> filled vs res"
      using ends assms \<open>price_ok rear\<close> len by (intro fill_values_filled) simp_all
    then obtain res where res: "fill_values rnd (qg_amplitude g) vs 1 r = Some res" "filled vs res" by blast
    obtain low high vs' r' where "res = ((low, high), vs', r')" by (metis prod.exhaust)
    then show ?thesis using that res unfolding filled_def by (simp add: ends len)
  qed
  have "vs' \<noteq> []" using vs'(1) assms(1) by auto
  then have "{hd vs', last vs'} \<subseteq> set vs'" by simp
  with vs'(3) have bounds: "price_ok low \<and> (\<forall>p\<in>{hd vs', last vs'}. dbl_le low p \<and> dbl_le p high)"
    by (simp add: priced_in_def)
  then have "dbl_le low high" using dbl_le_trans [of low "hd vs'" high] by simp
  moreover have "price_ok low" using bounds by blast
  ultimately have "dbl_at_most low high" by (rule dbl_le_at_most [rotated])
  then have "generate_quote rnd volume g = Some (\<lparr>qv_volume = dbl_of_int (int volume), qv_open = hd vs',
      qv_high = high, qv_low = low, qv_close = last vs'\<rparr>, g\<lparr>qg_random := r'\<rparr>)"
    using assms(1) f unfolding generate_quote_def vs_def rear_def by (simp add: v vs'(1))
  then show ?thesis using vs'(2) bounds by simp
qed

text \<open>A source of random numbers that always draws the least value.\<close>

definition least_draw :: "unit random" where
  "least_draw = \<lparr>uniform_real = (\<lambda>lo hi r. (lo, r)), uniform_int = (\<lambda>lo hi r. (lo, r))\<rparr>"

text \<open>For two or more values the open price is the last price of the generator, which a call never
  changes, so every quote of a product opens at the initial price; all prices are positive and lie between the
  low and the high price, whatever the distribution draws.\<close>

theorem generated_quote:
  assumes "2 \<le> volume" and "price_ok (qg_last g)"
  shows "\<exists>q g'. generate_quote rnd volume g = Some (q, g') \<and> qv_volume q = dbl_of_int (int volume) \<and>
    qv_open q = qg_last g \<and> qg_last g' = qg_last g \<and> qg_amplitude g' = qg_amplitude g \<and> price_ok (qv_low q) \<and>
    (\<forall>p\<in>{qv_open q, qv_close q}. dbl_le (qv_low q) p \<and> dbl_le p (qv_high q))"
  using assms by (rule generate_quote_correct)

theorem generated_quote_witness:
  "\<exists>q g'. generate_quote least_draw 2 \<lparr>qg_random = (), qg_amplitude = Finite 2, qg_last = Finite 190\<rparr> = Some (q, g') \<and>
     qv_open q = Finite 190"
  using generated_quote [of 2 "\<lparr>qg_random = (), qg_amplitude = Finite 2, qg_last = Finite 190\<rparr>" least_draw]
  by (auto simp: price_ok_def)

end
