(* ===== verification/Db_Client.thy ===== *)
theory Db_Client imports
  Doubles
  Timespec
begin

section \<open>Database client: calls, answers and programs that make them\<close>

text \<open>
  The simulator and the generator talk to the database through a client library that is not part of
  the repository. A call is a value of \<open>qdb_call\<close>, one constructor per client function the two
  programs use; the argument \<open>qdb_env\<close> gives the error code of a call, which may depend on
  everything that has been called before, and says which codes are failures (\<open>QDB_FAILURE\<close>). A
  program is a function on a state that extends \<open>client\<close>, the record of the calls made so far; an
  exception keeps the state it was thrown in.
\<close>

subsection \<open>Calls\<close>

datatype column_type = Column_Double | Column_Blob | Column_Int64

datatype shard_size = Default_Shard | Day_Shard

datatype qdb_call =
    Connect string
  | Remove string
  | Get_Metadata string
  | Ts_Create string shard_size "(string \<times> column_type) list"
  | Attach_Tag string string
  | Int_Put string int
  | Blob_Update string string
  | Double_Insert string string "(timespec \<times> double) list"
  | Blob_Insert string string "(timespec \<times> string) list"
  | Batch_Table_Init "(string \<times> string \<times> u64) list"
  | Batch_Start_Row timespec
  | Batch_Row_Set_Int64 nat int
  | Batch_Row_Set_Double nat double
  | Batch_Push
  | Release_Batch

record qdb_env =
  db_answer :: "qdb_call list \<Rightarrow> qdb_call \<Rightarrow> int"
  db_failure :: "int \<Rightarrow> bool"
  db_ok :: int

record client =
  calls :: "qdb_call list"

subsection \<open>Programs\<close>

datatype stop = Thrown string | Undefined_Behaviour

type_synonym ('s, 'a) prog = "'s \<Rightarrow> (stop + 'a) \<times> 's"

definition give :: "'a \<Rightarrow> ('s, 'a) prog" where
  "give x s = (Inr x, s)"

definition halt :: "stop \<Rightarrow> ('s, 'a) prog" where
  "halt e s = (Inl e, s)"

definition seq :: "('s, 'a) prog \<Rightarrow> ('a \<Rightarrow> ('s, 'b) prog) \<Rightarrow> ('s, 'b) prog" where
  "seq p f s = (case p s of (Inl e, s') \<Rightarrow> (Inl e, s') | (Inr x, s') \<Rightarrow> f x s')"

text \<open>\<open>for\<close> over a range, and the unwinding when its body throws.\<close>

fun for_each :: "('a \<Rightarrow> ('s, unit) prog) \<Rightarrow> 'a list \<Rightarrow> ('s, unit) prog" where
  "for_each body [] = give ()"
| "for_each body (x # xs) = seq (body x) (\<lambda>_. for_each body xs)"

definition call :: "qdb_env \<Rightarrow> qdb_call \<Rightarrow> ('s client_scheme, int) prog" where
  "call db c s = (Inr (db_answer db (calls s) c), s\<lparr>calls := calls s @ [c]\<rparr>)"

text \<open>\<open>throw_on_failure\<close> of both programs; the printed message is left out.\<close>

definition throw_on_failure :: "qdb_env \<Rightarrow> string \<Rightarrow> int \<Rightarrow> ('s, unit) prog" where
  "throw_on_failure db msg err = (if db_failure db err then halt (Thrown msg) else give ())"

definition checked_call :: "qdb_env \<Rightarrow> string \<Rightarrow> qdb_call \<Rightarrow> ('s client_scheme, unit) prog" where
  "checked_call db msg c = seq (call db c) (throw_on_failure db msg)"

text \<open>\<open>if (QDB_FAILURE(err)) return err;\<close> after every call, and \<open>return qdb_e_ok;\<close> at the end.\<close>

fun calls_until_failure :: "qdb_env \<Rightarrow> qdb_call list \<Rightarrow> ('s client_scheme, int) prog" where
  "calls_until_failure db [] = give (db_ok db)"
| "calls_until_failure db (c # cs) =
     seq (call db c) (\<lambda>err. if db_failure db err then give err else calls_until_failure db cs)"

text \<open>How a process ends: \<open>main\<close> catches what is thrown.\<close>

datatype exit = Exit_Success | Exit_Failure | Crash

definition exit_of :: "stop + unit \<Rightarrow> exit" where
  "exit_of res = (case res of Inr _ \<Rightarrow> Exit_Success | Inl (Thrown _) \<Rightarrow> Exit_Failure | Inl Undefined_Behaviour \<Rightarrow> Crash)"

subsection \<open>What programs do\<close>

lemma give_apply [simp]: "give x s = (Inr x, s)"
  by (simp add: give_def)

lemma halt_apply [simp]: "halt e s = (Inl e, s)"
  by (simp add: halt_def)

lemma seq_apply: "p s = (Inr x, s') \<Longrightarrow> seq p f s = f x s'"
  by (simp add: seq_def)

lemma seq_stops: "p s = (Inl e, s') \<Longrightarrow> seq p f s = (Inl e, s')"
  by (simp add: seq_def)

lemma call_seq [simp]: "seq (call db c) f s = f (db_answer db (calls s) c) (s\<lparr>calls := calls s @ [c]\<rparr>)"
  by (simp add: seq_def call_def)

lemma checked_call_apply: "checked_call db msg c s =
    (if db_failure db (db_answer db (calls s) c) then Inl (Thrown msg) else Inr (), s\<lparr>calls := calls s @ [c]\<rparr>)"
  by (simp add: checked_call_def throw_on_failure_def)

text \<open>A program that never fails where the client does not, and what it then calls.\<close>

definition never_fails :: "qdb_env \<Rightarrow> bool" where
  "never_fails db \<longleftrightarrow> (\<forall>h c. \<not> db_failure db (db_answer db h c)) \<and> \<not> db_failure db (db_ok db)"

lemma never_fails_answer: "never_fails db \<Longrightarrow> \<not> db_failure db (db_answer db h c)"
  by (simp add: never_fails_def)

text \<open>A client that answers every call with success.\<close>

definition all_well :: qdb_env where
  "all_well = \<lparr>db_answer = (\<lambda>h c. 0), db_failure = (\<lambda>e. e \<noteq> 0), db_ok = 0\<rparr>"

lemma all_well_never_fails: "never_fails all_well"
  by (simp add: never_fails_def all_well_def)

lemma checked_call_good: "never_fails db \<Longrightarrow> checked_call db msg c s = (Inr (), s\<lparr>calls := calls s @ [c]\<rparr>)"
  by (simp add: checked_call_apply never_fails_answer)

lemma seq_checked_good:
  "never_fails db \<Longrightarrow> seq (checked_call db msg c) f s = f () (s\<lparr>calls := calls s @ [c]\<rparr>)"
  by (simp add: seq_apply checked_call_good)

lemma seq_checked_ok:
  "\<not> db_failure db (db_answer db (calls s) c) \<Longrightarrow>
     seq (checked_call db msg c) f s = f () (s\<lparr>calls := calls s @ [c]\<rparr>)"
  by (simp add: seq_apply checked_call_apply)

lemma calls_until_failure_good:
  "never_fails db \<Longrightarrow> calls_until_failure db cs s = (Inr (db_ok db), s\<lparr>calls := calls s @ cs\<rparr>)"
  by (induction cs arbitrary: s) (simp_all add: never_fails_answer)

text \<open>The calls stop behind the first one that fails, and its code is what the caller sees.\<close>

definition succeeds :: "qdb_env \<Rightarrow> qdb_call list \<Rightarrow> qdb_call list \<Rightarrow> nat \<Rightarrow> bool" where
  "succeeds db h cs i \<longleftrightarrow> \<not> db_failure db (db_answer db (h @ take i cs) (cs ! i))"

lemma calls_until_failure_cases:
  "(\<forall>i<length cs. succeeds db (calls s) cs i) \<and>
     calls_until_failure db cs s = (Inr (db_ok db), s\<lparr>calls := calls s @ cs\<rparr>) \<or>
   (\<exists>k<length cs. (\<forall>i<k. succeeds db (calls s) cs i) \<and> \<not> succeeds db (calls s) cs k \<and>
     calls_until_failure db cs s =
       (Inr (db_answer db (calls s @ take k cs) (cs ! k)), s\<lparr>calls := calls s @ take (Suc k) cs\<rparr>))"
proof (induction cs arbitrary: s)
  case (Cons c cs)
  let ?err = "db_answer db (calls s) c" and ?s = "s\<lparr>calls := calls s @ [c]\<rparr>"
  have suc: "succeeds db (calls s) (c # cs) (Suc i) \<longleftrightarrow> succeeds db (calls ?s) cs i" for i
    by (simp add: succeeds_def)
  have zero: "succeeds db (calls s) (c # cs) 0 \<longleftrightarrow> \<not> db_failure db ?err"
    by (simp add: succeeds_def)
  show ?case
  proof (cases "db_failure db ?err")
    case True
    then have "calls_until_failure db (c # cs) s = (Inr (db_answer db (calls s @ take 0 (c # cs)) ((c # cs) ! 0)),
        s\<lparr>calls := calls s @ take (Suc 0) (c # cs)\<rparr>)"
      by simp
    then show ?thesis using True zero by blast
  next
    case False
    then have step: "calls_until_failure db (c # cs) s = calls_until_failure db cs ?s" by simp
    from Cons.IH [of ?s] show ?thesis
    proof (elim disjE exE conjE)
      assume all: "\<forall>i<length cs. succeeds db (calls ?s) cs i"
        and r: "calls_until_failure db cs ?s = (Inr (db_ok db), ?s\<lparr>calls := calls ?s @ cs\<rparr>)"
      have "succeeds db (calls s) (c # cs) i" if "i < length (c # cs)" for i
        using that all zero False suc by (cases i) auto
      then show ?thesis using step r by simp
    next
      fix k
      assume k: "k < length cs" "\<forall>i<k. succeeds db (calls ?s) cs i" "\<not> succeeds db (calls ?s) cs k"
        and r: "calls_until_failure db cs ?s =
          (Inr (db_answer db (calls ?s @ take k cs) (cs ! k)), ?s\<lparr>calls := calls ?s @ take (Suc k) cs\<rparr>)"
      have "succeeds db (calls s) (c # cs) i" if "i < Suc k" for i
        using that k(2) zero False suc by (cases i) auto
      moreover have "\<not> succeeds db (calls s) (c # cs) (Suc k)" using k(3) suc by blast
      ultimately show ?thesis
        using step r k(1) by (intro disjI2 exI [of _ "Suc k"]) simp
    qed
  qed
qed simp

text \<open>The calls a program can make, whatever it is answered.\<close>

definition emits :: "qdb_call set \<Rightarrow> ('s client_scheme, 'a) prog \<Rightarrow> bool" where
  "emits A p \<longleftrightarrow> (\<forall>s x s'. p s = (x, s') \<longrightarrow> (\<exists>cs. calls s' = calls s @ cs \<and> set cs \<subseteq> A))"

lemma emitsD: "emits A p \<Longrightarrow> p s = (x, s') \<Longrightarrow> \<exists>cs. calls s' = calls s @ cs \<and> set cs \<subseteq> A"
  by (simp add: emits_def)

lemma emits_give [intro]: "emits A (give x)"
  by (simp add: emits_def)

lemma emits_halt [intro]: "emits A (halt e)"
  by (simp add: emits_def)

lemma emits_seq:
  assumes "emits A p" and "\<And>x. emits A (f x)"
  shows "emits A (seq p f)"
  unfolding emits_def
proof (intro allI impI)
  fix s x s'
  assume r: "seq p f s = (x, s')"
  obtain y s1 where p: "p s = (y, s1)" by fastforce
  obtain cs where cs: "calls s1 = calls s @ cs" "set cs \<subseteq> A" using emitsD [OF assms(1) p] by blast
  show "\<exists>cs. calls s' = calls s @ cs \<and> set cs \<subseteq> A"
  proof (cases y)
    case (Inl e)
    then show ?thesis using r p cs by (auto simp: seq_def)
  next
    case (Inr v)
    then have "f v s1 = (x, s')" using r p by (simp add: seq_def)
    then obtain cs' where "calls s' = calls s1 @ cs'" "set cs' \<subseteq> A" using emitsD [OF assms(2)] by blast
    then show ?thesis using cs by (intro exI [of _ "cs @ cs'"]) simp
  qed
qed

lemma emits_checked_call: "c \<in> A \<Longrightarrow> emits A (checked_call db msg c)"
  by (auto simp: emits_def checked_call_apply)

text \<open>Programs that give no value are run in turn; a list of checked calls is one of them.\<close>

lemma for_each_append: "for_each body (xs @ ys) = seq (for_each body xs) (\<lambda>_. for_each body ys)"
  by (induction xs) (auto simp: fun_eq_iff seq_def split: prod.splits sum.splits)

lemma for_each_invariant:
  assumes "\<And>x s. x \<in> set xs \<Longrightarrow> I s \<Longrightarrow> \<exists>s'. body x s = (Inr (), s') \<and> I s'" and "I s"
  shows "\<exists>s'. for_each body xs s = (Inr (), s') \<and> I s'"
  using assms
proof (induction xs arbitrary: s)
  case (Cons x xs)
  obtain s1 where s1: "body x s = (Inr (), s1)" "I s1" using Cons.prems by auto
  have "\<exists>s'. for_each body xs s1 = (Inr (), s') \<and> I s'"
    using Cons.prems(1) s1(2) by (intro Cons.IH) simp_all
  then show ?case using s1 by (simp add: seq_apply)
qed simp

lemma for_each_calls:
  assumes "\<And>x s. x \<in> set xs \<Longrightarrow> body x s = (Inr (), s\<lparr>calls := calls s @ f x\<rparr>)"
  shows "for_each body xs s = (Inr (), s\<lparr>calls := calls s @ concat (map f xs)\<rparr>)"
  using assms
proof (induction xs arbitrary: s)
  case (Cons x xs)
  have "body x s = (Inr (), s\<lparr>calls := calls s @ f x\<rparr>)" using Cons.prems by simp
  moreover have "for_each body xs (s\<lparr>calls := calls s @ f x\<rparr>) =
      (Inr (), (s\<lparr>calls := calls s @ f x\<rparr>)\<lparr>calls := calls (s\<lparr>calls := calls s @ f x\<rparr>) @ concat (map f xs)\<rparr>)"
    using Cons.prems by (intro Cons.IH) simp
  ultimately show ?case by (simp add: seq_apply)
qed simp

end
