(* ===== verification/Brokers.thy ===== *)
theory Brokers imports
  Quotes
  Db_Client
begin

section \<open>Brokers: products, pricers and margins\<close>

text \<open>
  \<open>products.hpp\<close>, \<open>dow_jones.cpp\<close> and \<open>broker.hpp\<close> of \<open>src/src/simulator\<close>. One master broker holds a
  quote generator per product; the brokers the traders see ask it for a quote and add a margin that each
  of them draws once per product. All of it lives in a \<open>market\<close>, with the calls made to the database and
  the readings of the clock taken so far. The seeds the random engines start from, the distributions
  and the readings of the clock are arguments.
\<close>

subsection \<open>Products\<close>

record product =
  pr_name :: string
  pr_initial :: double
  pr_amplitude :: double

type_synonym products = "(string, product) table"

definition add_product :: "products \<Rightarrow> string \<Rightarrow> double \<Rightarrow> double \<Rightarrow> products" where
  "add_product prds p initial amplitude =
     tbl_emplace p \<lparr>pr_name = p, pr_initial = initial, pr_amplitude = amplitude\<rparr> prds"

definition dow_jones :: "(string \<times> rat \<times> rat) list" where
  "dow_jones =
     [(''MMM'', 190, 1), (''AXP'', 80, 11 / 10), (''AAPL'', 139, 3 / 2), (''BA'', 183, 1 / 5),
      (''CAT'', 95, 3 / 10), (''CVX'', 114, 4 / 5), (''CSCO'', 35, 1 / 5), (''KO'', 43, 1 / 100),
      (''DD'', 797 / 10, 1 / 5), (''XOM'', 833 / 10, 1), (''GE'', 30, 1 / 10), (''GS'', 251, 1),
      (''HD'', 295 / 2, 1), (''IBM'', 180, 3 / 2), (''INTC'', 36, 1 / 100), (''JNJ'', 124, 1),
      (''JPM'', 92, 1), (''MCD'', 128, 3 / 2), (''MRK'', 66, 1), (''MSFT'', 64, 3 / 2),
      (''NKE'', 289 / 5, 8 / 5), (''PFE'', 64, 1), (''PG'', 91, 1), (''TRV'', 124, 3 / 2),
      (''UNH'', 168, 2), (''UTX'', 112, 1), (''VZ'', 50, 1 / 2), (''V'', 8853 / 100, 1 / 10),
      (''WMT'', 1769 / 25, 1 / 10), (''DIS'', 110, 1)]"

definition add_dow_jones :: "products \<Rightarrow> products" where
  "add_dow_jones prds = fold (\<lambda>(p, initial, amplitude) prds. add_product prds p (to_double initial) (to_double amplitude))
     dow_jones prds"

definition make_products :: products where
  "make_products = add_dow_jones []"

subsection \<open>The market\<close>

record 'r platform = "'r random" +
  timestamp_of :: "nat \<Rightarrow> timespec"

record 'r margin_broker =
  mb_name :: string
  mb_generator :: 'r
  mb_margins :: "(string, double) table"

record 'r market = client +
  ticks :: nat
  quoters :: "(string, 'r quote_gen) table"
  houses :: "(string, 'r margin_broker) table"

text \<open>A reading of the clock: the argument gives the result of every call to \<open>timestamp\<close>.\<close>

definition read_clock :: "'r platform \<Rightarrow> 'r market \<Rightarrow> timespec \<times> 'r market" where
  "read_clock P s = (timestamp_of P (ticks s), s\<lparr>ticks := Suc (ticks s)\<rparr>)"

text \<open>The constructor of \<open>broker\<close>: an entry per product, each with an engine of its own.\<close>

definition make_broker :: "(string \<Rightarrow> 'r) \<Rightarrow> products \<Rightarrow> (string, 'r quote_gen) table" where
  "make_broker seed p = fold (\<lambda>e. tbl_emplace (pr_name (snd e))
     \<lparr>qg_random = seed (pr_name (snd e)), qg_amplitude = pr_amplitude (snd e), qg_last = pr_initial (snd e)\<rparr>) p []"

definition add_broker :: "(string \<Rightarrow> 'r) \<Rightarrow> string \<Rightarrow> (string, 'r margin_broker) table \<Rightarrow> (string, 'r margin_broker) table" where
  "add_broker seed name brks = tbl_emplace name \<lparr>mb_name = name, mb_generator = seed name, mb_margins = []\<rparr> brks"

definition make_brokers :: "(string \<Rightarrow> 'r) \<Rightarrow> (string, 'r margin_broker) table" where
  "make_brokers seed = add_broker seed ''nile'' (add_broker seed ''xtnd'' (add_broker seed ''tom''
     (add_broker seed ''bloom'' [])))"

subsection \<open>Asking for a quote\<close>

record quote =
  q_timestamp :: timespec
  q_origin :: string
  q_symbol :: string
  q_columns :: quote_values

definition get_pricer :: "string \<Rightarrow> 'r market \<Rightarrow> stop + 'r quote_gen" where
  "get_pricer p s = (case tbl_find p (quoters s) of None \<Rightarrow> Inl (Thrown ''unknown product'') | Some g \<Rightarrow> Inr g)"

text \<open>A margin is asserted not to be a NaN.\<close>

definition get_margin :: "'r platform \<Rightarrow> string \<Rightarrow> 'r margin_broker \<Rightarrow> (double \<times> 'r margin_broker) option" where
  "get_margin P p mb =
     (let (margin, mb) =
        (case tbl_find p (mb_margins mb) of
           Some margin \<Rightarrow> (margin, mb)
         | None \<Rightarrow> (case uniform_real P (to_double (1 / 1000)) (Finite 2) (mb_generator mb) of (margin, r) \<Rightarrow>
             (margin, mb\<lparr>mb_generator := r, mb_margins := tbl_emplace p margin (mb_margins mb)\<rparr>)))
      in if margin = NaN then None else Some (margin, mb))"

definition with_margin :: "double \<Rightarrow> quote_values \<Rightarrow> quote_values" where
  "with_margin margin v = v\<lparr>qv_high := dbl_add (qv_high v) margin, qv_low := dbl_add (qv_low v) margin,
     qv_open := dbl_add (qv_open v) margin, qv_close := dbl_add (qv_close v) margin\<rparr>"

text \<open>
  The constructor of \<open>quote\<close> reads the clock and then calls the generator, which stays in the table of the
  master broker; the margin comes last.
\<close>

definition request_quote ::
  "'r platform \<Rightarrow> string \<Rightarrow> nat \<Rightarrow> 'r margin_broker \<Rightarrow> 'r market \<Rightarrow> (stop + quote) \<times> 'r margin_broker \<times> 'r market" where
  "request_quote P p volume mb s =
     (case get_pricer p s of Inl e \<Rightarrow> (Inl e, mb, s)
      | Inr g \<Rightarrow>
          let (ts, s) = read_clock P s in
          (case generate_quote P volume g of None \<Rightarrow> (Inl Undefined_Behaviour, mb, s)
           | Some (v, g') \<Rightarrow>
               let s = s\<lparr>quoters := tbl_assign p g' (quoters s)\<rparr>
               in (case get_margin P p mb of
                     None \<Rightarrow> (Inl Undefined_Behaviour, mb, s)
                   | Some (margin, mb) \<Rightarrow>
                       (Inr \<lparr>q_timestamp = ts, q_origin = mb_name mb, q_symbol = p, q_columns = with_margin margin v\<rparr>,
                        mb, s))))"

subsection \<open>Well-formed markets\<close>

text \<open>
  What the distributions of the C++ library promise: a draw between the two bounds, for bounds in
  order; a real draw is a double.
\<close>

definition is_double :: "double \<Rightarrow> bool" where
  "is_double d = (case d of Finite x \<Rightarrow> to_double x = Finite x | NaN \<Rightarrow> False | _ \<Rightarrow> True)"

definition fair_random :: "('r, 'm) random_scheme \<Rightarrow> bool" where
  "fair_random rnd \<longleftrightarrow>
     (\<forall>lo hi r. is_double lo \<and> is_double hi \<and> dbl_le lo hi \<longrightarrow>
        is_double (fst (uniform_real rnd lo hi r)) \<and> dbl_le lo (fst (uniform_real rnd lo hi r)) \<and>
        dbl_le (fst (uniform_real rnd lo hi r)) hi) \<and>
     (\<forall>lo hi r. lo \<le> hi \<longrightarrow> lo \<le> fst (uniform_int rnd lo hi r) \<and> fst (uniform_int rnd lo hi r) \<le> hi)"

lemma fair_int: "fair_random rnd \<Longrightarrow> lo \<le> hi \<Longrightarrow> uniform_int rnd lo hi r = (n, r') \<Longrightarrow> lo \<le> n \<and> n \<le> hi"
  unfolding fair_random_def by (metis fst_conv)

lemma margin_ok_iff: "margin_ok d \<longleftrightarrow> price_ok d \<and> is_double d"
  by (cases d) (auto simp: margin_ok_def is_double_def price_ok_def)

lemma fair_margin:
  assumes "fair_random rnd"
  shows "margin_ok (fst (uniform_real rnd (to_double (1 / 1000)) (Finite 2) r))"
proof -
  let ?d = "fst (uniform_real rnd (to_double (1 / 1000)) (Finite 2) r)"
  have "is_double (to_double (1 / 1000)) \<and> is_double (Finite 2) \<and> dbl_le (to_double (1 / 1000)) (Finite 2) \<and>
      price_ok (to_double (1 / 1000))"
    by code_simp
  moreover from this have "is_double ?d \<and> dbl_le (to_double (1 / 1000)) ?d"
    using assms unfolding fair_random_def by blast
  ultimately show ?thesis
    using price_ok_le by (auto simp: margin_ok_iff)
qed

text \<open>The least draw is a fair source of random numbers; with a clock that counts it is a platform.\<close>

lemma least_draw_fair: "fair_random least_draw"
  by (simp add: fair_random_def least_draw_def)

definition least_platform :: "unit platform" where
  "least_platform = \<lparr>uniform_real = (\<lambda>lo hi r. (lo, r)), uniform_int = (\<lambda>lo hi r. (lo, r)),
     timestamp_of = (\<lambda>n. Timespec (int n) 0)\<rparr>"

lemma least_platform_fair: "fair_random least_platform"
  by (simp add: fair_random_def least_platform_def)

definition margins_ok :: "'r margin_broker \<Rightarrow> bool" where
  "margins_ok mb \<longleftrightarrow> tbl_ok (mb_margins mb) \<and> (\<forall>p m. tbl_find p (mb_margins mb) = Some m \<longrightarrow> margin_ok m)"

definition quoters_ok :: "(string, 'r quote_gen) table \<Rightarrow> bool" where
  "quoters_ok t \<longleftrightarrow> tbl_ok t \<and> (\<forall>p g. tbl_find p t = Some g \<longrightarrow> price_ok (qg_last g))"

definition good_quote :: "quote_values \<Rightarrow> bool" where
  "good_quote v \<longleftrightarrow> price_ok (qv_low v) \<and>
     (\<forall>p\<in>{qv_open v, qv_close v}. dbl_le (qv_low v) p \<and> dbl_le p (qv_high v))"

lemma good_quote_margin:
  assumes "good_quote v" and "margin_ok m"
  shows "good_quote (with_margin m v)"
proof -
  have m: "price_ok m" using assms(2) by (simp add: margin_ok_iff)
  have p: "price_ok (qv_low v)" "price_ok (qv_open v)" "price_ok (qv_close v)"
    using assms(1) price_ok_le by (auto simp: good_quote_def)
  then show ?thesis
    using assms m price_ok_margin dbl_le_margin by (simp add: good_quote_def with_margin_def)
qed

text \<open>What asking for quotes keeps: the margins drawn so far, and the last price of every product.\<close>

definition keeps_margins :: "'r margin_broker \<Rightarrow> 'r margin_broker \<Rightarrow> bool" where
  "keeps_margins mb mb' \<longleftrightarrow> mb_name mb' = mb_name mb \<and> margins_ok mb' \<and>
     (\<forall>p m. tbl_find p (mb_margins mb) = Some m \<longrightarrow> tbl_find p (mb_margins mb') = Some m)"

definition keeps_prices :: "'r market \<Rightarrow> 'r market \<Rightarrow> bool" where
  "keeps_prices s s' \<longleftrightarrow> quoters_ok (quoters s') \<and>
     (\<forall>p. map_option qg_last (tbl_find p (quoters s')) = map_option qg_last (tbl_find p (quoters s)))"

lemma get_margin_ok:
  assumes "fair_random P" and "margins_ok mb"
  shows "\<exists>m mb'. get_margin P p mb = Some (m, mb') \<and> margin_ok m \<and> keeps_margins mb mb' \<and>
    tbl_find p (mb_margins mb') = Some m"
proof (cases "tbl_find p (mb_margins mb)")
  case (Some m)
  then have "margin_ok m" using assms(2) by (simp add: margins_ok_def)
  moreover from this have "m \<noteq> NaN" by (auto simp: margin_ok_def price_ok_def)
  ultimately show ?thesis using Some assms(2) by (auto simp: get_margin_def keeps_margins_def)
next
  case None
  obtain m r where d: "uniform_real P (to_double (1 / 1000)) (Finite 2) (mb_generator mb) = (m, r)" by fastforce
  define mb' where "mb' = mb\<lparr>mb_generator := r, mb_margins := tbl_emplace p m (mb_margins mb)\<rparr>"
  have m: "margin_ok m" using fair_margin [OF assms(1)] d by (metis fst_conv)
  then have "m \<noteq> NaN" by (auto simp: margin_ok_def price_ok_def)
  then have "get_margin P p mb = Some (m, mb')" using None d by (simp add: get_margin_def mb'_def)
  have ok: "tbl_ok (mb_margins mb)" using assms(2) by (simp add: margins_ok_def)
  have find: "tbl_find p' (tbl_emplace p m (mb_margins mb)) = (if p' = p then Some m else tbl_find p' (mb_margins mb))" for p'
    using None ok by (simp add: tbl.find_emplace)
  have "tbl_ok (mb_margins mb')" using ok by (simp add: mb'_def tbl.ok_emplace)
  then have "keeps_margins mb mb' \<and> tbl_find p (mb_margins mb') = Some m"
    using m assms(2) None by (auto simp: keeps_margins_def margins_ok_def find mb'_def split: if_splits)
  then show ?thesis using m \<open>get_margin P p mb = Some (m, mb')\<close> by blast
qed

lemma request_quote_ok:
  assumes "fair_random P" and "quoters_ok (quoters s)" and "tbl_find p (quoters s) = Some g"
    and "margins_ok mb" and "2 \<le> volume"
  shows "\<exists>q mb' s' m. request_quote P p volume mb s = (Inr q, mb', s') \<and> q_origin q = mb_name mb \<and> q_symbol q = p \<and>
    q_timestamp q = timestamp_of P (ticks s) \<and> qv_volume (q_columns q) = dbl_of_int (int volume) \<and>
    good_quote (q_columns q) \<and> qv_open (q_columns q) = dbl_add (qg_last g) m \<and> margin_ok m \<and>
    tbl_find p (mb_margins mb') = Some m \<and> keeps_margins mb mb' \<and> keeps_prices s s' \<and>
    s' = s\<lparr>ticks := Suc (ticks s), quoters := quoters s'\<rparr>"
proof -
  have g: "price_ok (qg_last g)" and ok: "tbl_ok (quoters s)" using assms(2,3) by (auto simp: quoters_ok_def)
  obtain v g' where v: "generate_quote P volume g = Some (v, g')" "qv_volume v = dbl_of_int (int volume)"
      "qv_open v = qg_last g" "qg_last g' = qg_last g" "good_quote v"
    using generate_quote_correct [OF assms(5) g, of P] by (auto simp: good_quote_def)
  obtain m mb' where m: "get_margin P p mb = Some (m, mb')"
    and gm: "margin_ok m" "keeps_margins mb mb'" "tbl_find p (mb_margins mb') = Some m"
    using get_margin_ok [OF assms(1,4)] by blast
  define s' where "s' = s\<lparr>ticks := Suc (ticks s), quoters := tbl_assign p g' (quoters s)\<rparr>"
  have find: "tbl_find p' (tbl_assign p g' (quoters s)) = (if p' = p then Some g' else tbl_find p' (quoters s))" for p'
    by (rule tbl.find_assign [OF ok assms(3)])
  have "keeps_prices s s'"
    using assms(2,3) g v(4) tbl.ok_assign [OF ok]
    by (auto simp: keeps_prices_def quoters_ok_def find s'_def split: if_splits)
  moreover have "request_quote P p volume mb s = (Inr \<lparr>q_timestamp = timestamp_of P (ticks s), q_origin = mb_name mb',
      q_symbol = p, q_columns = with_margin m v\<rparr>, mb', s')"
    by (simp add: request_quote_def get_pricer_def assms(3) read_clock_def v(1) m s'_def)
  moreover have "good_quote (with_margin m v)" using good_quote_margin v(5) gm by blast
  moreover have "mb_name mb' = mb_name mb" using gm by (simp add: keeps_margins_def)
  ultimately show ?thesis
    using gm v(2,3) by (intro exI [of _ mb'] exI [of _ s'] exI [of _ m] exI) (auto simp: with_margin_def s'_def)
qed

subsection \<open>The first market\<close>

lemma fold_emplace:
  "distinct (map fst t @ map f xs) \<Longrightarrow>
     fold (\<lambda>x. tbl_emplace (f x) (g x)) xs t = t @ map (\<lambda>x. (f x, g x)) xs"
proof (induction xs arbitrary: t)
  case (Cons x xs)
  then have "map_of t (f x) = None" by (auto simp: map_of_eq_None_iff)
  then have "tbl_emplace (f x) (g x) t = t @ [(f x, g x)]" by (simp add: tbl_emplace_def)
  then show ?case using Cons by simp
qed simp

lemma price_ok_to_double: "1 \<le> x \<Longrightarrow> price_ok (to_double x)"
proof -
  assume "1 \<le> x"
  then have "dbl_le (to_double (of_int 1)) (to_double x)" by (intro to_double_mono) simp
  moreover have "price_ok (to_double (of_int 1))" by (simp add: to_double_of_int price_ok_def del: of_int_1)
  ultimately show ?thesis by (rule price_ok_le [rotated])
qed

lemma dow_jones_rows: "distinct (map fst dow_jones) \<and> length dow_jones = 30 \<and> dow_jones \<noteq> [] \<and>
    (\<forall>(p, initial, amplitude)\<in>set dow_jones. price_ok (to_double initial))"
proof -
  have "\<forall>(p, initial, amplitude)\<in>set dow_jones. 1 \<le> initial" by (simp add: dow_jones_def)
  then have "\<forall>(p, initial, amplitude)\<in>set dow_jones. price_ok (to_double initial)" using price_ok_to_double by fastforce
  then show ?thesis by (simp add: dow_jones_def)
qed

lemma make_products_rows:
  "make_products = map (\<lambda>(p, initial, amplitude). (p, \<lparr>pr_name = p, pr_initial = to_double initial, pr_amplitude = to_double amplitude\<rparr>))
     dow_jones"
proof -
  have "fold (\<lambda>x. tbl_emplace (fst x) \<lparr>pr_name = fst x, pr_initial = to_double (fst (snd x)), pr_amplitude = to_double (snd (snd x))\<rparr>)
      dow_jones [] = map (\<lambda>x. (fst x, \<lparr>pr_name = fst x, pr_initial = to_double (fst (snd x)), pr_amplitude = to_double (snd (snd x))\<rparr>))
      dow_jones"
    using dow_jones_rows by (subst fold_emplace) simp_all
  then show ?thesis
    by (simp add: make_products_def add_dow_jones_def add_product_def case_prod_beta')
qed

lemma make_broker_ok:
  "quoters_ok (make_broker seed make_products) \<and>
     (\<forall>e\<in>set make_products. tbl_find (fst e) (make_broker seed make_products) \<noteq> None)"
proof -
  let ?g = "\<lambda>e. \<lparr>qg_random = seed (pr_name (snd e)), qg_amplitude = pr_amplitude (snd e), qg_last = pr_initial (snd e)\<rparr>"
  have names: "map (\<lambda>e. pr_name (snd e)) make_products = map fst dow_jones" "map fst make_products = map fst dow_jones"
    by (simp_all add: make_products_rows o_def case_prod_beta')
  have rows: "make_broker seed make_products = map (\<lambda>e. (pr_name (snd e), ?g e)) make_products"
    using dow_jones_rows names(1) by (simp add: make_broker_def fold_emplace)
  have keys: "map fst (make_broker seed make_products) = map fst dow_jones"
    using names(1) by (simp add: rows o_def)
  have "\<forall>e\<in>set make_products. price_ok (pr_initial (snd e))"
    using dow_jones_rows by (auto simp: make_products_rows)
  then have "\<forall>e\<in>set (make_broker seed make_products). price_ok (qg_last (snd e))" by (simp add: rows)
  then have "quoters_ok (make_broker seed make_products)"
    using dow_jones_rows keys by (fastforce simp: quoters_ok_def tbl_ok_def tbl_find_def dest: map_of_SomeD)
  moreover have "tbl_find (fst e) (make_broker seed make_products) \<noteq> None" if "e \<in> set make_products" for e
  proof -
    have "fst e \<in> set (map fst (make_broker seed make_products))"
      unfolding keys names(2) [symmetric] using that by simp
    then show ?thesis by (simp add: tbl_find_def map_of_eq_None_iff)
  qed
  ultimately show ?thesis by blast
qed

subsection \<open>Quotes of a broker\<close>

text \<open>
  A request to the broker under a key of the table of brokers, as each step of the loop over it makes one,
  and a sequence of requests to any of the brokers. What they return or throw is dropped.
\<close>

definition ask :: "'r platform \<Rightarrow> string \<Rightarrow> string \<Rightarrow> nat \<Rightarrow> 'r market \<Rightarrow> (stop + quote) \<times> 'r market" where
  "ask P k p volume s =
     (case tbl_find k (houses s) of
        None \<Rightarrow> (Inl Undefined_Behaviour, s)
      | Some mb \<Rightarrow> (case request_quote P p volume mb s of (res, mb, s) \<Rightarrow>
          (res, s\<lparr>houses := tbl_assign k mb (houses s)\<rparr>)))"

definition ask_all :: "'r platform \<Rightarrow> (string \<times> string \<times> nat) list \<Rightarrow> 'r market \<Rightarrow> 'r market" where
  "ask_all P reqs s = fold (\<lambda>(k, p, volume) s. snd (ask P k p volume s)) reqs s"

definition houses_ok :: "(string, 'r margin_broker) table \<Rightarrow> bool" where
  "houses_ok t \<longleftrightarrow> tbl_ok t \<and> (\<forall>k mb. tbl_find k t = Some mb \<longrightarrow> margins_ok mb)"

text \<open>What requests keep of a whole market.\<close>

definition keeps_market :: "'r market \<Rightarrow> 'r market \<Rightarrow> bool" where
  "keeps_market s s' \<longleftrightarrow> keeps_prices s s' \<and> houses_ok (houses s') \<and>
     (\<forall>k mb. tbl_find k (houses s) = Some mb \<longrightarrow> (\<exists>mb'. tbl_find k (houses s') = Some mb' \<and> keeps_margins mb mb'))"

lemma keeps_market_refl: "quoters_ok (quoters s) \<Longrightarrow> houses_ok (houses s) \<Longrightarrow> keeps_market s s"
  by (auto simp: keeps_market_def keeps_prices_def keeps_margins_def houses_ok_def)

lemma keeps_market_trans: "keeps_market s s1 \<Longrightarrow> keeps_market s1 s2 \<Longrightarrow> keeps_market s s2"
proof -
  assume 1: "keeps_market s s1" and 2: "keeps_market s1 s2"
  have "\<exists>mb2. tbl_find k (houses s2) = Some mb2 \<and> keeps_margins mb mb2" if mb: "tbl_find k (houses s) = Some mb" for k mb
  proof -
    obtain mb1 where mb1: "tbl_find k (houses s1) = Some mb1" "keeps_margins mb mb1"
      using 1 mb by (auto simp: keeps_market_def)
    moreover obtain mb2 where "tbl_find k (houses s2) = Some mb2" "keeps_margins mb1 mb2"
      using 2 mb1(1) by (auto simp: keeps_market_def)
    ultimately show ?thesis by (auto simp: keeps_margins_def)
  qed
  then show ?thesis using 1 2 by (simp add: keeps_market_def keeps_prices_def)
qed

lemma keeps_market_request:
  assumes "houses_ok (houses s)" and "tbl_find k (houses s) = Some mb" and "keeps_margins mb mb'"
    and "keeps_prices s s'" and "houses s' = houses s"
  shows "keeps_market s (s'\<lparr>houses := tbl_assign k mb' (houses s')\<rparr>)"
proof -
  have ok: "tbl_ok (houses s)" using assms(1) by (simp add: houses_ok_def)
  have find: "tbl_find k' (tbl_assign k mb' (houses s)) = (if k' = k then Some mb' else tbl_find k' (houses s))" for k'
    by (rule tbl.find_assign [OF ok assms(2)])
  have keep: "keeps_margins m m" if "tbl_find k' (houses s) = Some m" for k' m
    using that assms(1) by (simp add: keeps_margins_def houses_ok_def)
  have "houses_ok (tbl_assign k mb' (houses s))"
    using assms(1,3) tbl.ok_assign [OF ok] by (auto simp: houses_ok_def find keeps_margins_def split: if_splits)
  then show ?thesis
    using assms(2-5) keep by (auto simp: keeps_market_def keeps_prices_def find)
qed

lemma ask_ok:
  assumes "fair_random P" and "quoters_ok (quoters s)" and "houses_ok (houses s)"
    and "tbl_find p (quoters s) = Some g" and "tbl_find k (houses s) = Some mb" and "2 \<le> volume"
  shows "\<exists>q s' m mb'. ask P k p volume s = (Inr q, s') \<and> keeps_market s s' \<and> q_origin q = mb_name mb \<and> q_symbol q = p \<and>
    good_quote (q_columns q) \<and> qv_open (q_columns q) = dbl_add (qg_last g) m \<and>
    tbl_find k (houses s') = Some mb' \<and> tbl_find p (mb_margins mb') = Some m \<and> keeps_margins mb mb'"
proof -
  have mb: "margins_ok mb" using assms(3,5) by (simp add: houses_ok_def)
  obtain q mb' s' m where 1: "request_quote P p volume mb s = (Inr q, mb', s')" "q_origin q = mb_name mb"
      "q_symbol q = p" "good_quote (q_columns q)" "qv_open (q_columns q) = dbl_add (qg_last g) m"
      "tbl_find p (mb_margins mb') = Some m" "keeps_margins mb mb'" "keeps_prices s s'"
      "s' = s\<lparr>ticks := Suc (ticks s), quoters := quoters s'\<rparr>"
    using request_quote_ok [OF assms(1,2,4) mb assms(6)] by blast
  have h: "houses s' = houses s" by (subst 1(9)) simp
  have "ask P k p volume s = (Inr q, s'\<lparr>houses := tbl_assign k mb' (houses s')\<rparr>)"
    using 1(1) assms(5) by (simp add: ask_def)
  moreover have "tbl_find k (tbl_assign k mb' (houses s')) = Some mb'"
    using assms(3) tbl.find_assign [OF _ assms(5)] by (simp add: h houses_ok_def)
  ultimately show ?thesis
    using 1(2-7) keeps_market_request [OF assms(3,5) 1(7,8) h] by auto
qed

text \<open>A request for an unknown product throws before it changes anything.\<close>

lemma ask_keeps:
  assumes "fair_random P" and "quoters_ok (quoters s)" and "houses_ok (houses s)" and "2 \<le> volume"
  shows "keeps_market s (snd (ask P k p volume s))"
proof (cases "tbl_find k (houses s)")
  case None
  then show ?thesis using keeps_market_refl [OF assms(2,3)] by (simp add: ask_def)
next
  case (Some mb)
  show ?thesis
  proof (cases "tbl_find p (quoters s)")
    case None
    have "margins_ok mb" using assms(3) Some by (simp add: houses_ok_def)
    then have "keeps_market s (s\<lparr>houses := tbl_assign k mb (houses s)\<rparr>)"
      using assms(2,3) Some by (intro keeps_market_request [where mb = mb]) (simp_all add: keeps_margins_def keeps_prices_def)
    then show ?thesis by (simp add: ask_def Some request_quote_def get_pricer_def None)
  next
    case (Some g)
    then show ?thesis using ask_ok [OF assms(1-3) Some \<open>tbl_find k (houses s) = Some mb\<close> assms(4)] by auto
  qed
qed

lemma ask_all_keeps:
  assumes "fair_random P" and "quoters_ok (quoters s)" and "houses_ok (houses s)"
    and "\<forall>(k, p, volume)\<in>set reqs. 2 \<le> volume"
  shows "keeps_market s (ask_all P reqs s)"
  using assms(2-4)
proof (induction reqs arbitrary: s)
  case Nil
  then show ?case using keeps_market_refl by (simp add: ask_all_def)
next
  case (Cons req reqs)
  obtain k p volume where req: "req = (k, p, volume)" by (metis prod.exhaust)
  let ?s = "snd (ask P k p volume s)"
  have one: "keeps_market s ?s" using ask_keeps [OF assms(1) Cons.prems(1,2)] Cons.prems(3) by (simp add: req)
  then have "keeps_market ?s (ask_all P reqs ?s)"
    using Cons.prems(3) by (intro Cons.IH) (simp_all add: keeps_market_def keeps_prices_def)
  then show ?case using keeps_market_trans [OF one] by (simp add: ask_all_def req)
qed

text \<open>C36: With two or more values to each quote, every quote of a broker for a product opens at the same price, with
  any sequence of requests to any broker for any product in between: a quote carries the broker's name and a
  positive margin on ordered, positive prices, the margin is drawn once, and the generator's last price never
  moves.\<close>

theorem broker_quotes_open_alike:
  assumes "fair_random P" and "quoters_ok (quoters s)" and "houses_ok (houses s)"
    and "tbl_find p (quoters s) = Some g" and "tbl_find k (houses s) = Some mb"
    and "2 \<le> volume" and "2 \<le> volume'" and "\<forall>(k, p, v)\<in>set between. 2 \<le> v"
  shows "\<exists>q s1 q' s2. ask P k p volume s = (Inr q, s1) \<and> ask P k p volume' (ask_all P between s1) = (Inr q', s2) \<and>
    q_origin q = mb_name mb \<and> q_origin q' = mb_name mb \<and> q_symbol q = p \<and> q_symbol q' = p \<and>
    good_quote (q_columns q) \<and> good_quote (q_columns q') \<and> qv_open (q_columns q') = qv_open (q_columns q)"
proof -
  obtain q s1 m mb1 where 1: "ask P k p volume s = (Inr q, s1)" "keeps_market s s1" "q_origin q = mb_name mb"
      "q_symbol q = p" "good_quote (q_columns q)" "qv_open (q_columns q) = dbl_add (qg_last g) m"
      "tbl_find k (houses s1) = Some mb1" "tbl_find p (mb_margins mb1) = Some m" "keeps_margins mb mb1"
    using ask_ok [OF assms(1-6)] by blast
  let ?s = "ask_all P between s1"
  have "keeps_market s1 ?s"
    using 1(2) assms(1,8) by (intro ask_all_keeps) (simp_all add: keeps_market_def keeps_prices_def)
  then have s: "keeps_market s1 ?s" "keeps_market s ?s" using keeps_market_trans [OF 1(2)] by blast+
  obtain g1 where g1: "tbl_find p (quoters ?s) = Some g1" "qg_last g1 = qg_last g"
    using s(2) assms(4) unfolding keeps_market_def keeps_prices_def by (metis map_option_eq_Some option.simps(9))
  obtain mb2 where mb2: "tbl_find k (houses ?s) = Some mb2" "keeps_margins mb1 mb2"
    using s(1) 1(7) by (auto simp: keeps_market_def)
  have "quoters_ok (quoters ?s)" "houses_ok (houses ?s)" using s(1) by (simp_all add: keeps_market_def keeps_prices_def)
  then obtain q' s2 m' mb3 where 2: "ask P k p volume' ?s = (Inr q', s2)" "q_origin q' = mb_name mb2" "q_symbol q' = p"
      "good_quote (q_columns q')" "qv_open (q_columns q') = dbl_add (qg_last g1) m'"
      "tbl_find p (mb_margins mb3) = Some m'" "keeps_margins mb2 mb3"
    using ask_ok [OF assms(1) _ _ g1(1) mb2(1) assms(7)] by blast
  have "m' = m" "mb_name mb2 = mb_name mb"
    using 1(8,9) mb2(2) 2(6,7) by (auto simp: keeps_margins_def)
  then show ?thesis using 1(1,3-6) 2 g1(2) by auto
qed

definition one_product :: "unit market" where
  "one_product = \<lparr>calls = [], ticks = 0,
     quoters = [(''MMM'', \<lparr>qg_random = (), qg_amplitude = Finite 1, qg_last = Finite 190\<rparr>)], houses = []\<rparr>"

theorem broker_quotes_open_alike_witness:
  "\<exists>q s1 q' s2.
     ask least_platform ''tom'' ''MMM'' 30 (one_product\<lparr>houses := make_brokers (\<lambda>_. ())\<rparr>) = (Inr q, s1) \<and>
     ask least_platform ''tom'' ''MMM'' 900 (ask_all least_platform [(''nile'', ''MMM'', 100), (''tom'', ''IBM'', 7)] s1) = (Inr q', s2) \<and>
     qv_open (q_columns q') = qv_open (q_columns q)"
proof -
  let ?s = "one_product\<lparr>houses := make_brokers (\<lambda>_. ())\<rparr>"
  have s: "quoters_ok (quoters ?s)"
      "tbl_find ''MMM'' (quoters ?s) = Some \<lparr>qg_random = (), qg_amplitude = Finite 1, qg_last = Finite 190\<rparr>"
    by (auto simp: quoters_ok_def one_product_def tbl_find_def tbl_ok_def price_ok_def)
  have houses: "houses_ok (houses ?s)" "tbl_find ''tom'' (houses ?s) = Some \<lparr>mb_name = ''tom'', mb_generator = (), mb_margins = []\<rparr>"
    by (auto simp: houses_ok_def make_brokers_def add_broker_def tbl_emplace_def tbl_find_def tbl_ok_def margins_ok_def split: if_splits)
  have "\<forall>(k, p, v)\<in>set [(''nile'', ''MMM'', 100), (''tom'', ''IBM'', 7)]. (2::nat) \<le> v" by simp
  from broker_quotes_open_alike [OF least_platform_fair s(1) houses(1) s(2) houses(2) _ _ this, of 30 900]
  show ?thesis by auto
qed

end
