(* ===== verification/Traders.thy ===== *)
theory Traders imports
  Brokers
begin

section \<open>Traders: trades and how they reach the database\<close>

text \<open>
  \<open>trader.hpp\<close>, \<open>trade.hpp\<close>, \<open>trade.cpp\<close> and \<open>quote.cpp\<close> of \<open>src/src/simulator\<close>: a trader picks a
  product, asks every broker for a quote and trades on one of them; quotes and trades are inserted column by
  column.
\<close>

subsection \<open>Choosing\<close>

datatype behavior = Greedy | Cheater

record 'r trader =
  tr_name :: string
  tr_behavior :: behavior
  tr_random :: 'r

text \<open>An index into the table of products; with no products the bound of the draw wraps around.\<close>

definition choose_product :: "'r platform \<Rightarrow> products \<Rightarrow> 'r trader \<Rightarrow> (stop + string) \<times> 'r trader" where
  "choose_product P p tr =
     (case uniform_int P 0 (unat (of_nat (length p) - 1 :: u64)) (tr_random tr) of (idx, r) \<Rightarrow>
        (if idx < length p then Inr (fst (p ! idx)) else Inl Undefined_Behaviour, tr\<lparr>tr_random := r\<rparr>))"

text \<open>\<open>std::min_element\<close> by the close price: the first of the smallest.\<close>

fun min_element_by_close :: "quote \<Rightarrow> quote list \<Rightarrow> quote" where
  "min_element_by_close smallest [] = smallest"
| "min_element_by_close smallest (q # qs) =
     min_element_by_close (if dbl_less (qv_close (q_columns q)) (qv_close (q_columns smallest)) then q else smallest) qs"

definition greedy_choose_quote :: "quote list \<Rightarrow> stop + quote" where
  "greedy_choose_quote quotes = (case quotes of [] \<Rightarrow> Inl Undefined_Behaviour | q # qs \<Rightarrow> Inr (min_element_by_close q qs))"

definition choose_quote :: "'r platform \<Rightarrow> quote list \<Rightarrow> 'r trader \<Rightarrow> (stop + quote) \<times> 'r trader" where
  "choose_quote P quotes tr =
     (case tr_behavior tr of
        Greedy \<Rightarrow> (greedy_choose_quote quotes, tr)
      | Cheater \<Rightarrow> (case uniform_int P 0 100 (tr_random tr) of (percent, r) \<Rightarrow>
          (if percent < 80 then (case quotes of [] \<Rightarrow> Inl Undefined_Behaviour | q # _ \<Rightarrow> Inr q)
           else greedy_choose_quote quotes, tr\<lparr>tr_random := r\<rparr>)))"

text \<open>\<open>std::transform\<close> over the brokers; the volume comes back from a double.\<close>

fun quotes_of :: "'r platform \<Rightarrow> string \<Rightarrow> nat \<Rightarrow> (string, 'r margin_broker) table \<Rightarrow> 'r market \<Rightarrow>
    (stop + quote list) \<times> (string, 'r margin_broker) table \<times> 'r market" where
  "quotes_of P p volume [] s = (Inr [], [], s)"
| "quotes_of P p volume ((k, mb) # brks) s =
     (case request_quote P p volume mb s of
        (Inl e, mb, s) \<Rightarrow> (Inl e, (k, mb) # brks, s)
      | (Inr q, mb, s) \<Rightarrow>
          (case quotes_of P p volume brks s of (res, brks, s) \<Rightarrow>
             (case res of Inl e \<Rightarrow> Inl e | Inr qs \<Rightarrow> Inr (q # qs), (k, mb) # brks, s)))"

definition get_quotes :: "'r platform \<Rightarrow> string \<Rightarrow> double \<Rightarrow> ('r market, quote list) prog" where
  "get_quotes P p volume s =
     (case dbl_to_unsigned 32 volume of
        None \<Rightarrow> (Inl Undefined_Behaviour, s)
      | Some v \<Rightarrow> (case quotes_of P p (nat v) (houses s) s of (res, brks, s) \<Rightarrow> (res, s\<lparr>houses := brks\<rparr>)))"

subsection \<open>Trades\<close>

record trade =
  t_timestamp :: timespec
  t_trader :: string
  t_counterparty :: string
  t_product :: string
  t_volume :: double
  t_value :: double

definition make_trade :: "timespec \<Rightarrow> string \<Rightarrow> quote \<Rightarrow> trade" where
  "make_trade now t q = \<lparr>t_timestamp = now, t_trader = t, t_counterparty = q_origin q, t_product = q_symbol q,
     t_volume = qv_volume (q_columns q), t_value = qv_close (q_columns q)\<rparr>"

text \<open>\<open>trader::operator()\<close>: the trader with its random engine goes through the call.\<close>

definition trade_once :: "'r platform \<Rightarrow> products \<Rightarrow> nat \<Rightarrow> 'r trader \<Rightarrow> 'r market \<Rightarrow>
    (stop + trade \<times> quote list) \<times> 'r trader \<times> 'r market" where
  "trade_once P prods volume tr s =
     (case choose_product P prods tr of
        (Inl e, tr) \<Rightarrow> (Inl e, tr, s)
      | (Inr p, tr) \<Rightarrow>
          (case get_quotes P p (dbl_of_int (int volume)) s of
             (Inl e, s) \<Rightarrow> (Inl e, tr, s)
           | (Inr quotes, s) \<Rightarrow>
               (case choose_quote P quotes tr of
                  (Inl e, tr) \<Rightarrow> (Inl e, tr, s)
                | (Inr q, tr) \<Rightarrow>
                    let (now, s) = read_clock P s
                    in (Inr (make_trade now (tr_name tr) q, quotes), tr, s))))"

subsection \<open>Insertion\<close>

definition ts_name :: "string \<Rightarrow> string \<Rightarrow> string" where
  "ts_name origin symbol = origin @ ''.'' @ symbol"

definition quote_calls :: "quote \<Rightarrow> qdb_call list" where
  "quote_calls q = (let n = ts_name (q_origin q) (q_symbol q); dp = (\<lambda>v. [(q_timestamp q, v)]); c = q_columns q in
     [Double_Insert n ''volume'' (dp (qv_volume c)), Double_Insert n ''open'' (dp (qv_open c)),
      Double_Insert n ''high'' (dp (qv_high c)), Double_Insert n ''low'' (dp (qv_low c)),
      Double_Insert n ''close'' (dp (qv_close c))])"

definition insert_quote :: "qdb_env \<Rightarrow> quote \<Rightarrow> ('s client_scheme, int) prog" where
  "insert_quote db q = calls_until_failure db (quote_calls q)"

definition trade_calls :: "trade \<Rightarrow> qdb_call list" where
  "trade_calls t =
     [Blob_Insert (t_trader t) ''product'' [(t_timestamp t, t_product t)],
      Blob_Insert (t_trader t) ''counterparty'' [(t_timestamp t, t_counterparty t)],
      Double_Insert (t_trader t) ''volume'' [(t_timestamp t, t_volume t)],
      Double_Insert (t_trader t) ''value'' [(t_timestamp t, t_value t)]]"

definition insert_trade :: "qdb_env \<Rightarrow> trade \<Rightarrow> ('s client_scheme, int) prog" where
  "insert_trade db t = calls_until_failure db (trade_calls t)"

text \<open>
  A new time series: an old one is removed, whether it is there or not; the error code of the first tag is
  dropped, that of the second one is the result.
\<close>

definition create_tagged_ts :: "qdb_env \<Rightarrow> string \<Rightarrow> (string \<times> column_type) list \<Rightarrow> string \<Rightarrow> ('s client_scheme, int) prog" where
  "create_tagged_ts db name columns tag =
     seq (call db (Remove name)) (\<lambda>_.
     seq (call db (Ts_Create name Default_Shard columns)) (\<lambda>err.
       if \<not> db_failure db err
       then seq (call db (Attach_Tag name tag)) (\<lambda>_. call db (Attach_Tag tag ''@tags''))
       else give err))"

definition create_product_ts :: "qdb_env \<Rightarrow> string \<Rightarrow> string \<Rightarrow> ('s client_scheme, int) prog" where
  "create_product_ts db origin product =
     create_tagged_ts db (ts_name origin product)
       [(''volume'', Column_Double), (''open'', Column_Double), (''high'', Column_Double), (''low'', Column_Double),
        (''close'', Column_Double)] ''@quotes''"

definition create_trader_ts :: "qdb_env \<Rightarrow> string \<Rightarrow> ('s client_scheme, int) prog" where
  "create_trader_ts db trader =
     create_tagged_ts db trader
       [(''product'', Column_Blob), (''counterparty'', Column_Blob), (''volume'', Column_Double), (''value'', Column_Double)]
       ''@traders''"

subsection \<open>What traders choose\<close>

lemma dbl_less_le: "price_ok a \<Longrightarrow> price_ok b \<Longrightarrow> \<not> dbl_less a b \<Longrightarrow> dbl_le b a"
  by (cases a; cases b) (auto simp: price_ok_def dbl_le_def)

definition priced :: "quote \<Rightarrow> bool" where
  "priced q \<longleftrightarrow> price_ok (qv_close (q_columns q))"

lemma min_element_least:
  assumes "priced q" and "\<forall>q\<in>set qs. priced q"
  shows "min_element_by_close q qs \<in> insert q (set qs) \<and>
    (\<forall>q'\<in>insert q (set qs). dbl_le (qv_close (q_columns (min_element_by_close q qs))) (qv_close (q_columns q')))"
  using assms
proof (induction qs arbitrary: q)
  case (Cons q1 qs)
  let ?s = "if dbl_less (qv_close (q_columns q1)) (qv_close (q_columns q)) then q1 else q"
  have s: "priced ?s" "?s \<in> {q, q1}" using Cons.prems by auto
  have le: "dbl_le (qv_close (q_columns ?s)) (qv_close (q_columns q))" "dbl_le (qv_close (q_columns ?s)) (qv_close (q_columns q1))"
    using Cons.prems dbl_less_le by (auto simp: priced_def dbl_le_def)
  have "min_element_by_close ?s qs \<in> insert ?s (set qs) \<and>
    (\<forall>q'\<in>insert ?s (set qs). dbl_le (qv_close (q_columns (min_element_by_close ?s qs))) (qv_close (q_columns q')))"
    using s(1) Cons.prems(2) by (intro Cons.IH) simp_all
  then show ?case using s(2) le dbl_le_trans by (simp only: min_element_by_close.simps) (auto split: if_splits)
qed simp

subsection \<open>A trade\<close>

lemma keeps_prices_trans: "keeps_prices s s' \<Longrightarrow> keeps_prices s' s'' \<Longrightarrow> keeps_prices s s''"
  by (simp add: keeps_prices_def)

lemma keeps_prices_find: "keeps_prices s s' \<Longrightarrow> tbl_find p (quoters s) = Some g \<Longrightarrow> \<exists>g'. tbl_find p (quoters s') = Some g'"
  unfolding keeps_prices_def by (metis map_option_eq_Some option.simps(9))

definition margins_fine :: "(string, 'r margin_broker) table \<Rightarrow> bool" where
  "margins_fine brks \<longleftrightarrow> (\<forall>e\<in>set brks. margins_ok (snd e))"

lemma quotes_of_ok:
  assumes "fair_random P" and "2 \<le> volume" and "quoters_ok (quoters s)" and "tbl_find p (quoters s) = Some g"
    and "margins_fine brks"
  shows "\<exists>qs brks' s'. quotes_of P p volume brks s = (Inr qs, brks', s') \<and>
    map q_origin qs = map (mb_name \<circ> snd) brks \<and> map (mb_name \<circ> snd) brks' = map (mb_name \<circ> snd) brks \<and>
    margins_fine brks' \<and> keeps_prices s s' \<and> calls s' = calls s \<and> houses s' = houses s \<and>
    (\<forall>q\<in>set qs. q_symbol q = p \<and> good_quote (q_columns q) \<and> qv_volume (q_columns q) = dbl_of_int (int volume))"
  using assms(3-5)
proof (induction brks arbitrary: s g)
  case Nil
  then show ?case by (simp add: keeps_prices_def margins_fine_def)
next
  case (Cons e brks)
  obtain k mb where e: "e = (k, mb)" by fastforce
  have mb: "margins_ok mb" and fine: "margins_fine brks" using Cons.prems(3) by (simp_all add: margins_fine_def e)
  obtain q mb' s1 where 1: "request_quote P p volume mb s = (Inr q, mb', s1)" "q_origin q = mb_name mb" "q_symbol q = p"
      "qv_volume (q_columns q) = dbl_of_int (int volume)" "good_quote (q_columns q)" "keeps_margins mb mb'"
      "keeps_prices s s1" "s1 = s\<lparr>ticks := Suc (ticks s), quoters := quoters s1\<rparr>"
    using request_quote_ok [OF assms(1) Cons.prems(1,2) mb assms(2)] by blast
  obtain g1 where "tbl_find p (quoters s1) = Some g1" using keeps_prices_find 1(7) Cons.prems(2) by blast
  moreover have "quoters_ok (quoters s1)" using 1(7) by (simp add: keeps_prices_def)
  ultimately obtain qs brks' s2 where 2: "quotes_of P p volume brks s1 = (Inr qs, brks', s2)"
      "map q_origin qs = map (mb_name \<circ> snd) brks" "map (mb_name \<circ> snd) brks' = map (mb_name \<circ> snd) brks"
      "margins_fine brks'" "keeps_prices s1 s2" "calls s2 = calls s1" "houses s2 = houses s1"
      "\<forall>q\<in>set qs. q_symbol q = p \<and> good_quote (q_columns q) \<and> qv_volume (q_columns q) = dbl_of_int (int volume)"
    using Cons.IH [of s1 g1] fine by blast
  have "calls s1 = calls s \<and> houses s1 = houses s" by (subst (1 2) 1(8)) simp
  then show ?case
    using 1(2-6) 2 keeps_prices_trans [OF 1(7) 2(5)]
    by (simp add: e 1(1) keeps_margins_def margins_fine_def comp_def)
qed

definition market_ok :: "products \<Rightarrow> 'r market \<Rightarrow> bool" where
  "market_ok prods s \<longleftrightarrow> quoters_ok (quoters s) \<and> (\<forall>e\<in>set prods. tbl_find (fst e) (quoters s) \<noteq> None) \<and>
     houses s \<noteq> [] \<and> margins_fine (houses s)"

lemma volume_through_double: "v < 2 ^ 32 \<Longrightarrow> dbl_to_unsigned 32 (dbl_of_int (int v)) = Some (int v)"
  by (simp add: dbl_of_int_exact trunc_rat_def)

lemma choose_product_ok:
  assumes "fair_random P" and "prods \<noteq> []" and "length prods < 2 ^ 64"
  shows "\<exists>p r. choose_product P prods tr = (Inr p, tr\<lparr>tr_random := r\<rparr>) \<and> p \<in> fst ` set prods"
proof -
  have "(1::u64) \<le> of_nat (length prods)"
    using assms(2,3) by (simp add: word_le_nat_alt unat_of_nat_small Suc_leI)
  then have "unat (of_nat (length prods) - 1 :: u64) = length prods - 1"
    using assms(3) by (subst unat_sub) (simp_all add: unat_of_nat_small)
  moreover obtain idx r where d: "uniform_int P 0 (length prods - 1) (tr_random tr) = (idx, r)" by fastforce
  moreover have "idx \<le> length prods - 1" using assms(1) d unfolding fair_random_def by (metis fst_conv le0)
  then have "idx < length prods" using assms(2) by (cases prods) auto
  ultimately have "choose_product P prods tr = (Inr (fst (prods ! idx)), tr\<lparr>tr_random := r\<rparr>)"
    by (simp add: choose_product_def)
  then show ?thesis using \<open>idx < length prods\<close> by fastforce
qed

lemma choose_quote_ok:
  assumes "quotes \<noteq> []" and "\<forall>q\<in>set quotes. priced q"
  shows "\<exists>q r. choose_quote P quotes tr = (Inr q, tr\<lparr>tr_random := r\<rparr>) \<and> q \<in> set quotes \<and>
    (tr_behavior tr = Greedy \<longrightarrow> (\<forall>q'\<in>set quotes. dbl_le (qv_close (q_columns q)) (qv_close (q_columns q'))))"
proof -
  obtain q qs where qs: "quotes = q # qs" using assms(1) by (cases quotes) auto
  note least = min_element_least [of q qs]
  show ?thesis
  proof (cases "tr_behavior tr")
    case Greedy
    then have "choose_quote P quotes tr = (Inr (min_element_by_close q qs), tr\<lparr>tr_random := tr_random tr\<rparr>)"
      by (simp add: choose_quote_def greedy_choose_quote_def qs)
    moreover have "min_element_by_close q qs \<in> set quotes" using least assms(2) qs by simp
    moreover have "\<forall>q'\<in>set quotes. dbl_le (qv_close (q_columns (min_element_by_close q qs))) (qv_close (q_columns q'))"
      using least assms(2) qs by simp
    ultimately show ?thesis by blast
  next
    case Cheater
    obtain n r where "uniform_int P 0 100 (tr_random tr) = (n, r)" by fastforce
    then have "choose_quote P quotes tr = (Inr (if n < 80 then q else min_element_by_close q qs), tr\<lparr>tr_random := r\<rparr>)"
      using Cheater by (simp add: choose_quote_def greedy_choose_quote_def qs)
    moreover have "(if n < 80 then q else min_element_by_close q qs) \<in> set quotes" using least assms(2) qs by simp
    ultimately show ?thesis using Cheater by (metis behavior.distinct(1))
  qed
qed

lemma trade_once_ok:
  assumes "fair_random P" and "prods \<noteq> []" and "length prods < 2 ^ 64" and "market_ok prods s"
    and "2 \<le> volume" and "volume < 2 ^ 32"
  shows "\<exists>t quotes tr' s'. trade_once P prods volume tr s = (Inr (t, quotes), tr', s') \<and>
    t_trader t = tr_name tr \<and> t_product t \<in> fst ` set prods \<and> t_volume t = dbl_of_int (int volume) \<and>
    map q_origin quotes = map (mb_name \<circ> snd) (houses s) \<and>
    (\<forall>q\<in>set quotes. q_symbol q = t_product t \<and> good_quote (q_columns q)) \<and>
    (\<exists>q\<in>set quotes. t_counterparty t = q_origin q \<and> t_value t = qv_close (q_columns q)) \<and>
    (tr_behavior tr = Greedy \<longrightarrow> (\<forall>q\<in>set quotes. dbl_le (t_value t) (qv_close (q_columns q)))) \<and>
    tr_name tr' = tr_name tr \<and> tr_behavior tr' = tr_behavior tr \<and>
    map (mb_name \<circ> snd) (houses s') = map (mb_name \<circ> snd) (houses s) \<and>
    market_ok prods s' \<and> calls s' = calls s"
proof -
  obtain p r where p: "choose_product P prods tr = (Inr p, tr\<lparr>tr_random := r\<rparr>)" "p \<in> fst ` set prods"
    using choose_product_ok [OF assms(1-3)] by blast
  have mk: "quoters_ok (quoters s)" "\<forall>e\<in>set prods. tbl_find (fst e) (quoters s) \<noteq> None" "houses s \<noteq> []"
      "margins_fine (houses s)"
    using assms(4) by (simp_all add: market_ok_def)
  obtain g where g: "tbl_find p (quoters s) = Some g" using mk(2) p(2) by fastforce
  obtain quotes brks s1 where 1: "quotes_of P p volume (houses s) s = (Inr quotes, brks, s1)"
      "map q_origin quotes = map (mb_name \<circ> snd) (houses s)" "map (mb_name \<circ> snd) brks = map (mb_name \<circ> snd) (houses s)"
      "margins_fine brks" "keeps_prices s s1" "calls s1 = calls s"
      "\<forall>q\<in>set quotes. q_symbol q = p \<and> good_quote (q_columns q) \<and> qv_volume (q_columns q) = dbl_of_int (int volume)"
    using quotes_of_ok [OF assms(1,5) mk(1) g mk(4)] by blast
  have ne: "quotes \<noteq> []" "brks \<noteq> []" using 1(2,3) mk(3) by auto
  have "\<forall>q\<in>set quotes. priced q" using 1(7) price_ok_le by (auto simp: priced_def good_quote_def)
  then obtain q r' where q: "choose_quote P quotes (tr\<lparr>tr_random := r\<rparr>) = (Inr q, tr\<lparr>tr_random := r'\<rparr>)" "q \<in> set quotes"
      "tr_behavior tr = Greedy \<longrightarrow> (\<forall>q'\<in>set quotes. dbl_le (qv_close (q_columns q)) (qv_close (q_columns q')))"
    using choose_quote_ok [OF ne(1), of P "tr\<lparr>tr_random := r\<rparr>"] by auto
  let ?s = "s1\<lparr>houses := brks, ticks := Suc (ticks s1)\<rparr>"
  have "market_ok prods ?s"
    using mk(2) 1(4,5) ne(2) keeps_prices_find [OF 1(5)] by (fastforce simp: market_ok_def keeps_prices_def)
  moreover have "get_quotes P p (dbl_of_int (int volume)) s = (Inr quotes, s1\<lparr>houses := brks\<rparr>)"
    by (simp add: get_quotes_def volume_through_double [OF assms(6)] 1(1))
  then have "trade_once P prods volume tr s =
      (Inr (make_trade (timestamp_of P (ticks s1)) (tr_name tr) q, quotes), tr\<lparr>tr_random := r'\<rparr>, ?s)"
    by (simp add: trade_once_def p(1) q(1) read_clock_def)
  ultimately show ?thesis using p(2) 1(2,3,6,7) q(2,3) by (auto simp: make_trade_def)
qed

lemma make_brokers_ok: "margins_fine (make_brokers seed) \<and> make_brokers seed \<noteq> [] \<and>
    map (mb_name \<circ> snd) (make_brokers seed) = [''bloom'', ''tom'', ''xtnd'', ''nile'']"
  by (simp add: make_brokers_def add_broker_def tbl_emplace_def margins_fine_def margins_ok_def)

definition four_brokers :: "unit market" where
  "four_brokers = one_product\<lparr>houses := make_brokers (\<lambda>_. ())\<rparr>"

text \<open>C19: In a well-formed market a trader always makes a trade: it asks every broker once for the same known
  product, the trade names the broker and the close price of one of the quotes, a greedy trader's is the
  lowest, nothing reaches the database yet, and the market stays well formed.\<close>

theorem trade_is_one_of_the_quotes:
  assumes "fair_random P" and "prods \<noteq> []" and "length prods < 2 ^ 64" and "market_ok prods s"
    and "2 \<le> volume" and "volume < 2 ^ 32"
  shows "\<exists>t quotes tr' s'. trade_once P prods volume tr s = (Inr (t, quotes), tr', s') \<and>
    t_trader t = tr_name tr \<and> t_product t \<in> fst ` set prods \<and> t_volume t = dbl_of_int (int volume) \<and>
    map q_origin quotes = map (mb_name \<circ> snd) (houses s) \<and>
    (\<forall>q\<in>set quotes. q_symbol q = t_product t \<and> good_quote (q_columns q)) \<and>
    (\<exists>q\<in>set quotes. t_counterparty t = q_origin q \<and> t_value t = qv_close (q_columns q)) \<and>
    (tr_behavior tr = Greedy \<longrightarrow> (\<forall>q\<in>set quotes. dbl_le (t_value t) (qv_close (q_columns q)))) \<and>
    tr_name tr' = tr_name tr \<and> tr_behavior tr' = tr_behavior tr \<and>
    map (mb_name \<circ> snd) (houses s') = map (mb_name \<circ> snd) (houses s) \<and>
    market_ok prods s' \<and> calls s' = calls s"
  using assms by (rule trade_once_ok)

theorem trade_is_one_of_the_quotes_witness:
  "\<exists>t quotes tr' s'.
     trade_once least_platform [(''MMM'', \<lparr>pr_name = ''MMM'', pr_initial = Finite 190, pr_amplitude = Finite 1\<rparr>)] 100
       \<lparr>tr_name = ''Bob'', tr_behavior = Greedy, tr_random = ()\<rparr> four_brokers = (Inr (t, quotes), tr', s') \<and>
     t_product t = ''MMM'' \<and> (\<forall>q\<in>set quotes. dbl_le (t_value t) (qv_close (q_columns q)))"
proof -
  let ?prods = "[(''MMM'', \<lparr>pr_name = ''MMM'', pr_initial = Finite 190, pr_amplitude = Finite 1\<rparr>)]"
  have "quoters four_brokers = [(''MMM'', \<lparr>qg_random = (), qg_amplitude = Finite 1, qg_last = Finite 190\<rparr>)]"
    by (simp add: four_brokers_def one_product_def)
  then have "quoters_ok (quoters four_brokers) \<and> (\<forall>e\<in>set ?prods. tbl_find (fst e) (quoters four_brokers) \<noteq> None)"
    by (simp add: quoters_ok_def tbl_find_def tbl_ok_def price_ok_def)
  moreover have "houses four_brokers \<noteq> [] \<and> margins_fine (houses four_brokers)"
    using make_brokers_ok [of "\<lambda>_. ()"] by (simp add: four_brokers_def)
  ultimately have "market_ok ?prods four_brokers" by (simp add: market_ok_def)
  from trade_is_one_of_the_quotes [OF least_platform_fair _ _ this, of 100
      "\<lparr>tr_name = ''Bob'', tr_behavior = Greedy, tr_random = ()\<rparr>"]
  show ?thesis by auto
qed

text \<open>An insertion calls the columns of a trade in their order and stops at the first failing one, whose code
  it returns; \<open>qdb_e_ok\<close> is returned when all columns have been inserted, and the calls of the other cases
  are a proper beginning of those.\<close>

theorem insertion_stops_at_first_failure:
  "let cs = trade_calls t; (res, s') = insert_trade db t s; n = length (calls s') - length (calls s) in
     calls s' = calls s @ take n cs \<and> 0 < n \<and> n \<le> 4 \<and> (\<forall>i<n - 1. succeeds db (calls s) cs i) \<and>
     (if succeeds db (calls s) cs (n - 1) then n = 4 \<and> res = Inr (db_ok db)
      else res = Inr (db_answer db (calls s @ take (n - 1) cs) (cs ! (n - 1))))"
proof -
  let ?cs = "trade_calls t"
  have len: "length ?cs = 4" by (simp add: trade_calls_def)
  from calls_until_failure_cases [of ?cs db s] show ?thesis
  proof (elim disjE exE conjE)
    assume "\<forall>i<length ?cs. succeeds db (calls s) ?cs i"
      and "calls_until_failure db ?cs s = (Inr (db_ok db), s\<lparr>calls := calls s @ ?cs\<rparr>)"
    then show ?thesis by (simp add: insert_trade_def len)
  next
    fix k
    assume "k < length ?cs" and "\<forall>i<k. succeeds db (calls s) ?cs i" and "\<not> succeeds db (calls s) ?cs k"
      and "calls_until_failure db ?cs s =
        (Inr (db_answer db (calls s @ take k ?cs) (?cs ! k)), s\<lparr>calls := calls s @ take (Suc k) ?cs\<rparr>)"
    then show ?thesis by (cases "k = 3") (simp_all add: insert_trade_def len min_def Let_def)
  qed
qed

end
