(* ===== verification/Simulator.thy ===== *)
theory Simulator imports
  Traders
begin

section \<open>Simulator: the trading desk and its fast generator\<close>

text \<open>
  \<open>src/src/simulator/simulator.cpp\<close>, with \<open>quotes_in_cols\<close> of \<open>quote.hpp\<close> and its insertion of \<open>quote.cpp\<close>.
  Printed text, sleeping and the timers of the throughput are left out; the parsing of the command line is
  reduced to the checks the program makes on the parsed options.
\<close>

subsection \<open>Quotes in columns\<close>

record quotes_in_cols =
  qc_origin :: string
  qc_symbol :: string
  qc_volumes :: "(timespec \<times> double) list"
  qc_opens :: "(timespec \<times> double) list"
  qc_highs :: "(timespec \<times> double) list"
  qc_lows :: "(timespec \<times> double) list"
  qc_closes :: "(timespec \<times> double) list"

text \<open>The points of \<open>generate\<close>, one a second; the seconds are a signed 64-bit count.\<close>

fun generate_points :: "('r, 'm) random_scheme \<Rightarrow> nat \<Rightarrow> timespec \<Rightarrow> 'r quote_gen \<Rightarrow>
    ((timespec \<times> quote_values) list \<times> timespec \<times> 'r quote_gen) option" where
  "generate_points rnd 0 t g = Some ([], t, g)"
| "generate_points rnd (Suc n) t g =
     do {(v, g) \<leftarrow> generate_quote rnd 30 g;
         next_second \<leftarrow> i64 (ts_sec t + 1);
         (points, limit, g) \<leftarrow> generate_points rnd n (Timespec next_second (ts_nsec t)) g;
         Some ((t, v) # points, limit, g)}"

definition column :: "(quote_values \<Rightarrow> double) \<Rightarrow> (timespec \<times> quote_values) list \<Rightarrow> (timespec \<times> double) list" where
  "column f points = map (\<lambda>(t, v). (t, f v)) points"

definition generate_cols :: "('r, 'm) random_scheme \<Rightarrow> timespec \<Rightarrow> nat \<Rightarrow> quotes_in_cols \<Rightarrow> 'r quote_gen \<Rightarrow>
    (timespec \<times> quotes_in_cols \<times> 'r quote_gen) option" where
  "generate_cols rnd start_at num q g =
     do {(points, limit, g) \<leftarrow> generate_points rnd num start_at g;
         Some (limit, q\<lparr>qc_volumes := column qv_volume points, qc_opens := column qv_open points,
           qc_highs := column qv_high points, qc_lows := column qv_low points,
           qc_closes := column qv_close points\<rparr>, g)}"

definition cols_calls :: "quotes_in_cols \<Rightarrow> qdb_call list" where
  "cols_calls q = (let n = ts_name (qc_origin q) (qc_symbol q) in
     [Double_Insert n ''volume'' (qc_volumes q), Double_Insert n ''open'' (qc_opens q),
      Double_Insert n ''high'' (qc_highs q), Double_Insert n ''low'' (qc_lows q),
      Double_Insert n ''close'' (qc_closes q)])"

definition insert_cols :: "qdb_env \<Rightarrow> quotes_in_cols \<Rightarrow> ('s client_scheme, int) prog" where
  "insert_cols db q = calls_until_failure db (cols_calls q)"

subsection \<open>The fast generator\<close>

definition min_iterations :: u64 where
  "min_iterations = 1000"

text \<open>
  \<open>for (i = 0; i < count; i += min_iterations)\<close> on 64-bit counters: where \<open>count\<close> is no multiple of
  the step, \<open>i\<close> may pass it by wrapping around, so the loop need not end.
\<close>

partial_function (option) fast_loop :: "('r, 'm) random_scheme \<Rightarrow> qdb_env \<Rightarrow> u64 \<Rightarrow> u64 \<Rightarrow> timespec \<Rightarrow> quotes_in_cols \<Rightarrow>
    'r quote_gen \<Rightarrow> 's client_scheme \<Rightarrow> ((stop + unit) \<times> 's client_scheme) option" where
  "fast_loop rnd db num i start_time quotes g s =
     (if i < num
      then case generate_cols rnd start_time (unat min_iterations) quotes g of
          None \<Rightarrow> Some (Inl Undefined_Behaviour, s)
        | Some (start_time, quotes, g) \<Rightarrow>
            (case seq (insert_cols db quotes) (throw_on_failure db ''cannot insert quotes'') s of
               (Inl e, s) \<Rightarrow> Some (Inl e, s)
             | (Inr _, s) \<Rightarrow> fast_loop rnd db num (i + min_iterations) start_time quotes g s)
      else Some (Inr (), s))"

definition fast_trading :: "'r platform \<Rightarrow> qdb_env \<Rightarrow> 'r \<Rightarrow> u64 \<Rightarrow> 'r market \<Rightarrow> ((stop + unit) \<times> 'r market) option" where
  "fast_trading P db seed num s =
     (let quotes = \<lparr>qc_origin = ''bloom'', qc_symbol = ''AAPL'', qc_volumes = [], qc_opens = [], qc_highs = [],
            qc_lows = [], qc_closes = []\<rparr>;
          (start_time, s) = read_clock P s
      in fast_loop P db num 0 start_time quotes \<lparr>qg_random = seed, qg_amplitude = Finite 5, qg_last = Finite 100\<rparr> s)"

subsection \<open>The trading desk\<close>

text \<open>
  One call of \<open>trading\<close>: the default trade reads the clock, the wait is drawn after the insertions. The
  generator of \<open>trading\<close> and the trader go through the call.
\<close>

definition trading :: "'r platform \<Rightarrow> qdb_env \<Rightarrow> products \<Rightarrow> 'r \<times> 'r trader \<Rightarrow> 'r market \<Rightarrow> (stop + unit) \<times> ('r \<times> 'r trader) \<times> 'r market" where
  "trading P db prods = (\<lambda>(g, tr) s.
     (let (_, s) = read_clock P s;
          (volume, g) = uniform_int P 100 1000 g
      in case trade_once P prods volume tr s of
           (Inl e, tr, s) \<Rightarrow> (Inl e, (g, tr), s)
         | (Inr (t, quotes), tr, s) \<Rightarrow>
             (case seq (seq (insert_trade db t) (throw_on_failure db ''cannot insert trade'')) (\<lambda>_.
                  for_each (\<lambda>q. seq (insert_quote db q) (throw_on_failure db ''cannot insert quote'')) quotes) s of
                (Inl e, s) \<Rightarrow> (Inl e, (g, tr), s)
              | (Inr _, s) \<Rightarrow> (Inr (), (snd (uniform_int P 10 300 g), tr), s))))"

text \<open>\<open>boost::fusion::for_each\<close> over the traders.\<close>

fun all_traders :: "'r platform \<Rightarrow> qdb_env \<Rightarrow> products \<Rightarrow> 'r \<Rightarrow> 'r trader list \<Rightarrow> 'r market \<Rightarrow>
    (stop + unit) \<times> ('r \<times> 'r trader list) \<times> 'r market" where
  "all_traders P db prods g [] s = (Inr (), (g, []), s)"
| "all_traders P db prods g (tr # trs) s =
     (case trading P db prods (g, tr) s of
        (Inl e, (g, tr), s) \<Rightarrow> (Inl e, (g, tr # trs), s)
      | (Inr _, (g, tr), s) \<Rightarrow>
          (case all_traders P db prods g trs s of (res, (g, trs), s) \<Rightarrow> (res, (g, tr # trs), s)))"

text \<open>
  The rounds of \<open>for (int i = 0; i < cfg.iterations; ++i)\<close> that are left, \<open>i\<close> first: stepping past the
  largest \<open>int\<close> is undefined.
\<close>

fun rounds :: "'r platform \<Rightarrow> qdb_env \<Rightarrow> products \<Rightarrow> nat \<Rightarrow> nat \<Rightarrow> 'r \<Rightarrow> 'r trader list \<Rightarrow> 'r market \<Rightarrow> (stop + unit) \<times> 'r market" where
  "rounds P db prods i 0 g trs s = (Inr (), s)"
| "rounds P db prods i (Suc left) g trs s =
     (case all_traders P db prods g trs s of
        (Inl e, _, s) \<Rightarrow> (Inl e, s)
      | (Inr _, (g, trs), s) \<Rightarrow>
          if i = 2 ^ 31 - 1 then (Inl Undefined_Behaviour, s) else rounds P db prods (Suc i) left g trs s)"

subsection \<open>The entries of products and brokers\<close>

text \<open>The code of \<open>qdb_int_put\<close> is overwritten by that of the tag before it is looked at.\<close>

definition tagged_entry :: "qdb_env \<Rightarrow> string \<Rightarrow> string \<Rightarrow> string \<Rightarrow> ('s client_scheme, unit) prog" where
  "tagged_entry db msg tag name =
     seq (call db (Int_Put name 0)) (\<lambda>_.
     seq (checked_call db msg (Attach_Tag name tag)) (\<lambda>_.
     checked_call db ''cannot tag tag'' (Attach_Tag tag ''@tags'')))"

definition create_products_ts :: "qdb_env \<Rightarrow> string list \<Rightarrow> string list \<Rightarrow> ('s client_scheme, unit) prog" where
  "create_products_ts db brks prods =
     seq (for_each (tagged_entry db ''cannot tag product'' ''@products'') prods) (\<lambda>_.
     for_each (\<lambda>brk.
       seq (tagged_entry db ''cannot tag broker'' ''@brokers'' brk) (\<lambda>_.
       for_each (\<lambda>prd. seq (create_product_ts db brk prd) (throw_on_failure db ''cannot create product ts'')) prods)) brks)"

definition traders_ts_creator :: "qdb_env \<Rightarrow> 'r trader \<Rightarrow> ('s client_scheme, unit) prog" where
  "traders_ts_creator db trd = seq (create_trader_ts db (tr_name trd)) (throw_on_failure db ''cannot create trader ts'')"

subsection \<open>The program\<close>

record sim_config =
  sim_url :: string
  sim_fast :: bool
  sim_iterations :: u64

definition sim_defaults :: sim_config where
  "sim_defaults = \<lparr>sim_url = ''qdb://127.0.0.1:2836'', sim_fast = False, sim_iterations = min_iterations\<rparr>"

text \<open>The checks of \<open>parse_config\<close>, the one of the iterations before the help: an exit status or the options.\<close>

definition check_options :: "bool \<Rightarrow> sim_config \<Rightarrow> exit + sim_config" where
  "check_options help cfg =
     (if sim_iterations cfg mod min_iterations \<noteq> 0 then Inl Exit_Failure
      else if help then Inl Exit_Success else Inr cfg)"

definition make_traders :: "(string \<Rightarrow> 'r) \<Rightarrow> 'r trader list" where
  "make_traders seed = map (\<lambda>(n, b). \<lparr>tr_name = n, tr_behavior = b, tr_random = seed n\<rparr>)
     [(''Bob'', Greedy), (''Alice'', Greedy), (''Carry'', Greedy), (''Cobra'', Cheater)]"

definition initial_market :: "(string \<Rightarrow> 'r) \<Rightarrow> (string \<Rightarrow> 'r) \<Rightarrow> 'r market" where
  "initial_market product_seed broker_seed =
     \<lparr>calls = [], ticks = 0, quoters = make_broker product_seed make_products, houses = make_brokers broker_seed\<rparr>"

definition desk :: "'r platform \<Rightarrow> qdb_env \<Rightarrow> (string \<Rightarrow> 'r) \<Rightarrow> 'r \<Rightarrow> sim_config \<Rightarrow> 'r market \<Rightarrow> ((stop + unit) \<times> 'r market) option" where
  "desk P db trader_seed seed cfg s =
     (case seq (checked_call db ''connection error'' (Connect (sim_url cfg))) (\<lambda>_.
         create_products_ts db (map fst (houses s)) (map fst make_products)) s of
        (Inl e, s) \<Rightarrow> Some (Inl e, s)
      | (Inr _, s) \<Rightarrow>
          if sim_fast cfg then fast_trading P db seed (sim_iterations cfg) s
          else (case for_each (traders_ts_creator db) (make_traders trader_seed) s of
              (Inl e, s) \<Rightarrow> Some (Inl e, s)
            | (Inr _, s) \<Rightarrow> Some (rounds P db make_products 0 (unat (sim_iterations cfg)) seed (make_traders trader_seed) s)))"

text \<open>\<open>main\<close>: how the process ends, and the calls it has made.\<close>

definition simulator_main :: "'r platform \<Rightarrow> qdb_env \<Rightarrow> (string \<Rightarrow> 'r) \<Rightarrow> 'r \<Rightarrow> bool \<Rightarrow> sim_config \<Rightarrow> (exit \<times> qdb_call list) option" where
  "simulator_main P db seeds seed help options =
     (case check_options help options of
        Inl status \<Rightarrow> Some (status, [])
      | Inr cfg \<Rightarrow> map_option (\<lambda>(res, s). (exit_of res, calls s))
          (desk P db seeds seed cfg (initial_market seeds seeds)))"

subsection \<open>The fast generator inserts every point\<close>

lemma generate_points_ok:
  assumes "price_ok (qg_last g)" and "- (2 ^ 63) \<le> ts_sec t" and "ts_sec t + int n < 2 ^ 63"
  shows "\<exists>points g'. generate_points rnd n t g = Some (points, Timespec (ts_sec t + int n) (ts_nsec t), g') \<and>
    map fst points = map (\<lambda>j. Timespec (ts_sec t + int j) (ts_nsec t)) [0..<n] \<and> qg_last g' = qg_last g \<and>
    (\<forall>p\<in>set points. good_quote (snd p) \<and> qv_open (snd p) = qg_last g)"
  using assms
proof (induction n arbitrary: t g)
  case (Suc n)
  obtain v g1 where v: "generate_quote rnd 30 g = Some (v, g1)" "qg_last g1 = qg_last g" "good_quote v"
      "qv_open v = qg_last g"
    using generate_quote_correct [of 30 g rnd] Suc.prems(1) by (auto simp: good_quote_def)
  let ?t = "Timespec (ts_sec t + 1) (ts_nsec t)"
  obtain points g' where p: "generate_points rnd n ?t g1 = Some (points, Timespec (ts_sec ?t + int n) (ts_nsec ?t), g')"
      "map fst points = map (\<lambda>j. Timespec (ts_sec ?t + int j) (ts_nsec ?t)) [0..<n]" "qg_last g' = qg_last g1"
      "\<forall>p\<in>set points. good_quote (snd p) \<and> qv_open (snd p) = qg_last g1"
    using Suc.IH [of g1 ?t] Suc.prems v(2) by auto
  have "i64 (ts_sec t + 1) = Some (ts_sec t + 1)" using Suc.prems by (intro i64_Some) simp_all
  then have "generate_points rnd (Suc n) t g = Some ((t, v) # points, Timespec (ts_sec t + int (Suc n)) (ts_nsec t), g')"
    using v(1) p(1) by (simp add: algebra_simps)
  moreover have "map fst ((t, v) # points) = map (\<lambda>j. Timespec (ts_sec t + int j) (ts_nsec t)) [0..<Suc n]"
    using p(2) by (simp add: upt_conv_Cons map_Suc_upt [symmetric] o_def algebra_simps del: upt_Suc)
  ultimately show ?case using v p(3,4) by auto
qed simp

lemma fst_column [simp]: "map fst (column f points) = map fst points"
  by (induction points) (auto simp: column_def)

text \<open>The five columns of one insertion hold the same points in time.\<close>

definition aligned :: "timespec list \<Rightarrow> quotes_in_cols \<Rightarrow> bool" where
  "aligned ts q \<longleftrightarrow> (\<forall>c\<in>{qc_volumes q, qc_opens q, qc_highs q, qc_lows q, qc_closes q}. map fst c = ts)"

lemma generate_cols_ok:
  assumes "price_ok (qg_last g)" and "- (2 ^ 63) \<le> ts_sec t" and "ts_sec t + int n < 2 ^ 63"
  shows "\<exists>q' g'. generate_cols rnd t n q g = Some (Timespec (ts_sec t + int n) (ts_nsec t), q', g') \<and>
    aligned (map (\<lambda>j. Timespec (ts_sec t + int j) (ts_nsec t)) [0..<n]) q' \<and> qg_last g' = qg_last g \<and>
    qc_origin q' = qc_origin q \<and> qc_symbol q' = qc_symbol q"
  using generate_points_ok [OF assms, of rnd] by (auto simp: generate_cols_def aligned_def)

lemma step_counter:
  assumes "unat num = 1000 * (j + Suc k)" and "unat (i :: u64) = 1000 * j"
  shows "i < num" and "unat (i + min_iterations) = 1000 * Suc j"
proof -
  show "i < num" using assms by (simp add: word_less_nat_alt)
  have "unat num < 2 ^ 64" using unsigned_less [of num] by simp
  then show "unat (i + min_iterations) = 1000 * Suc j"
    using assms by (simp add: min_iterations_def unat_word_ariths)
qed

lemma iterations_mod:
  assumes "num mod min_iterations = 0"
  shows "unat num mod 1000 = 0"
proof -
  have "unat (num mod min_iterations) = unat num mod 1000" by (simp add: unat_mod min_iterations_def)
  then show ?thesis by (simp add: assms)
qed

lemma counter_done: "unat num = 1000 * j \<Longrightarrow> unat (i :: u64) = 1000 * j \<Longrightarrow> \<not> i < num"
  by (simp add: word_less_nat_alt)

lemma fast_loop_returns:
  assumes "unat num = 1000 * (j + k)" and "unat i = 1000 * j"
  shows "\<exists>r. fast_loop rnd db num i t q g s = Some r"
  using assms
proof (induction k arbitrary: j i t q g s)
  case 0
  then have "\<not> i < num" using counter_done [of num j i] by simp
  then show ?case by (subst fast_loop.simps) simp
next
  case (Suc k)
  have i: "i < num" "unat (i + min_iterations) = 1000 * Suc j" using step_counter [of num j k i] Suc.prems by simp_all
  have "unat num = 1000 * (Suc j + k)" using Suc.prems(1) by simp
  note more = Suc.IH [OF this i(2)]
  show ?case
    by (subst fast_loop.simps) (use i(1) more in \<open>auto split: option.splits sum.splits prod.splits\<close>)
qed

lemma fast_loop_good:
  assumes "never_fails db" and "unat num = 1000 * (j + k)" and "unat i = 1000 * j"
    and "price_ok (qg_last g)" and "- (2 ^ 63) \<le> ts_sec t" and "ts_sec t + 1000 * int k < 2 ^ 63"
  shows "\<exists>rows. fast_loop rnd db num i t q g s = Some (Inr (), s\<lparr>calls := calls s @ concat (map cols_calls rows)\<rparr>) \<and>
    length rows = k \<and> (\<forall>r\<in>set rows. qc_origin r = qc_origin q \<and> qc_symbol r = qc_symbol q) \<and>
    (\<forall>n<k. aligned (map (\<lambda>j. Timespec (ts_sec t + 1000 * int n + int j) (ts_nsec t)) [0..<1000]) (rows ! n))"
  using assms(2-)
proof (induction k arbitrary: j i t q g s)
  case 0
  then have "\<not> i < num" using counter_done [of num j i] by simp
  then show ?case by (subst fast_loop.simps) simp
next
  case (Suc k)
  have i: "i < num" "unat (i + min_iterations) = 1000 * Suc j" using step_counter [of num j k i] Suc.prems(1,2) by simp_all
  let ?t = "Timespec (ts_sec t + int 1000) (ts_nsec t)"
  obtain q' g' where c: "generate_cols rnd t 1000 q g = Some (?t, q', g')"
      "aligned (map (\<lambda>j. Timespec (ts_sec t + int j) (ts_nsec t)) [0..<1000]) q'" "qg_last g' = qg_last g"
      "qc_origin q' = qc_origin q" "qc_symbol q' = qc_symbol q"
    using generate_cols_ok [of g t 1000 rnd q] Suc.prems(3-5) by auto
  let ?s = "s\<lparr>calls := calls s @ cols_calls q'\<rparr>"
  have "\<exists>rows. fast_loop rnd db num (i + min_iterations) ?t q' g' ?s =
        Some (Inr (), ?s\<lparr>calls := calls ?s @ concat (map cols_calls rows)\<rparr>) \<and>
      length rows = k \<and> (\<forall>r\<in>set rows. qc_origin r = qc_origin q' \<and> qc_symbol r = qc_symbol q') \<and>
      (\<forall>n<k. aligned (map (\<lambda>j. Timespec (ts_sec ?t + 1000 * int n + int j) (ts_nsec ?t)) [0..<1000]) (rows ! n))"
    using Suc.prems i(2) c(3) by (intro Suc.IH [of "Suc j"]) simp_all
  then obtain rows where r: "fast_loop rnd db num (i + min_iterations) ?t q' g' ?s =
        Some (Inr (), ?s\<lparr>calls := calls ?s @ concat (map cols_calls rows)\<rparr>)"
      "length rows = k" "\<forall>r\<in>set rows. qc_origin r = qc_origin q' \<and> qc_symbol r = qc_symbol q'"
      "\<forall>n<k. aligned (map (\<lambda>j. Timespec (ts_sec ?t + 1000 * int n + int j) (ts_nsec ?t)) [0..<1000]) (rows ! n)"
    by blast
  have "seq (insert_cols db q') (throw_on_failure db ''cannot insert quotes'') s = (Inr (), ?s)"
    using assms(1) by (simp add: insert_cols_def seq_apply calls_until_failure_good throw_on_failure_def never_fails_def)
  moreover have "unat min_iterations = 1000" by (simp add: min_iterations_def)
  ultimately have "fast_loop rnd db num i t q g s =
      Some (Inr (), s\<lparr>calls := calls s @ concat (map cols_calls (q' # rows))\<rparr>)"
    using i(1) c(1) r(1) by (subst fast_loop.simps) simp
  moreover have "aligned (map (\<lambda>j. Timespec (ts_sec t + 1000 * int n + int j) (ts_nsec t)) [0..<1000]) ((q' # rows) ! n)"
    if "n < Suc k" for n
    using that c(2) r(4) by (cases n) (simp_all add: algebra_simps)
  ultimately show ?case using c(4,5) r(2,3) by (intro exI [of _ "q' # rows"]) auto
qed

text \<open>C21: The fast generator always returns when the number of points is a multiple of the step, which the
  options are checked for: the 64-bit counter then reaches the number exactly.\<close>

theorem fast_trading_returns:
  assumes "check_options help cfg = Inr cfg"
  shows "\<exists>r. fast_trading P db seed (sim_iterations cfg) s = Some r"
proof -
  have "sim_iterations cfg mod min_iterations = 0"
    using assms by (auto simp: check_options_def split: if_splits)
  then have "unat (sim_iterations cfg) mod 1000 = 0"
    by (rule iterations_mod)
  then have "unat (sim_iterations cfg) = 1000 * (0 + unat (sim_iterations cfg) div 1000)" by auto
  then show ?thesis
    using fast_loop_returns [of "sim_iterations cfg" 0 "unat (sim_iterations cfg) div 1000" 0]
    by (simp add: fast_trading_def read_clock_def)
qed

theorem fast_trading_returns_witness:
  "\<exists>r. fast_trading least_platform \<lparr>db_answer = (\<lambda>h c. int (length h)), db_failure = (\<lambda>e. e = 7), db_ok = 0\<rparr> () 2000 one_product = Some r"
proof -
  have "check_options False \<lparr>sim_url = [], sim_fast = True, sim_iterations = 2000\<rparr> =
      Inr \<lparr>sim_url = [], sim_fast = True, sim_iterations = 2000\<rparr>"
    by (simp add: check_options_def min_iterations_def)
  from fast_trading_returns [OF this] show ?thesis by simp
qed

text \<open>C20: When no call fails, the fast generator inserts its points in blocks of 1000, five columns at the same
  points in time each, and the blocks go on second by second from the time it started at.\<close>

theorem fast_trading_inserts_all:
  assumes "never_fails db" and "check_options help cfg = Inr cfg" and "timestamp_of P (ticks s) = Timespec sec nsec"
    and "0 \<le> sec" and "sec + int (unat (sim_iterations cfg)) < 2 ^ 63"
  shows "\<exists>rows s'. fast_trading P db seed (sim_iterations cfg) s = Some (Inr (), s') \<and>
    calls s' = calls s @ concat (map cols_calls rows) \<and> length rows = unat (sim_iterations cfg) div 1000 \<and>
    (\<forall>r\<in>set rows. qc_origin r = ''bloom'' \<and> qc_symbol r = ''AAPL'') \<and>
    (\<forall>n<length rows. aligned (map (\<lambda>j. Timespec (sec + 1000 * int n + int j) nsec) [0..<1000]) (rows ! n))"
proof -
  let ?k = "unat (sim_iterations cfg) div 1000"
  have "sim_iterations cfg mod min_iterations = 0"
    using assms(2) by (auto simp: check_options_def split: if_splits)
  then have m: "unat (sim_iterations cfg) mod 1000 = 0"
    by (rule iterations_mod)
  then have "unat (sim_iterations cfg) = 1000 * (0 + ?k)" by auto
  moreover have "sec + 1000 * int ?k < 2 ^ 63" using assms(5) m by (simp add: zdiv_int flip: of_nat_mod)
  moreover let ?g = "\<lparr>qg_random = seed, qg_amplitude = Finite 5, qg_last = Finite 100\<rparr>"
    and ?q = "\<lparr>qc_origin = ''bloom'', qc_symbol = ''AAPL'', qc_volumes = [], qc_opens = [], qc_highs = [],
      qc_lows = [], qc_closes = []\<rparr>"
    and ?s = "s\<lparr>ticks := Suc (ticks s)\<rparr>"
  have "price_ok (qg_last ?g)" by (simp add: price_ok_def)
  ultimately have "\<exists>rows. fast_loop P db (sim_iterations cfg) 0 (Timespec sec nsec) ?q ?g ?s =
        Some (Inr (), ?s\<lparr>calls := calls ?s @ concat (map cols_calls rows)\<rparr>) \<and>
      length rows = ?k \<and> (\<forall>r\<in>set rows. qc_origin r = qc_origin ?q \<and> qc_symbol r = qc_symbol ?q) \<and>
      (\<forall>n<?k. aligned (map (\<lambda>j. Timespec (ts_sec (Timespec sec nsec) + 1000 * int n + int j) (ts_nsec (Timespec sec nsec)))
        [0..<1000]) (rows ! n))"
    using assms(4) by (intro fast_loop_good [OF assms(1), where j = 0]) simp_all
  then obtain rows where r: "fast_loop P db (sim_iterations cfg) 0 (Timespec sec nsec) ?q ?g ?s =
        Some (Inr (), ?s\<lparr>calls := calls ?s @ concat (map cols_calls rows)\<rparr>)"
      "length rows = ?k" "\<forall>r\<in>set rows. qc_origin r = ''bloom'' \<and> qc_symbol r = ''AAPL''"
      "\<forall>n<?k. aligned (map (\<lambda>j. Timespec (sec + 1000 * int n + int j) nsec) [0..<1000]) (rows ! n)"
    by (elim exE conjE) simp
  have "fast_trading P db seed (sim_iterations cfg) s = Some (Inr (), ?s\<lparr>calls := calls ?s @ concat (map cols_calls rows)\<rparr>)"
    using r(1) by (simp add: fast_trading_def read_clock_def assms(3))
  then show ?thesis using r(2-4)
    by (intro exI [of _ rows] exI [of _ "?s\<lparr>calls := calls ?s @ concat (map cols_calls rows)\<rparr>"]) simp
qed

theorem fast_trading_inserts_all_witness:
  "\<exists>rows s'. fast_trading least_platform all_well () 2000 one_product = Some (Inr (), s') \<and>
     calls s' = concat (map cols_calls rows) \<and> length rows = 2"
proof -
  have "check_options False \<lparr>sim_url = [], sim_fast = True, sim_iterations = 2000\<rparr> =
      Inr \<lparr>sim_url = [], sim_fast = True, sim_iterations = 2000\<rparr>"
    by (simp add: check_options_def min_iterations_def)
  from fast_trading_inserts_all [OF all_well_never_fails this, of
      least_platform one_product 0 0 "()"]
  show ?thesis by (auto simp: least_platform_def one_product_def)
qed

subsection \<open>Errors the preparation ignores\<close>

text \<open>The preparation of the time series succeeds although every entry could not be stored, no old time
  series could be removed and no time series could be tagged: the codes of those calls are dropped.\<close>

theorem dropped_error_codes:
  assumes "\<And>h c. db_failure db (db_answer db h c) \<Longrightarrow>
    (\<exists>k. c = Int_Put k 0) \<or> (\<exists>k. c = Remove k) \<or> (\<exists>k. c = Attach_Tag k ''@quotes'')"
  shows "fst (create_products_ts db brks prods s) = Inr ()"
proof -
  have ok: "\<not> db_failure db (db_answer db h (Attach_Tag k tag))" if "tag \<noteq> ''@quotes''" for h k tag
    using assms [of h "Attach_Tag k tag"] that by auto
  have created: "\<not> db_failure db (db_answer db h (Ts_Create k z cols))" for h k z cols
    using assms [of h "Ts_Create k z cols"] by auto
  have entry: "\<exists>s'. tagged_entry db msg tag name s = (Inr (), s')" if "tag \<noteq> ''@quotes''" for msg tag name and s :: "'a client_scheme"
    using that by (simp add: tagged_entry_def seq_checked_ok checked_call_apply ok)
  have product: "\<exists>s'. seq (create_product_ts db brk prd) (throw_on_failure db msg) s = (Inr (), s')"
    for brk prd msg and s :: "'a client_scheme"
    by (simp add: create_product_ts_def create_tagged_ts_def seq_def call_def throw_on_failure_def ok created)
  have "\<exists>s'. seq (tagged_entry db ''cannot tag broker'' ''@brokers'' brk) (\<lambda>_.
       for_each (\<lambda>prd. seq (create_product_ts db brk prd) (throw_on_failure db ''cannot create product ts'')) prods) s =
     (Inr (), s')" for brk and s :: "'a client_scheme"
  proof -
    obtain s1 where "tagged_entry db ''cannot tag broker'' ''@brokers'' brk s = (Inr (), s1)" using entry by fastforce
    then show ?thesis
      using for_each_invariant [of prods "\<lambda>_. True"
        "\<lambda>prd. seq (create_product_ts db brk prd) (throw_on_failure db ''cannot create product ts'')" s1] product
      by (simp add: seq_apply)
  qed
  then have brokers: "\<exists>s'. for_each (\<lambda>brk. seq (tagged_entry db ''cannot tag broker'' ''@brokers'' brk) (\<lambda>_.
       for_each (\<lambda>prd. seq (create_product_ts db brk prd) (throw_on_failure db ''cannot create product ts'')) prods)) brks s =
     (Inr (), s')" for s :: "'a client_scheme"
    using for_each_invariant [of brks "\<lambda>_. True" _ s] by simp
  obtain s1 where "for_each (tagged_entry db ''cannot tag product'' ''@products'') prods s = (Inr (), s1)"
    using for_each_invariant [of prods "\<lambda>_. True" "tagged_entry db ''cannot tag product'' ''@products''" s] entry by auto
  then show ?thesis using brokers [of s1] by (auto simp: create_products_ts_def seq_apply)
qed

definition no_entries :: qdb_env where
  "no_entries = \<lparr>db_answer = (\<lambda>h c. case c of Int_Put _ _ \<Rightarrow> if c = Int_Put ''MMM'' 0 then 1 else 0 | _ \<Rightarrow> 0),
     db_failure = (\<lambda>e. e = 1), db_ok = 0\<rparr>"

theorem dropped_error_codes_witness:
  "fst (create_products_ts no_entries [''tom''] [''MMM''] one_product) = Inr () \<and>
     db_failure no_entries (db_answer no_entries [] (Int_Put ''MMM'' 0))"
proof
  show "fst (create_products_ts no_entries [''tom''] [''MMM''] one_product) = Inr ()"
    by (rule dropped_error_codes) (auto simp: no_entries_def split: qdb_call.splits if_splits)
  show "db_failure no_entries (db_answer no_entries [] (Int_Put ''MMM'' 0))"
    by (simp add: no_entries_def)
qed

subsection \<open>A whole simulation\<close>

lemma create_tagged_ts_good:
  "never_fails db \<Longrightarrow> seq (create_tagged_ts db n cols tag) (throw_on_failure db msg) s =
     (Inr (), s\<lparr>calls := calls s @ [Remove n, Ts_Create n Default_Shard cols, Attach_Tag n tag, Attach_Tag tag ''@tags'']\<rparr>)"
  by (simp add: create_tagged_ts_def seq_def call_def throw_on_failure_def never_fails_answer)

lemma tagged_entry_good:
  "never_fails db \<Longrightarrow> tagged_entry db msg tag n s =
     (Inr (), s\<lparr>calls := calls s @ [Int_Put n 0, Attach_Tag n tag, Attach_Tag tag ''@tags'']\<rparr>)"
  by (simp add: tagged_entry_def seq_checked_good checked_call_good)

lemma create_products_ts_good:
  assumes "never_fails db"
  shows "\<exists>cs. create_products_ts db brks prods s = (Inr (), s\<lparr>calls := calls s @ cs\<rparr>) \<and>
    length cs = 3 * length prods + length brks * (3 + 4 * length prods)"
proof -
  let ?put = "\<lambda>tag n. [Int_Put n 0, Attach_Tag n tag, Attach_Tag tag ''@tags'']"
  let ?cols = "[(''volume'', Column_Double), (''open'', Column_Double), (''high'', Column_Double), (''low'', Column_Double),
        (''close'', Column_Double)]"
  let ?ts = "\<lambda>brk prd. [Remove (ts_name brk prd), Ts_Create (ts_name brk prd) Default_Shard ?cols,
      Attach_Tag (ts_name brk prd) ''@quotes'', Attach_Tag ''@quotes'' ''@tags'']"
  let ?brk = "\<lambda>brk. ?put ''@brokers'' brk @ concat (map (?ts brk) prods)"
  let ?cs = "concat (map (?put ''@products'') prods) @ concat (map ?brk brks)"
  have "for_each (tagged_entry db ''cannot tag product'' ''@products'') prods s =
      (Inr (), s\<lparr>calls := calls s @ concat (map (?put ''@products'') prods)\<rparr>)"
    by (rule for_each_calls) (rule tagged_entry_good [OF assms])
  moreover have "for_each (\<lambda>prd. seq (create_product_ts db brk prd) (throw_on_failure db ''cannot create product ts'')) prods s =
      (Inr (), s\<lparr>calls := calls s @ concat (map (?ts brk) prods)\<rparr>)" for brk and s :: "'a client_scheme"
    by (rule for_each_calls) (simp only: create_product_ts_def create_tagged_ts_good [OF assms])
  then have "for_each (\<lambda>brk. seq (tagged_entry db ''cannot tag broker'' ''@brokers'' brk) (\<lambda>_.
      for_each (\<lambda>prd. seq (create_product_ts db brk prd) (throw_on_failure db ''cannot create product ts'')) prods)) brks s =
      (Inr (), s\<lparr>calls := calls s @ concat (map ?brk brks)\<rparr>)" for s :: "'a client_scheme"
    by (intro for_each_calls) (simp add: seq_apply [OF tagged_entry_good [OF assms]])
  ultimately have "create_products_ts db brks prods s = (Inr (), s\<lparr>calls := calls s @ ?cs\<rparr>)"
    by (simp add: create_products_ts_def seq_apply)
  moreover have "length ?cs = 3 * length prods + length brks * (3 + 4 * length prods)"
    by (simp add: length_concat o_def sum_list_triv algebra_simps)
  ultimately show ?thesis by blast
qed

lemma insert_good:
  assumes "never_fails db"
  shows "seq (insert_trade db t) (throw_on_failure db msg) s = (Inr (), s\<lparr>calls := calls s @ trade_calls t\<rparr>)"
    and "seq (insert_quote db q) (throw_on_failure db msg) s = (Inr (), s\<lparr>calls := calls s @ quote_calls q\<rparr>)"
  using assms
  by (simp_all add: insert_trade_def insert_quote_def seq_apply calls_until_failure_good throw_on_failure_def never_fails_def)

text \<open>A call of \<open>trading\<close> makes 4 calls for the trade and 5 for each broker's quote.\<close>

lemma trading_good:
  assumes "never_fails db" and "fair_random P" and "prods \<noteq> []" and "length prods < 2 ^ 64" and "market_ok prods s"
  shows "\<exists>g' tr' s'. trading P db prods (g, tr) s = (Inr (), (g', tr'), s') \<and> market_ok prods s' \<and>
    length (houses s') = length (houses s) \<and> length (calls s') = length (calls s) + (4 + 5 * length (houses s))"
proof -
  let ?s = "s\<lparr>ticks := Suc (ticks s)\<rparr>"
  obtain v g1 where v: "uniform_int P 100 1000 g = (v, g1)" by fastforce
  have "100 \<le> v \<and> v \<le> 1000" by (rule fair_int [OF assms(2) _ v]) simp
  then have vol: "2 \<le> v" "v < 2 ^ 32" by simp_all
  have "market_ok prods ?s" using assms(5) by (simp add: market_ok_def)
  then obtain t quotes tr' s1 where 1: "trade_once P prods v tr ?s = (Inr (t, quotes), tr', s1)"
      "map q_origin quotes = map (mb_name \<circ> snd) (houses ?s)"
      "map (mb_name \<circ> snd) (houses s1) = map (mb_name \<circ> snd) (houses ?s)" "market_ok prods s1" "calls s1 = calls ?s"
    using trade_once_ok [OF assms(2-4) _ vol, of ?s tr] by blast
  have len: "length quotes = length (houses s)" "length (houses s1) = length (houses s)"
    using arg_cong [OF 1(2), of length] arg_cong [OF 1(3), of length] by simp_all
  let ?s2 = "s1\<lparr>calls := calls s1 @ trade_calls t\<rparr>"
  let ?s3 = "?s2\<lparr>calls := calls ?s2 @ concat (map quote_calls quotes)\<rparr>"
  have "for_each (\<lambda>q. seq (insert_quote db q) (throw_on_failure db ''cannot insert quote'')) quotes ?s2 = (Inr (), ?s3)"
    by (rule for_each_calls) (rule insert_good(2) [OF assms(1)])
  then have "trading P db prods (g, tr) s = (Inr (), (snd (uniform_int P 10 300 g1), tr'), ?s3)"
    using 1(1) by (simp add: trading_def read_clock_def v seq_apply [OF insert_good(1) [OF assms(1)]])
  moreover have "market_ok prods ?s3" using 1(4) by (simp add: market_ok_def)
  moreover have "length (quote_calls q) = 5" for q by (simp add: quote_calls_def Let_def)
  then have "length (calls ?s3) = length (calls s) + (4 + 5 * length (houses s))"
    using 1(5) len(1) by (simp add: trade_calls_def length_concat o_def sum_list_triv)
  ultimately show ?thesis using len(2) by simp
qed

lemma all_traders_good:
  assumes "never_fails db" and "fair_random P" and "prods \<noteq> []" and "length prods < 2 ^ 64" and "market_ok prods s"
  shows "\<exists>g' trs' s'. all_traders P db prods g trs s = (Inr (), (g', trs'), s') \<and> market_ok prods s' \<and>
    length trs' = length trs \<and> length (houses s') = length (houses s) \<and>
    length (calls s') = length (calls s) + length trs * (4 + 5 * length (houses s))"
  using assms(5)
proof (induction trs arbitrary: g s)
  case (Cons tr trs)
  obtain g1 tr' s1 where 1: "trading P db prods (g, tr) s = (Inr (), (g1, tr'), s1)" "market_ok prods s1"
      "length (houses s1) = length (houses s)" "length (calls s1) = length (calls s) + (4 + 5 * length (houses s))"
    using trading_good [OF assms(1-4) Cons.prems] by blast
  then show ?case using Cons.IH [OF 1(2), of g1] by (auto simp: algebra_simps)
qed simp

lemma rounds_good:
  assumes "never_fails db" and "fair_random P" and "prods \<noteq> []" and "length prods < 2 ^ 64" and "market_ok prods s"
    and "i < 2 ^ 31"
  shows "\<exists>s'. rounds P db prods i left g trs s =
      (if i + left < 2 ^ 31 then Inr () else Inl Undefined_Behaviour, s') \<and>
    length (calls s') = length (calls s) + min left (2 ^ 31 - i) * length trs * (4 + 5 * length (houses s))"
  using assms(5,6)
proof (induction left arbitrary: i g trs s)
  case (Suc left)
  obtain g1 trs' s1 where 1: "all_traders P db prods g trs s = (Inr (), (g1, trs'), s1)" "market_ok prods s1"
      "length trs' = length trs" "length (houses s1) = length (houses s)"
      "length (calls s1) = length (calls s) + length trs * (4 + 5 * length (houses s))"
    using all_traders_good [OF assms(1-4) Suc.prems(1)] by blast
  show ?case
  proof (cases "i = 2 ^ 31 - 1")
    case True
    then show ?thesis using 1 by (auto simp: algebra_simps)
  next
    case False
    then have i: "Suc i < 2 ^ 31" using Suc.prems(2) by linarith
    obtain m where m: "2 ^ 31 - i = Suc m" "2 ^ 31 - Suc i = m" using i by (metis Suc_diff_Suc Suc_lessD)
    show ?thesis using Suc.IH [OF 1(2) i, of g1 trs'] False 1 m by (auto simp: algebra_simps)
  qed
qed simp

lemma initial_market_ok: "market_ok make_products (initial_market seed seed')"
  using make_broker_ok [of seed] make_brokers_ok [of seed'] by (simp add: market_ok_def initial_market_def)

text \<open>C18: When no call fails, a simulation at normal speed makes 599 calls to prepare the database and 96 in every
  round, four trades and their sixteen quotes column by column, and succeeds, unless it is asked for more rounds
  than its \<open>int\<close> counter can count: then it runs into undefined behaviour at its largest value.\<close>

theorem simulation_outcome:
  assumes "never_fails db" and "fair_random P" and "sim_iterations cfg mod min_iterations = 0" and "\<not> sim_fast cfg"
  shows "\<exists>cs. simulator_main P db seeds seed False cfg =
      Some (if unat (sim_iterations cfg) < 2 ^ 31 then Exit_Success else Crash, cs) \<and>
    length cs = 599 + min (unat (sim_iterations cfg)) (2 ^ 31) * 96"
proof -
  let ?s = "initial_market seeds seeds" and ?n = "unat (sim_iterations cfg)"
  let ?s1 = "?s\<lparr>calls := calls ?s @ [Connect (sim_url cfg)]\<rparr>"
  have rows: "length make_products = 30" "make_products \<noteq> []"
    using dow_jones_rows by (simp_all add: make_products_rows)
  have brks: "length (houses ?s) = 4"
    using arg_cong [OF conjunct2 [OF conjunct2 [OF make_brokers_ok [of seeds]]], of length] by (simp add: initial_market_def)
  obtain cs where cs: "create_products_ts db (map fst (houses ?s)) (map fst make_products) ?s1 =
      (Inr (), ?s1\<lparr>calls := calls ?s1 @ cs\<rparr>)" "length cs = 582"
    using create_products_ts_good [OF assms(1), of "map fst (houses ?s)" "map fst make_products" ?s1] brks rows(1) by auto
  let ?s2 = "?s1\<lparr>calls := calls ?s1 @ cs\<rparr>"
  define f where "f = (\<lambda>t :: 'a trader. [Remove (tr_name t), Ts_Create (tr_name t) Default_Shard
      [(''product'', Column_Blob), (''counterparty'', Column_Blob), (''volume'', Column_Double), (''value'', Column_Double)],
      Attach_Tag (tr_name t) ''@traders'', Attach_Tag ''@traders'' ''@tags''])"
  let ?s3 = "?s2\<lparr>calls := calls ?s2 @ concat (map f (make_traders seeds))\<rparr>"
  have tr: "for_each (traders_ts_creator db) (make_traders seeds) ?s2 = (Inr (), ?s3)"
    by (rule for_each_calls) (simp only: traders_ts_creator_def create_trader_ts_def create_tagged_ts_good [OF assms(1)] f_def)
  have "market_ok make_products ?s3"
    using initial_market_ok [of seeds seeds] by (simp add: market_ok_def)
  then obtain s' where r: "rounds P db make_products 0 ?n seed (make_traders seeds) ?s3 =
      (if 0 + ?n < 2 ^ 31 then Inr () else Inl Undefined_Behaviour, s')"
      "length (calls s') = length (calls ?s3) + min ?n (2 ^ 31 - 0) * length (make_traders seeds) * (4 + 5 * length (houses ?s3))"
    using rounds_good [OF assms(1,2) rows(2), of ?s3 0 ?n seed "make_traders seeds"] rows(1) by auto
  have len: "length (make_traders seeds) = 4" "length (calls ?s3) = 599" "length (houses ?s3) = 4"
    using cs(2) brks by (simp_all add: make_traders_def f_def initial_market_def)
  have "desk P db seeds seed cfg ?s = Some (rounds P db make_products 0 ?n seed (make_traders seeds) ?s3)"
    using assms(4) cs(1) tr by (simp add: desk_def seq_checked_good [OF assms(1)])
  then have "simulator_main P db seeds seed False cfg = Some (if ?n < 2 ^ 31 then Exit_Success else Crash, calls s')"
    using assms(3) r(1) by (simp add: simulator_main_def check_options_def exit_of_def)
  then show ?thesis using r(2) len by simp
qed

theorem simulation_outcome_witness:
  "\<exists>cs. simulator_main least_platform all_well (\<lambda>_. ()) () False
     \<lparr>sim_url = ''qdb://127.0.0.1:2836'', sim_fast = False, sim_iterations = 1000\<rparr> = Some (Exit_Success, cs) \<and>
     length cs = 96599"
  using simulation_outcome [of all_well least_platform
      "\<lparr>sim_url = ''qdb://127.0.0.1:2836'', sim_fast = False, sim_iterations = 1000\<rparr>" "\<lambda>_. ()" "()"] least_platform_fair all_well_never_fails
  by (simp add: min_iterations_def)

end
