(* ===== verification/Generator.thy ===== *)
theory Generator imports
  Db_Client
  Stringify
begin

section \<open>Generator: the transaction log\<close>

text \<open>
  \<open>src/src/generator/generator.cpp\<close>: a table of transactions, day by day over the weekdays of a year,
  with a block of erroneous transactions in the middle. The random engine and the distributions of the
  C++ library are the argument \<open>gen_random\<close>; a normal distribution has a state of its own. Printed
  text and timers are left out, and the parsing of the command line is reduced to the checks the
  program makes.
\<close>

subsection \<open>Options\<close>

definition min_iterations :: u64 where
  "min_iterations = 8"

record gen_config =
  gc_url :: string
  gc_seed :: u32
  gc_days :: u32
  gc_year :: u16
  gc_errors :: u64
  gc_iterations :: u64

definition config_defaults :: gen_config where
  "config_defaults = \<lparr>gc_url = ''qdb://127.0.0.1:2836'', gc_seed = 0, gc_days = 365, gc_year = 2008, gc_errors = 10,
     gc_iterations = min_iterations\<rparr>"

text \<open>An exit status, or the options with the seed replaced by one of the machine where it is zero.\<close>

definition check_options :: "u32 \<Rightarrow> bool \<Rightarrow> bool \<Rightarrow> gen_config \<Rightarrow> exit + gen_config" where
  "check_options machine_seed help version cfg =
     (let cfg = (if gc_seed cfg = 0 then cfg\<lparr>gc_seed := machine_seed\<rparr> else cfg) in
      if gc_iterations cfg < min_iterations then Inl Exit_Failure
      else if help then Inl Exit_Success
      else if version then Inl Exit_Success
      else Inr cfg)"

subsection \<open>Entries and the table\<close>

definition create_entries :: "qdb_env \<Rightarrow> string \<Rightarrow> string list \<Rightarrow> ('s client_scheme, unit) prog" where
  "create_entries db prefix names =
     for_each (\<lambda>(i, name). checked_call db ''could not create/update entry''
       (Blob_Update (prefix @ ''.'' @ int_digits (int i)) name)) (enumerate 0 names)"

definition agents :: "string list" where
  "agents = [''bob'', ''alice'', ''oscar'']"

definition create_agents :: "qdb_env \<Rightarrow> ('s client_scheme, unit) prog" where
  "create_agents db = create_entries db ''agent'' agents"

definition counterparties :: "string list" where
  "counterparties = [''burger'', ''borscht'', ''sashimi'', ''baguette'', ''kaese'', ''dumpling'']"

definition create_counterparties :: "qdb_env \<Rightarrow> ('s client_scheme, unit) prog" where
  "create_counterparties db = create_entries db ''counterparty'' counterparties"

definition securities :: "string list" where
  "securities = [''mmm'', ''axp'', ''aapl'', ''ba'', ''cat'', ''cvx'', ''csco'', ''ko'', ''dis'', ''xom'', ''ge'', ''gs'',
     ''hd'', ''ibm'', ''intc'', ''jnj'', ''jpm'', ''mcd'', ''mrk'', ''msft'', ''nke'', ''pfe'', ''pg'', ''trv'', ''utx'',
     ''unh'', ''vz'', ''v'', ''wmt'', ''dwdp'']"

definition securities_start_price :: "rat list" where
  "securities_start_price = [200, 100, 170, 400, 120, 120, 50, 50, 110, 70, 10, 190, 180, 130, 50, 130, 100, 170, 77, 100,
     80, 40, 10, 120, 120, 260, 50, 140, 90, 990]"

definition create_securities :: "qdb_env \<Rightarrow> ('s client_scheme, unit) prog" where
  "create_securities db = create_entries db ''security'' securities"

definition table_name :: string where
  "table_name = ''tlog''"

definition create_table :: "qdb_env \<Rightarrow> ('s client_scheme, unit) prog" where
  "create_table db =
     seq (call db (Get_Metadata table_name)) (\<lambda>err.
     seq (if err = db_ok db then checked_call db ''could not remove table'' (Remove table_name) else give ()) (\<lambda>_.
     checked_call db ''cannot create table'' (Ts_Create table_name Day_Shard
       [(''security'', Column_Int64), (''price'', Column_Double), (''volume'', Column_Int64), (''agent'', Column_Int64),
        (''counterparty'', Column_Int64)])))"

definition init_batch_table :: "qdb_env \<Rightarrow> gen_config \<Rightarrow> ('s client_scheme, unit) prog" where
  "init_batch_table db cfg = checked_call db ''cannot create batch''
     (Batch_Table_Init (map (\<lambda>c. (table_name, c, gc_iterations cfg))
       [''security'', ''price'', ''volume'', ''agent'', ''counterparty'']))"

subsection \<open>The random state\<close>

record ('r, 'n) gen_random =
  seed_engine :: "u32 \<Rightarrow> 'r"
  uniform :: "int \<Rightarrow> int \<Rightarrow> 'r \<Rightarrow> int \<times> 'r"
  fresh_normal :: 'n
  normal_draw :: "double \<Rightarrow> double \<Rightarrow> 'n \<Rightarrow> 'r \<Rightarrow> double \<times> 'n \<times> 'r"

text \<open>The two arguments of the distribution are its mean and its standard deviation.\<close>

record 'n security_generator =
  sg_last :: double
  sg_mean :: double
  sg_stddev :: double
  sg_increment :: 'n

definition make_security_generator :: "'n \<Rightarrow> double \<Rightarrow> 'n security_generator" where
  "make_security_generator n l = \<lparr>sg_last = l, sg_mean = dbl_neg (dbl_div l (Finite 10000)),
     sg_stddev = dbl_div l (Finite 10000), sg_increment = n\<rparr>"

definition next_price :: "('r, 'n) gen_random \<Rightarrow> 'n security_generator \<Rightarrow> 'r \<Rightarrow> double \<times> 'n security_generator \<times> 'r" where
  "next_price R sg r =
     (case normal_draw R (sg_mean sg) (sg_stddev sg) (sg_increment sg) r of (increment, n, r) \<Rightarrow>
        let l = dbl_max (sg_last sg) (dbl_add (sg_last sg) increment)
        in (l, sg\<lparr>sg_last := l, sg_increment := n\<rparr>, r))"

definition min_volume :: int where
  "min_volume = 100"

definition max_volume :: int where
  "max_volume = 10000"

record ('r, 'n) generator_state = client +
  gs_generator :: 'r
  gs_volume :: "int \<times> int"
  gs_securities :: "'n security_generator list"

text \<open>A draw from a uniform distribution by the state's engine.\<close>

definition draw :: "('r, 'n) gen_random \<Rightarrow> int \<Rightarrow> int \<Rightarrow> (('r, 'n) generator_state, int) prog" where
  "draw R lo hi s = (case uniform R lo hi (gs_generator s) of (v, r) \<Rightarrow> (Inr v, s\<lparr>gs_generator := r\<rparr>))"

definition set_volume :: "int \<times> int \<Rightarrow> (('r, 'n) generator_state, unit) prog" where
  "set_volume limits s = (Inr (), s\<lparr>gs_volume := limits\<rparr>)"

definition randomize_max_volume :: "('r, 'n) gen_random \<Rightarrow> (('r, 'n) generator_state, unit) prog" where
  "randomize_max_volume R = seq (draw R (max_volume - 1000) (max_volume + 1000)) (\<lambda>m. set_volume (min_volume, m))"

text \<open>The constructor.\<close>

definition make_generator_state :: "('r, 'n) gen_random \<Rightarrow> u32 \<Rightarrow> (('r, 'n) generator_state, unit) prog" where
  "make_generator_state R seed s = randomize_max_volume R (s\<lparr>gs_generator := seed_engine R seed,
     gs_volume := (1, max_volume div min_volume),
     gs_securities := map (\<lambda>p. make_security_generator (fresh_normal R) (to_double p)) securities_start_price\<rparr>)"

definition security :: "('r, 'n) gen_random \<Rightarrow> (('r, 'n) generator_state, int \<times> double) prog" where
  "security R = seq (draw R 0 (int (length securities) - 1)) (\<lambda>i s.
     if nat i < length (gs_securities s)
     then case next_price R (gs_securities s ! nat i) (gs_generator s) of (v, sg, r) \<Rightarrow>
       (Inr (i, v), s\<lparr>gs_generator := r, gs_securities := (gs_securities s)[nat i := sg]\<rparr>)
     else (Inl Undefined_Behaviour, s))"

definition volume :: "('r, 'n) gen_random \<Rightarrow> (('r, 'n) generator_state, int) prog" where
  "volume R s = seq (draw R (fst (gs_volume s)) (snd (gs_volume s))) (\<lambda>v. give (min_volume * v)) s"

text \<open>The product is unsigned, and the client takes it as a signed number.\<close>

definition error_volume :: "('r, 'n) gen_random \<Rightarrow> (('r, 'n) generator_state, int) prog" where
  "error_volume R = seq (volume R) (\<lambda>v. give (sint (of_int v * 100000 :: u64)))"

definition agent :: "('r, 'n) gen_random \<Rightarrow> (('r, 'n) generator_state, int) prog" where
  "agent R = draw R 0 (int (length agents) - 1)"

definition error_agent :: "('s, int) prog" where
  "error_agent = give (int (length agents) - 1)"

definition counterparty :: "('r, 'n) gen_random \<Rightarrow> (('r, 'n) generator_state, int) prog" where
  "counterparty R = draw R 0 (int (length counterparties) - 1)"

definition iterations_count :: "('r, 'n) gen_random \<Rightarrow> nat \<Rightarrow> (('r, 'n) generator_state, nat) prog" where
  "iterations_count R max_iterations =
     (if max_iterations < 20 then give max_iterations
      else seq (draw R (int (max_iterations - max_iterations div 10)) (int max_iterations)) (\<lambda>n. give (nat n)))"

subsection \<open>Transactions\<close>

text \<open>The bodies of the two transactions, which differ in where the volume and the agent come from.\<close>

definition transaction :: "qdb_env \<Rightarrow> ('r, 'n) gen_random \<Rightarrow> (('r, 'n) generator_state, int) prog \<Rightarrow>
    (('r, 'n) generator_state, int) prog \<Rightarrow> timespec \<Rightarrow> (('r, 'n) generator_state, unit) prog" where
  "transaction db R volume_of agent_of ts =
     seq (checked_call db ''cannot start new row'' (Batch_Start_Row ts)) (\<lambda>_.
     seq (security R) (\<lambda>(s, v).
     seq (checked_call db ''cannot set security'' (Batch_Row_Set_Int64 0 s)) (\<lambda>_.
     seq (checked_call db ''cannot set security value'' (Batch_Row_Set_Double 1 v)) (\<lambda>_.
     seq volume_of (\<lambda>vol.
     seq (checked_call db ''cannot set volume'' (Batch_Row_Set_Int64 2 vol)) (\<lambda>_.
     seq agent_of (\<lambda>a.
     seq (checked_call db ''cannot set agent'' (Batch_Row_Set_Int64 3 a)) (\<lambda>_.
     seq (counterparty R) (\<lambda>c.
     checked_call db ''cannot set counterparty'' (Batch_Row_Set_Int64 4 c))))))))))"

definition generate_transaction :: "qdb_env \<Rightarrow> ('r, 'n) gen_random \<Rightarrow> timespec \<Rightarrow> (('r, 'n) generator_state, unit) prog" where
  "generate_transaction db R ts = transaction db R (volume R) (agent R) ts"

definition generate_error_transaction :: "qdb_env \<Rightarrow> ('r, 'n) gen_random \<Rightarrow> timespec \<Rightarrow> (('r, 'n) generator_state, unit) prog" where
  "generate_error_transaction db R ts = transaction db R (error_volume R) error_agent ts"

definition push_to_db :: "qdb_env \<Rightarrow> ('s client_scheme, unit) prog" where
  "push_to_db db = checked_call db ''cannot push batch'' Batch_Push"

definition should_generate_error :: "gen_config \<Rightarrow> u32 \<Rightarrow> u64 \<Rightarrow> bool" where
  "should_generate_error cfg day i =
     (if day \<noteq> gc_days cfg div 2 then False
      else if gc_iterations cfg < gc_errors cfg then True
      else if gc_iterations cfg div 2 < gc_errors cfg then i < gc_errors cfg
      else let start_error = gc_iterations cfg div 2 - gc_errors cfg;
               end_error = start_error + gc_errors cfg
           in start_error \<le> i \<and> i < end_error)"

subsection \<open>Days\<close>

text \<open>The date library makes a year, a month and a day of a day number only within its years.\<close>

definition year_ok :: "int \<Rightarrow> bool" where
  "year_ok n \<longleftrightarrow> 1400 \<le> ymd_year (from_day_number n) \<and> ymd_year (from_day_number n) \<le> 9999"

definition bad_year :: stop where
  "bad_year = Thrown ''Year is out of valid range: 1400..9999''"

definition skip_weekend :: "int \<Rightarrow> ('s, int) prog" where
  "skip_weekend it_day =
     (if \<not> year_ok it_day then halt bad_year
      else if day_of_week (from_day_number it_day) = 0 then give (it_day + 1)
      else if day_of_week (from_day_number it_day) = 6 then give (it_day + 1 + 1)
      else give it_day)"

definition one_hour :: int where
  "one_hour = 3600 * ns_per_s"

text \<open>The transactions of a day from number \<open>i\<close> on, \<open>increment\<close> nanoseconds apart.\<close>

fun day_rows :: "qdb_env \<Rightarrow> ('r, 'n) gen_random \<Rightarrow> gen_config \<Rightarrow> u32 \<Rightarrow> int \<Rightarrow> nat \<Rightarrow> nat \<Rightarrow> timespec \<Rightarrow>
    (('r, 'n) generator_state, unit) prog" where
  "day_rows db R cfg days increment i 0 ts = give ()"
| "day_rows db R cfg days increment i (Suc left) ts =
     seq (if should_generate_error cfg days (of_nat i) then generate_error_transaction db R ts
          else generate_transaction db R ts) (\<lambda>_.
       case timespec_add ts increment of
         None \<Rightarrow> halt Undefined_Behaviour
       | Some ts \<Rightarrow> day_rows db R cfg days increment (Suc i) left ts)"

text \<open>One round of the loop over the days, up to its increment; the day is printed, which needs its year.\<close>

definition one_day :: "qdb_env \<Rightarrow> ('r, 'n) gen_random \<Rightarrow> gen_config \<Rightarrow> u32 \<Rightarrow> int \<Rightarrow> (('r, 'n) generator_state, int) prog" where
  "one_day db R cfg days it_day =
     seq (skip_weekend it_day) (\<lambda>it_day.
     seq (if year_ok it_day then give () else halt bad_year) (\<lambda>_.
       case timespec_add (Timespec (extract_seconds it_day) 0) (9 * one_hour) of
         None \<Rightarrow> halt Undefined_Behaviour
       | Some ts \<Rightarrow>
           let increment = 8 * one_hour div int (unat (gc_iterations cfg)) in
           seq (randomize_max_volume R) (\<lambda>_.
           seq (iterations_count R (unat (gc_iterations cfg))) (\<lambda>this_day_iterations.
           seq (day_rows db R cfg days increment 0 this_day_iterations ts) (\<lambda>_.
           seq (push_to_db db) (\<lambda>_. give it_day))))))"

fun days_loop :: "qdb_env \<Rightarrow> ('r, 'n) gen_random \<Rightarrow> gen_config \<Rightarrow> nat \<Rightarrow> nat \<Rightarrow> int \<Rightarrow> (('r, 'n) generator_state, unit) prog" where
  "days_loop db R cfg days 0 it_day = give ()"
| "days_loop db R cfg days (Suc left) it_day =
     seq (one_day db R cfg (of_nat days) it_day) (\<lambda>it_day. days_loop db R cfg (Suc days) left (it_day + 1))"

definition generate_transaction_log :: "qdb_env \<Rightarrow> ('r, 'n) gen_random \<Rightarrow> gen_config \<Rightarrow> (('r, 'n) generator_state, unit) prog" where
  "generate_transaction_log db R cfg =
     seq (init_batch_table db cfg) (\<lambda>_.
     seq (make_generator_state R (gc_seed cfg)) (\<lambda>_.
     seq (if 1400 \<le> uint (gc_year cfg) \<and> uint (gc_year cfg) \<le> 9999 then give () else halt bad_year) (\<lambda>_.
     seq (days_loop db R cfg 0 (unat (gc_days cfg)) (day_number (YMD (uint (gc_year cfg)) 1 1))) (\<lambda>_.
     seq (call db Release_Batch) (\<lambda>_. give ())))))"

definition generator_main :: "qdb_env \<Rightarrow> ('r, 'n) gen_random \<Rightarrow> u32 \<Rightarrow> bool \<Rightarrow> bool \<Rightarrow> gen_config \<Rightarrow> exit \<times> qdb_call list" where
  "generator_main db R machine_seed help version options =
     (case check_options machine_seed help version options of
        Inl status \<Rightarrow> (status, [])
      | Inr cfg \<Rightarrow>
          (case seq (checked_call db ''connection error'' (Connect (gc_url cfg))) (\<lambda>_.
               seq (create_agents db) (\<lambda>_. seq (create_counterparties db) (\<lambda>_. seq (create_securities db) (\<lambda>_.
               seq (create_table db) (\<lambda>_. generate_transaction_log db R cfg)))))
               \<lparr>calls = [], gs_generator = seed_engine R 0, gs_volume = (0, 0), gs_securities = []\<rparr> of
             (res, s) \<Rightarrow> (exit_of res, calls s)))"

end
