(* ===== verification/Generator_Properties.thy ===== *)
theory Generator_Properties imports
  Generator
begin

section \<open>Generator: what the log holds\<close>

text \<open>
  The generated log, row by row: which days and times it covers, how many rows are erroneous, what the
  volumes are, that prices never fall, and that a failing call leaves the batch unreleased.
\<close>

subsection \<open>Draws\<close>

text \<open>What the uniform distribution promises.\<close>

definition fair_gen :: "('r, 'n) gen_random \<Rightarrow> bool" where
  "fair_gen R \<longleftrightarrow> (\<forall>lo hi r. lo \<le> hi \<longrightarrow> lo \<le> fst (uniform R lo hi r) \<and> fst (uniform R lo hi r) \<le> hi)"

lemma draw_ok:
  assumes "fair_gen R" and "lo \<le> hi"
  shows "\<exists>v r. draw R lo hi s = (Inr v, s\<lparr>gs_generator := r\<rparr>) \<and> lo \<le> v \<and> v \<le> hi"
proof -
  obtain v r where d: "uniform R lo hi (gs_generator s) = (v, r)" by fastforce
  then have "lo \<le> v \<and> v \<le> hi" using assms unfolding fair_gen_def by (metis fst_conv)
  moreover have "draw R lo hi s = (Inr v, s\<lparr>gs_generator := r\<rparr>)" using d by (simp add: draw_def)
  ultimately show ?thesis by blast
qed

definition least_gen :: "(unit, unit) gen_random" where
  "least_gen = \<lparr>seed_engine = (\<lambda>_. ()), uniform = (\<lambda>lo hi r. (lo, r)), fresh_normal = (),
     normal_draw = (\<lambda>mean stddev n r. (mean, n, r))\<rparr>"

lemma least_gen_fair: "fair_gen least_gen"
  by (simp add: fair_gen_def least_gen_def)

text \<open>A state after the volumes have been randomized once.\<close>

definition state_ok :: "('r, 'n) generator_state \<Rightarrow> bool" where
  "state_ok s \<longleftrightarrow> length (gs_securities s) = 30 \<and> fst (gs_volume s) = 100 \<and>
     9000 \<le> snd (gs_volume s) \<and> snd (gs_volume s) \<le> 11000"

lemma randomize_ok:
  assumes "fair_gen R" and "length (gs_securities s) = 30"
  shows "\<exists>s'. randomize_max_volume R s = (Inr (), s') \<and> state_ok s' \<and> calls s' = calls s"
proof -
  obtain m r where "draw R 9000 11000 s = (Inr m, s\<lparr>gs_generator := r\<rparr>)" "9000 \<le> m" "m \<le> 11000"
    using draw_ok [OF assms(1), of 9000 11000 s] by auto
  then show ?thesis
    using assms(2) by (simp add: randomize_max_volume_def max_volume_def min_volume_def seq_apply set_volume_def state_ok_def)
qed

lemma volume_drawn:
  assumes "fair_gen R" and "fst (gs_volume s) \<le> snd (gs_volume s)"
  shows "\<exists>v r. volume R s = (Inr (100 * v), s\<lparr>gs_generator := r\<rparr>) \<and> fst (gs_volume s) \<le> v \<and> v \<le> snd (gs_volume s)"
  using draw_ok [OF assms, of s] by (auto simp: volume_def seq_apply min_volume_def)

lemma volume_ok:
  assumes "fair_gen R" and "state_ok s"
  shows "\<exists>v r. volume R s = (Inr v, s\<lparr>gs_generator := r\<rparr>) \<and> 10000 \<le> v \<and> v \<le> 1100000 \<and> v mod 100 = 0"
proof -
  have b: "fst (gs_volume s) = 100" "9000 \<le> snd (gs_volume s)" "snd (gs_volume s) \<le> 11000"
    using assms(2) by (simp_all add: state_ok_def)
  then have "fst (gs_volume s) \<le> snd (gs_volume s)" by linarith
  then obtain v r where "volume R s = (Inr (100 * v), s\<lparr>gs_generator := r\<rparr>)" "fst (gs_volume s) \<le> v" "v \<le> snd (gs_volume s)"
    using volume_drawn [OF assms(1)] by blast
  then show ?thesis using b by auto
qed

lemma error_volume_ok:
  assumes "fair_gen R" and "state_ok s"
  shows "\<exists>v r. error_volume R s = (Inr v, s\<lparr>gs_generator := r\<rparr>) \<and> 1000000000 \<le> v \<and> v \<le> 110000000000"
proof -
  obtain v r where v: "volume R s = (Inr v, s\<lparr>gs_generator := r\<rparr>)" "10000 \<le> v" "v \<le> 1100000"
    using volume_ok [OF assms] by blast
  have "sint (of_int v * 100000 :: u64) = sint (of_int (v * 100000) :: u64)" by simp
  also have "\<dots> = v * 100000"
    using v(2,3) by (simp only: signed_of_int) (simp add: signed_take_bit_int_eq_self)
  finally have "error_volume R s = (Inr (v * 100000), s\<lparr>gs_generator := r\<rparr>)"
    using v(1) by (simp add: error_volume_def seq_apply)
  moreover have "1000000000 \<le> v * 100000 \<and> v * 100000 \<le> 110000000000" using v(2,3) by simp
  ultimately show ?thesis by blast
qed

lemma security_ok:
  assumes "fair_gen R" and "length (gs_securities s) = 30"
  shows "\<exists>i v sg r. security R s = (Inr (i, v), s\<lparr>gs_generator := r, gs_securities := (gs_securities s)[nat i := sg]\<rparr>) \<and>
    0 \<le> i \<and> i < 30 \<and> sg_last sg = v \<and>
    (v = sg_last (gs_securities s ! nat i) \<or> dbl_less (sg_last (gs_securities s ! nat i)) v)"
proof -
  have len: "int (length securities) - 1 = 29" by (simp add: securities_def)
  obtain i r where i: "draw R 0 29 s = (Inr i, s\<lparr>gs_generator := r\<rparr>)" "0 \<le> i" "i \<le> 29"
    using draw_ok [OF assms(1), of 0 29 s] by auto
  obtain inc n r' where n: "normal_draw R (sg_mean (gs_securities s ! nat i)) (sg_stddev (gs_securities s ! nat i))
      (sg_increment (gs_securities s ! nat i)) r = (inc, n, r')"
    by (metis prod.exhaust)
  have "nat i < length (gs_securities s)" using i(2,3) assms(2) by simp
  then show ?thesis
    using i(2,3) n unfolding security_def len seq_def i(1) prod.case sum.case
    by (auto simp: next_price_def Let_def dbl_max_def)
qed

text \<open>A security's price never falls, whatever the normal distribution draws: the new price is the old one or
  a greater one, and the other securities keep theirs.\<close>

theorem prices_never_fall:
  assumes "fair_gen R" and "length (gs_securities s) = 30"
  shows "\<exists>i v s'. security R s = (Inr (i, v), s') \<and> 0 \<le> i \<and> i < 30 \<and>
    (v = sg_last (gs_securities s ! nat i) \<or> dbl_less (sg_last (gs_securities s ! nat i)) v) \<and>
    sg_last (gs_securities s' ! nat i) = v \<and> (\<forall>j. j \<noteq> nat i \<longrightarrow> gs_securities s' ! j = gs_securities s ! j)"
proof -
  obtain i v sg r where "security R s = (Inr (i, v), s\<lparr>gs_generator := r, gs_securities := (gs_securities s)[nat i := sg]\<rparr>)"
      "0 \<le> i" "i < 30" "sg_last sg = v"
      "v = sg_last (gs_securities s ! nat i) \<or> dbl_less (sg_last (gs_securities s ! nat i)) v"
    using security_ok [OF assms] by blast
  then show ?thesis using assms(2) by (auto simp: nth_list_update_eq nth_list_update_neq)
qed

definition first_state :: "(unit, unit) generator_state" where
  "first_state = snd (make_generator_state least_gen 7 \<lparr>calls = [], gs_generator = (), gs_volume = (0, 0), gs_securities = []\<rparr>)"

lemma first_state_securities: "length (gs_securities first_state) = 30"
  by (simp add: first_state_def make_generator_state_def randomize_max_volume_def seq_def draw_def set_volume_def least_gen_def
      securities_start_price_def)

theorem prices_never_fall_witness:
  "\<exists>i v s'. security least_gen first_state = (Inr (i, v), s') \<and> sg_last (gs_securities s' ! nat i) = v"
  using prices_never_fall [OF least_gen_fair first_state_securities] by blast

text \<open>C22: The volumes of the constructor's distribution lie between 100 and 10000, but once \<open>randomize_max_volume\<close> has
  been called, as it is by the constructor itself and on every day, no volume is below the declared maximum:
  they lie between 10000 and 1100000, because the new bounds are volumes and are scaled once more.\<close>

theorem volumes_exceed_maximum:
  assumes "fair_gen R" and "length (gs_securities s) = 30"
  shows "(\<exists>v s'. seq (randomize_max_volume R) (\<lambda>_. volume R) s = (Inr v, s') \<and> max_volume \<le> v \<and> v \<le> 110 * max_volume \<and>
      v mod 100 = 0) \<and>
    (\<exists>v s'. volume R (s\<lparr>gs_volume := (1, max_volume div min_volume)\<rparr>) = (Inr v, s') \<and> min_volume \<le> v \<and> v \<le> max_volume)"
proof
  obtain s1 where s1: "randomize_max_volume R s = (Inr (), s1)" "state_ok s1" using randomize_ok [OF assms] by blast
  then show "\<exists>v s'. seq (randomize_max_volume R) (\<lambda>_. volume R) s = (Inr v, s') \<and> max_volume \<le> v \<and> v \<le> 110 * max_volume \<and>
      v mod 100 = 0"
    using volume_ok [OF assms(1) s1(2)] by (auto simp: seq_apply max_volume_def)
  show "\<exists>v s'. volume R (s\<lparr>gs_volume := (1, max_volume div min_volume)\<rparr>) = (Inr v, s') \<and> min_volume \<le> v \<and> v \<le> max_volume"
    using volume_drawn [OF assms(1), of "s\<lparr>gs_volume := (1, max_volume div min_volume)\<rparr>"]
    by (auto simp: min_volume_def max_volume_def)
qed

theorem volumes_exceed_maximum_witness:
  "\<exists>v s'. seq (randomize_max_volume least_gen) (\<lambda>_. volume least_gen) first_state = (Inr v, s') \<and> 10000 \<le> v"
  using volumes_exceed_maximum [OF least_gen_fair first_state_securities] by (auto simp: max_volume_def)

subsection \<open>Erroneous transactions\<close>

lemma iterations_count_ok:
  assumes "fair_gen R"
  shows "\<exists>n r. iterations_count R m s = (Inr n, s\<lparr>gs_generator := r\<rparr>) \<and> m - m div 10 \<le> n \<and> n \<le> m"
proof (cases "m < 20")
  case True
  then have "iterations_count R m s = (Inr m, s\<lparr>gs_generator := gs_generator s\<rparr>)" by (simp add: iterations_count_def)
  then show ?thesis by (intro exI [of _ m] exI [of _ "gs_generator s"]) simp
next
  case False
  have "int (m - m div 10) \<le> int m" by simp
  then obtain v r where v: "draw R (int (m - m div 10)) (int m) s = (Inr v, s\<lparr>gs_generator := r\<rparr>)"
      "int (m - m div 10) \<le> v" "v \<le> int m"
    using draw_ok [OF assms] by blast
  then have "iterations_count R m s = (Inr (nat v), s\<lparr>gs_generator := r\<rparr>)"
    using False by (simp add: iterations_count_def seq_apply)
  then show ?thesis using v(2,3) by (intro exI [of _ "nat v"] exI [of _ r]) linarith
qed

lemma unat_u64: "unat (w :: u64) < 2 ^ 64"
  by (rule order_less_le_trans [OF unsigned_less]) simp

lemma length_filter_range: "length (filter (\<lambda>i. a \<le> i \<and> i < b) [0..<n]) = min b n - min a n"
  by (induction n) auto

text \<open>C23: On the middle day exactly the asked number of transactions is erroneous when it is at most half of the
  iterations, however many of them the day is given; all of the day's are when more errors than iterations are
  asked for; and no other day has any.\<close>

theorem errors_of_a_day:
  assumes "fair_gen R"
  shows "\<exists>n s'. iterations_count R (unat (gc_iterations cfg)) s = (Inr n, s') \<and>
    length (filter (\<lambda>i. should_generate_error cfg day (of_nat i)) [0..<n]) =
      (if day \<noteq> gc_days cfg div 2 then 0
       else if gc_iterations cfg < gc_errors cfg then n
       else if gc_iterations cfg div 2 < gc_errors cfg then min (unat (gc_errors cfg)) n
       else unat (gc_errors cfg))"
proof -
  let ?N = "unat (gc_iterations cfg)" and ?E = "unat (gc_errors cfg)"
  obtain n s' where n: "iterations_count R ?N s = (Inr n, s')" "?N - ?N div 10 \<le> n" "n \<le> ?N"
    using iterations_count_ok [OF assms] by blast
  have half: "unat (gc_iterations cfg div 2) = ?N div 2" by (simp add: unat_div)
  have less: "(of_nat i :: u64) < w \<longleftrightarrow> i < unat w" "w \<le> of_nat i \<longleftrightarrow> unat w \<le> i" if "i < n" for i w
  proof -
    have "i < 2 ^ 64" using that n(3) unat_u64 [of "gc_iterations cfg"] by linarith
    then show "(of_nat i :: u64) < w \<longleftrightarrow> i < unat w" "w \<le> of_nat i \<longleftrightarrow> unat w \<le> i"
      by (simp_all add: word_less_nat_alt word_le_nat_alt unat_of_nat_small)
  qed
  have "length (filter (\<lambda>i. should_generate_error cfg day (of_nat i)) [0..<n]) =
      (if day \<noteq> gc_days cfg div 2 then 0
       else if gc_iterations cfg < gc_errors cfg then n
       else if gc_iterations cfg div 2 < gc_errors cfg then min ?E n
       else ?E)"
  proof -
    consider "day \<noteq> gc_days cfg div 2" | "day = gc_days cfg div 2" "gc_iterations cfg < gc_errors cfg"
      | "day = gc_days cfg div 2" "\<not> gc_iterations cfg < gc_errors cfg" "gc_iterations cfg div 2 < gc_errors cfg"
      | "day = gc_days cfg div 2" "\<not> gc_iterations cfg < gc_errors cfg" "\<not> gc_iterations cfg div 2 < gc_errors cfg"
      by blast
    then show ?thesis
    proof cases
      case 3
      then have "filter (\<lambda>i. should_generate_error cfg day (of_nat i)) [0..<n] = filter (\<lambda>i. 0 \<le> i \<and> i < ?E) [0..<n]"
        by (intro filter_cong) (simp_all add: should_generate_error_def less)
      then show ?thesis using 3 by (simp only: length_filter_range) simp
    next
      case 4
      then have E: "?E \<le> ?N div 2" by (simp add: word_less_nat_alt half)
      have start: "unat (gc_iterations cfg div 2 - gc_errors cfg) = ?N div 2 - ?E"
        using E by (simp add: unat_sub_le half)
      then have limit: "unat (gc_iterations cfg div 2 - gc_errors cfg + gc_errors cfg) = ?N div 2" by (simp add: half)
      have "filter (\<lambda>i. should_generate_error cfg day (of_nat i)) [0..<n] =
          filter (\<lambda>i. ?N div 2 - ?E \<le> i \<and> i < ?N div 2) [0..<n]"
        using 4 by (intro filter_cong) (simp_all add: should_generate_error_def Let_def less start limit [simplified] half)
      moreover have "?N div 2 \<le> n" using n(2) by linarith
      ultimately show ?thesis using 4 E by (simp add: length_filter_range)
    qed (simp_all add: should_generate_error_def)
  qed
  then show ?thesis using n(1) by blast
qed

theorem errors_of_a_day_witness:
  "\<exists>n s'. iterations_count least_gen 1000 first_state = (Inr n, s') \<and>
     length (filter (\<lambda>i. should_generate_error (config_defaults\<lparr>gc_iterations := 1000\<rparr>) 182 (of_nat i)) [0..<n]) = 10"
  using errors_of_a_day [OF least_gen_fair, of "config_defaults\<lparr>gc_iterations := 1000\<rparr>" first_state 182]
  by (simp add: config_defaults_def)


subsection \<open>Rows\<close>

type_synonym row = "timespec \<times> int \<times> double \<times> int \<times> int \<times> int"

definition row_calls :: "row \<Rightarrow> qdb_call list" where
  "row_calls row = (case row of (ts, s, v, vol, a, c) \<Rightarrow>
     [Batch_Start_Row ts, Batch_Row_Set_Int64 0 s, Batch_Row_Set_Double 1 v, Batch_Row_Set_Int64 2 vol,
      Batch_Row_Set_Int64 3 a, Batch_Row_Set_Int64 4 c])"

text \<open>A row's indices are those of entries; an erroneous one is of the last agent and has a volume from a billion on.\<close>

definition row_ok :: "bool \<Rightarrow> row \<Rightarrow> bool" where
  "row_ok error row = (case row of (ts, s, v, vol, a, c) \<Rightarrow>
     0 \<le> s \<and> s < int (length securities) \<and> 0 \<le> c \<and> c < int (length counterparties) \<and>
     0 \<le> a \<and> a < int (length agents) \<and>
     (if error then 1000000000 \<le> vol \<and> a = int (length agents) - 1 else 10000 \<le> vol \<and> vol \<le> 1100000))"

lemma transaction_good:
  assumes "never_fails db" and "fair_gen R" and "state_ok s"
    and "\<And>s. state_ok s \<Longrightarrow> \<exists>v r. volume_of s = (Inr v, s\<lparr>gs_generator := r\<rparr>) \<and> P v"
    and "\<And>s. state_ok s \<Longrightarrow> \<exists>a r. agent_of s = (Inr a, s\<lparr>gs_generator := r\<rparr>) \<and> Q a"
  shows "\<exists>sec v vol a c s'. transaction db R volume_of agent_of ts s = (Inr (), s') \<and> state_ok s' \<and>
    calls s' = calls s @ row_calls (ts, sec, v, vol, a, c) \<and> 0 \<le> sec \<and> sec < 30 \<and> 0 \<le> c \<and> c < 6 \<and> P vol \<and> Q a"
proof -
  have frame: "state_ok (s\<lparr>calls := cs\<rparr>)" "state_ok (s\<lparr>gs_generator := r\<rparr>)"
    "length sgs = 30 \<Longrightarrow> state_ok (s\<lparr>gs_generator := r, gs_securities := sgs\<rparr>)"
    if "state_ok s" for s :: "('a, 'b) generator_state" and cs r sgs
    using that by (simp_all add: state_ok_def)
  define s1 where "s1 = s\<lparr>calls := calls s @ [Batch_Start_Row ts]\<rparr>"
  have ok1: "state_ok s1" using frame(1) assms(3) by (simp add: s1_def)
  then have len: "length (gs_securities s1) = 30" by (simp add: state_ok_def)
  obtain i v sg r where sec: "security R s1 = (Inr (i, v), s1\<lparr>gs_generator := r, gs_securities := (gs_securities s1)[nat i := sg]\<rparr>)"
      "0 \<le> i" "i < 30"
    using security_ok [OF assms(2) len] by blast
  define s2 where "s2 = s1\<lparr>gs_generator := r, gs_securities := (gs_securities s1)[nat i := sg]\<rparr>"
  define s3 where "s3 = s2\<lparr>calls := calls s2 @ [Batch_Row_Set_Int64 0 i, Batch_Row_Set_Double 1 v]\<rparr>"
  have ok3: "state_ok s3" unfolding s3_def s2_def using ok1 len by (intro frame) simp_all
  obtain vol r3 where vol: "volume_of s3 = (Inr vol, s3\<lparr>gs_generator := r3\<rparr>)" "P vol" using assms(4) [OF ok3] by blast
  define s4 where "s4 = (s3\<lparr>gs_generator := r3\<rparr>)\<lparr>calls := calls s3 @ [Batch_Row_Set_Int64 2 vol]\<rparr>"
  have ok4: "state_ok s4" unfolding s4_def using ok3 by (intro frame)
  obtain a r4 where a: "agent_of s4 = (Inr a, s4\<lparr>gs_generator := r4\<rparr>)" "Q a" using assms(5) [OF ok4] by blast
  define s5 where "s5 = (s4\<lparr>gs_generator := r4\<rparr>)\<lparr>calls := calls s4 @ [Batch_Row_Set_Int64 3 a]\<rparr>"
  have ok5: "state_ok s5" unfolding s5_def using ok4 by (intro frame)
  have six: "int (length counterparties) - 1 = 5" by (simp add: counterparties_def)
  obtain c r5 where c: "counterparty R s5 = (Inr c, s5\<lparr>gs_generator := r5\<rparr>)" "0 \<le> c" "c < 6"
    using draw_ok [OF assms(2), of 0 5 s5] unfolding counterparty_def six by auto
  define s6 where "s6 = (s5\<lparr>gs_generator := r5\<rparr>)\<lparr>calls := calls s5 @ [Batch_Row_Set_Int64 4 c]\<rparr>"
  have ok6: "state_ok s6" unfolding s6_def using ok5 by (intro frame)
  note good = seq_checked_good [OF assms(1)] checked_call_good [OF assms(1)]
  have "transaction db R volume_of agent_of ts s = (Inr (), s6)"
    unfolding transaction_def
    by (simp add: good s1_def [symmetric] seq_apply [of "security R", OF sec(1)] s2_def [symmetric] del: One_nat_def)
      (simp add: s3_def [symmetric] seq_apply [of volume_of, OF vol(1)] good s4_def [symmetric]
        seq_apply [of agent_of, OF a(1)] s5_def [symmetric] seq_apply [of "counterparty R", OF c(1)] s6_def [symmetric] del: One_nat_def)
  moreover have "calls s6 = calls s @ row_calls (ts, i, v, vol, a, c)"
    by (simp add: s6_def s5_def s4_def s3_def s2_def s1_def row_calls_def)
  ultimately show ?thesis using ok6 sec(2,3) vol(2) a(2) c(2,3) by blast
qed

lemma agents_count: "length agents = 3" "length counterparties = 6" "length securities = 30"
  by (simp_all add: agents_def counterparties_def securities_def)

lemma agent_ok: "fair_gen R \<Longrightarrow> \<exists>a r. agent R s = (Inr a, s\<lparr>gs_generator := r\<rparr>) \<and> 0 \<le> a \<and> a < 3"
  using draw_ok [of R 0 2 s] by (auto simp: agent_def agents_count)

lemma generated_row:
  assumes "never_fails db" and "fair_gen R" and "state_ok s"
  shows "\<exists>row s'. (if error then generate_error_transaction db R ts else generate_transaction db R ts) s = (Inr (), s') \<and>
    state_ok s' \<and> calls s' = calls s @ row_calls row \<and> row_ok error row \<and> fst row = ts"
proof (cases error)
  case True
  have "\<exists>a r. error_agent s = (Inr a, s\<lparr>gs_generator := r\<rparr>) \<and> a = 2" for s :: "('a, 'b) generator_state"
    by (intro exI [of _ 2] exI [of _ "gs_generator s"]) (simp add: error_agent_def agents_count)
  moreover have "\<exists>v r. error_volume R s = (Inr v, s\<lparr>gs_generator := r\<rparr>) \<and> 1000000000 \<le> v" if "state_ok s" for s
    using error_volume_ok [OF assms(2) that] by blast
  ultimately obtain sec v vol a c s' where t: "transaction db R (error_volume R) error_agent ts s = (Inr (), s')" "state_ok s'"
      "calls s' = calls s @ row_calls (ts, sec, v, vol, a, c)" "0 \<le> sec" "sec < 30" "0 \<le> c" "c < 6" "1000000000 \<le> vol" "a = 2"
    using transaction_good [OF assms, of "error_volume R" "\<lambda>v. 1000000000 \<le> v" error_agent "\<lambda>a. a = 2" ts] by blast
  then show ?thesis
    using True by (intro exI [of _ "(ts, sec, v, vol, a, c)"] exI [of _ s'])
      (simp add: generate_error_transaction_def row_ok_def agents_count)
next
  case False
  have "\<exists>v r. volume R s = (Inr v, s\<lparr>gs_generator := r\<rparr>) \<and> 10000 \<le> v \<and> v \<le> 1100000" if "state_ok s" for s
    using volume_ok [OF assms(2) that] by blast
  then obtain sec v vol a c s' where t: "transaction db R (volume R) (agent R) ts s = (Inr (), s')" "state_ok s'"
      "calls s' = calls s @ row_calls (ts, sec, v, vol, a, c)" "0 \<le> sec" "sec < 30" "0 \<le> c" "c < 6"
      "10000 \<le> vol \<and> vol \<le> 1100000" "0 \<le> a \<and> a < 3"
    using transaction_good [OF assms, of "volume R" "\<lambda>v. 10000 \<le> v \<and> v \<le> 1100000" "agent R" "\<lambda>a. 0 \<le> a \<and> a < 3" ts]
      agent_ok [OF assms(2)] by blast
  then show ?thesis
    using False by (intro exI [of _ "(ts, sec, v, vol, a, c)"] exI [of _ s'])
      (simp add: generate_transaction_def row_ok_def agents_count)
qed

lemma dated_of_nanos: "normal t \<Longrightarrow> 0 \<le> ts_sec t \<Longrightarrow> nanos t < 2 ^ 62 * ns_per_s \<Longrightarrow> dated t"
  by (cases t) (simp add: normal_def nanos_def dated_def ns_per_s_def)

text \<open>The rows of a day from the transaction number \<open>i\<close> on.\<close>

definition rows_ok :: "gen_config \<Rightarrow> u32 \<Rightarrow> nat \<Rightarrow> int \<Rightarrow> int \<Rightarrow> row list \<Rightarrow> bool" where
  "rows_ok cfg day i start increment rows \<longleftrightarrow> (\<forall>k<length rows. normal (fst (rows ! k)) \<and>
     nanos (fst (rows ! k)) = start + int k * increment \<and> row_ok (should_generate_error cfg day (of_nat (i + k))) (rows ! k))"

lemma day_rows_good:
  assumes "never_fails db" and "fair_gen R" and "state_ok s" and "normal ts" and "0 \<le> ts_sec ts"
    and "0 \<le> increment" and "increment < 2 ^ 62" and "nanos ts + int left * increment < 2 ^ 62 * ns_per_s"
  shows "\<exists>rows s'. day_rows db R cfg day increment i left ts s = (Inr (), s') \<and> state_ok s' \<and>
    calls s' = calls s @ concat (map row_calls rows) \<and> length rows = left \<and> rows_ok cfg day i (nanos ts) increment rows"
  using assms(3-5,8)
proof (induction left arbitrary: s ts i)
  case 0
  then show ?case by (simp add: rows_ok_def)
next
  case (Suc left)
  obtain row s1 where 1: "(if should_generate_error cfg day (of_nat i) then generate_error_transaction db R ts
        else generate_transaction db R ts) s = (Inr (), s1)" "state_ok s1" "calls s1 = calls s @ row_calls row"
      "row_ok (should_generate_error cfg day (of_nat i)) row" "fst row = ts"
    using generated_row [OF assms(1,2) Suc.prems(1)] by blast
  have pos: "0 \<le> int left * increment" using assms(6) by simp
  have e: "int (Suc left) * increment = increment + int left * increment" by (simp add: algebra_simps)
  then have last: "nanos ts + increment < 2 ^ 62 * ns_per_s"
      "nanos ts < 2 ^ 62 * ns_per_s"
    using Suc.prems(4) assms(6) pos unfolding e by linarith+
  have "dated ts" using Suc.prems(2,3) last(2) by (rule dated_of_nanos)
  then obtain t where t: "timespec_add ts increment = Some t" "normal t" "0 \<le> ts_sec t" "nanos t = nanos ts + increment"
    using timespec_add_nanos assms(6,7) by blast
  have rest: "nanos t + int left * increment < 2 ^ 62 * ns_per_s"
    using Suc.prems(4) t(4) unfolding e by linarith
  obtain rows s' where 2: "day_rows db R cfg day increment (Suc i) left t s1 = (Inr (), s')" "state_ok s'"
      "calls s' = calls s1 @ concat (map row_calls rows)" "length rows = left"
      "rows_ok cfg day (Suc i) (nanos t) increment rows"
    using Suc.IH [OF 1(2) t(2,3) rest] by blast
  have "rows_ok cfg day i (nanos ts) increment (row # rows)"
    unfolding rows_ok_def
  proof (intro allI impI)
    fix k
    assume "k < length (row # rows)"
    then show "normal (fst ((row # rows) ! k)) \<and> nanos (fst ((row # rows) ! k)) = nanos ts + int k * increment \<and>
        row_ok (should_generate_error cfg day (of_nat (i + k))) ((row # rows) ! k)"
      using 1(4,5) Suc.prems(2) 2(5) t(4) by (cases k) (auto simp: rows_ok_def algebra_simps)
  qed
  moreover have "day_rows db R cfg day increment i (Suc left) ts s = (Inr (), s')"
    unfolding day_rows.simps seq_def 1(1) by (simp add: t(1) 2(1))
  ultimately show ?case using 1(3) 2(2,3,4) by (intro exI [of _ "row # rows"] exI [of _ s']) simp
qed


subsection \<open>Days\<close>

definition weekday :: "int \<Rightarrow> bool" where
  "weekday n \<longleftrightarrow> day_of_week (from_day_number n) \<notin> {0, 6}"

lemma day_of_week_mod: "- 32044 \<le> n \<Longrightarrow> day_of_week (from_day_number n) = (n + 1) mod 7"
  using day_number_from_day_number [of n] by (metis day_of_week_day_number)

definition last_day :: int where
  "last_day = day_number (YMD 9999 12 31)"

lemma last_day_value: "last_day = 5373484"
  by (simp add: last_day_def day_number_def Let_def)

lemma year_ok_between:
  assumes "epoch_date \<le> n" and "n \<le> last_day"
  shows "year_ok n"
proof -
  have "day_number (YMD 1400 1 1) \<le> n" "- 32044 \<le> n"
    using assms(1) by (simp_all add: epoch_date_value day_number_def Let_def)
  then show ?thesis
    using year_of_day_number [of 1400 n 9999] assms(2) by (simp add: year_ok_def last_day_def)
qed

lemma week_step:
  "(x :: int) mod 7 = 0 \<Longrightarrow> (1 + x) mod 7 = 1" "(x :: int) mod 7 = 6 \<Longrightarrow> (1 + x) mod 7 = 0"
  "(x :: int) mod 7 = 6 \<Longrightarrow> (2 + x) mod 7 = 1"
  by presburger+

text \<open>No weekday is skipped.\<close>

lemma skip_weekend_ok:
  assumes "epoch_date \<le> n" and "n \<le> last_day"
  shows "\<exists>d. skip_weekend n s = (Inr d, s) \<and> n \<le> d \<and> d \<le> n + 2 \<and> weekday d \<and> (\<forall>m. n \<le> m \<and> m < d \<longrightarrow> \<not> weekday m)"
proof -
  have dow: "day_of_week (from_day_number m) = (m + 1) mod 7" if "n \<le> m" for m
    using that assms(1) by (intro day_of_week_mod) (simp add: epoch_date_value)
  have wd: "weekday m \<longleftrightarrow> (m + 1) mod 7 \<noteq> 0 \<and> (m + 1) mod 7 \<noteq> 6" if "n \<le> m" for m
    by (simp add: weekday_def dow [OF that])
  note skip = year_ok_between [OF assms] dow
  consider "(n + 1) mod 7 = 0" | "(n + 1) mod 7 = 6" | "(n + 1) mod 7 \<noteq> 0" "(n + 1) mod 7 \<noteq> 6" by blast
  then show ?thesis
  proof cases
    case 1
    then have "weekday (n + 1)" "\<not> weekday n" using week_step(1) [OF 1] by (simp_all add: wd add.commute)
    moreover have "m = n" if "n \<le> m" "m < n + 1" for m using that by simp
    ultimately show ?thesis using 1 skip by (intro exI [of _ "n + 1"]) (auto simp: skip_weekend_def)
  next
    case 2
    then have "weekday (n + 2)" "\<not> weekday (n + 1)" "\<not> weekday n" using week_step(2,3) [OF 2] by (simp_all add: wd add.commute)
    moreover have "m = n \<or> m = n + 1" if "n \<le> m" "m < n + 2" for m using that by arith
    ultimately show ?thesis using 2 skip by (intro exI [of _ "n + 2"]) (auto simp: skip_weekend_def)
  next
    case 3
    then show ?thesis using skip by (intro exI [of _ n]) (simp add: skip_weekend_def wd)
  qed
qed

definition day_ok :: "gen_config \<Rightarrow> u32 \<Rightarrow> int \<Rightarrow> row list \<Rightarrow> bool" where
  "day_ok cfg day d rows \<longleftrightarrow> (let n = unat (gc_iterations cfg) in
     n - n div 10 \<le> length rows \<and> length rows \<le> n \<and>
     rows_ok cfg day 0 (extract_seconds d * ns_per_s + 9 * one_hour) (8 * one_hour div int n) rows)"

definition block_calls :: "int \<times> row list \<Rightarrow> qdb_call list" where
  "block_calls b = concat (map row_calls (snd b)) @ [Batch_Push]"

lemma mult_div_le: "0 < (n :: int) \<Longrightarrow> n * (a div n) \<le> a"
  using mult_div_mod_eq [of n a] pos_mod_sign [of n a] by linarith

lemma one_day_good:
  assumes "never_fails db" and "fair_gen R" and "length (gs_securities s) = 30"
    and "epoch_date \<le> n" and "n + 2 \<le> last_day" and "0 < unat (gc_iterations cfg)"
  shows "\<exists>d rows s'. one_day db R cfg day n s = (Inr d, s') \<and> length (gs_securities s') = 30 \<and>
    calls s' = calls s @ block_calls (d, rows) \<and> n \<le> d \<and> d \<le> n + 2 \<and> weekday d \<and> day_ok cfg day d rows \<and>
    (\<forall>m. n \<le> m \<and> m < d \<longrightarrow> \<not> weekday m)"
proof -
  let ?N = "unat (gc_iterations cfg)"
  define inc where "inc = 8 * one_hour div int ?N"
  obtain d where d: "skip_weekend n s = (Inr d, s)" "n \<le> d" "d \<le> n + 2" "weekday d"
      "\<forall>m. n \<le> m \<and> m < d \<longrightarrow> \<not> weekday m"
    using skip_weekend_ok [of n s] assms(4,5) by auto
  have range: "epoch_date \<le> d" "d \<le> last_day" using d(2,3) assms(4,5) by linarith+
  have S: "0 \<le> extract_seconds d" "extract_seconds d \<le> 253402300800"
    using range by (simp_all add: extract_seconds_def epoch_date_value last_day_value)
  let ?t0 = "Timespec (extract_seconds d) 0"
  have "dated ?t0" using S by (simp add: dated_def normal_def ns_per_s_def)
  moreover have "(0::int) \<le> 9 * one_hour" "9 * one_hour < 2 ^ 62" by (simp_all add: one_hour_def ns_per_s_def)
  ultimately obtain ts where ts: "timespec_add ?t0 (9 * one_hour) = Some ts" "normal ts" "0 \<le> ts_sec ts"
      "nanos ts = nanos ?t0 + 9 * one_hour"
    using timespec_add_nanos by blast
  have start: "nanos ts = extract_seconds d * ns_per_s + 9 * one_hour" using ts(4) by (simp only: nanos_def timespec.sel)
  obtain s1 where s1: "randomize_max_volume R s = (Inr (), s1)" "state_ok s1" "calls s1 = calls s"
    using randomize_ok [OF assms(2,3)] by blast
  obtain c r where c: "iterations_count R ?N s1 = (Inr c, s1\<lparr>gs_generator := r\<rparr>)" "?N - ?N div 10 \<le> c" "c \<le> ?N"
    using iterations_count_ok [OF assms(2)] by blast
  let ?s2 = "s1\<lparr>gs_generator := r\<rparr>"
  have ok2: "state_ok ?s2" using s1(2) by (simp add: state_ok_def)
  have N: "0 < int ?N" by (simp only: of_nat_0_less_iff assms(6))
  have "0 \<le> inc" unfolding inc_def one_hour_def ns_per_s_def using N by (subst pos_imp_zdiv_nonneg_iff) simp_all
  moreover have all: "int ?N * inc \<le> 8 * one_hour" unfolding inc_def by (rule mult_div_le [OF N])
  moreover have "1 * inc \<le> int ?N * inc" using N \<open>0 \<le> inc\<close> by (intro mult_right_mono) simp_all
  ultimately have inc: "0 \<le> inc" "inc \<le> 8 * one_hour" by linarith+
  have "int c * inc \<le> int ?N * inc" by (rule mult_right_mono) (simp_all only: of_nat_le_iff c(3) inc(1))
  also note all
  finally have "nanos ts + int c * inc < 2 ^ 62 * ns_per_s"
    using S(2) by (simp add: start one_hour_def ns_per_s_def)
  moreover have "inc < 2 ^ 62" using inc(2) by (simp add: one_hour_def ns_per_s_def)
  ultimately obtain rows s3 where rows: "day_rows db R cfg day inc 0 c ts ?s2 = (Inr (), s3)" "state_ok s3"
      "calls s3 = calls ?s2 @ concat (map row_calls rows)" "length rows = c" "rows_ok cfg day 0 (nanos ts) inc rows"
    using day_rows_good [OF assms(1,2) ok2 ts(2,3) inc(1)] by blast
  have "one_day db R cfg day n s = (Inr d, s3\<lparr>calls := calls s3 @ [Batch_Push]\<rparr>)"
    unfolding one_day_def seq_def [of "skip_weekend n"] d(1) prod.case sum.case Let_def inc_def [symmetric]
    by (simp add: year_ok_between [OF range] seq_apply [of "give ()"] ts(1) seq_apply [of "randomize_max_volume R", OF s1(1)]
        seq_apply [of "iterations_count R ?N", OF c(1)] seq_apply [of "day_rows db R cfg day inc 0 c ts", OF rows(1)]
        push_to_db_def seq_checked_good [OF assms(1)])
  moreover have "length (gs_securities (s3\<lparr>calls := calls s3 @ [Batch_Push]\<rparr>)) = 30" using rows(2) by (simp add: state_ok_def)
  moreover have "calls (s3\<lparr>calls := calls s3 @ [Batch_Push]\<rparr>) = calls s @ block_calls (d, rows)"
    using rows(3) s1(3) by (simp add: block_calls_def)
  moreover have "day_ok cfg day d rows"
    using c(2,3) rows(4,5) by (simp add: day_ok_def Let_def start inc_def)
  ultimately show ?thesis using d(2-5) by blast
qed


lemma days_loop_good:
  assumes "never_fails db" and "fair_gen R" and "length (gs_securities s) = 30"
    and "epoch_date \<le> n" and "n + 3 * int left \<le> last_day + 1" and "0 < unat (gc_iterations cfg)"
  shows "\<exists>blocks s'. days_loop db R cfg days left n s = (Inr (), s') \<and> calls s' = calls s @ concat (map block_calls blocks) \<and>
    length blocks = left \<and> sorted_wrt (<) (map fst blocks) \<and>
    (\<forall>k<left. n \<le> fst (blocks ! k) \<and> weekday (fst (blocks ! k)) \<and>
      day_ok cfg (of_nat (days + k)) (fst (blocks ! k)) (snd (blocks ! k))) \<and>
    (\<forall>m b. n \<le> m \<and> weekday m \<and> b \<in> set blocks \<and> m \<le> fst b \<longrightarrow> m \<in> fst ` set blocks)"
  using assms(3-5)
proof (induction left arbitrary: days n s)
  case (Suc left)
  have "n + 2 \<le> last_day" using Suc.prems(3) by simp
  then obtain d rows s1 where 1: "one_day db R cfg (of_nat days) n s = (Inr d, s1)" "length (gs_securities s1) = 30"
      "calls s1 = calls s @ block_calls (d, rows)" "n \<le> d" "d \<le> n + 2" "weekday d" "day_ok cfg (of_nat days) d rows"
      "\<forall>m. n \<le> m \<and> m < d \<longrightarrow> \<not> weekday m"
    using one_day_good [OF assms(1,2) Suc.prems(1,2) _ assms(6)] by blast
  have "epoch_date \<le> d + 1" "d + 1 + 3 * int left \<le> last_day + 1" using Suc.prems(2,3) 1(4,5) by simp_all
  then obtain blocks s' where 2: "days_loop db R cfg (Suc days) left (d + 1) s1 = (Inr (), s')"
      "calls s' = calls s1 @ concat (map block_calls blocks)" "length blocks = left" "sorted_wrt (<) (map fst blocks)"
      "\<forall>k<left. d + 1 \<le> fst (blocks ! k) \<and> weekday (fst (blocks ! k)) \<and>
        day_ok cfg (of_nat (Suc days + k)) (fst (blocks ! k)) (snd (blocks ! k))"
      "\<forall>m b. d + 1 \<le> m \<and> weekday m \<and> b \<in> set blocks \<and> m \<le> fst b \<longrightarrow> m \<in> fst ` set blocks"
    using Suc.IH [OF 1(2), of "d + 1" "Suc days"] by blast
  let ?b = "(d, rows) # blocks"
  have later: "\<forall>b\<in>set blocks. d < fst b" using 2(3,5) by (fastforce simp: in_set_conv_nth)
  have "sorted_wrt (<) (map fst ?b)" using 2(4) later by simp
  moreover have "n \<le> fst (?b ! k) \<and> weekday (fst (?b ! k)) \<and> day_ok cfg (of_nat (days + k)) (fst (?b ! k)) (snd (?b ! k))"
    if "k < Suc left" for k
    using that 1(4,6,7) 2(5) by (cases k) auto
  then have "\<forall>k<Suc left. n \<le> fst (?b ! k) \<and> weekday (fst (?b ! k)) \<and>
      day_ok cfg (of_nat (days + k)) (fst (?b ! k)) (snd (?b ! k))" by blast
  moreover have "m \<in> fst ` set ?b" if "n \<le> m" "weekday m" "b \<in> set ?b" "m \<le> fst b" for m b
  proof (cases "m \<le> d")
    case True
    then show ?thesis using that(1,2) 1(8) by (cases "m = d") auto
  next
    case False
    then have "d + 1 \<le> m" "b \<in> set blocks" using that(3,4) by auto
    then have "m \<in> fst ` set blocks" using that(2,4) 2(6) by blast
    then show ?thesis by simp
  qed
  then have "\<forall>m b. n \<le> m \<and> weekday m \<and> b \<in> set ?b \<and> m \<le> fst b \<longrightarrow> m \<in> fst ` set ?b" by blast
  moreover have "days_loop db R cfg days (Suc left) n s = (Inr (), s')"
    using 2(1) unfolding days_loop.simps seq_def 1(1) by simp
  moreover have "calls s' = calls s @ concat (map block_calls ?b)" using 1(3) 2(2) by simp
  moreover have "length ?b = Suc left" using 2(3) by simp
  ultimately show ?case by (intro exI [of _ ?b] exI [of _ s'] conjI)
qed simp

lemma row_in_hours:
  assumes "day_ok cfg day d rows" and "row \<in> set rows"
  shows "day_of (fst row) = d \<and> extract_seconds d + 9 * 3600 \<le> ts_sec (fst row) \<and>
    ts_sec (fst row) < extract_seconds d + 17 * 3600"
proof -
  define N inc where "N = int (unat (gc_iterations cfg))" and "inc = 8 * one_hour div N"
  obtain k where k: "k < length rows" "row = rows ! k" using assms(2) by (auto simp: in_set_conv_nth)
  have le: "length rows \<le> unat (gc_iterations cfg)"
      and r: "rows_ok cfg day 0 (extract_seconds d * ns_per_s + 9 * one_hour) inc rows"
    using assms(1) by (simp_all only: day_ok_def Let_def N_def [symmetric] inc_def [symmetric])
  have kN: "int k + 1 \<le> N" using k(1) le unfolding N_def by linarith
  then have "0 < N" by linarith
  then have inc: "0 \<le> inc" "N * inc \<le> 8 * one_hour"
    unfolding inc_def by (simp_all add: pos_imp_zdiv_nonneg_iff one_hour_def ns_per_s_def mult_div_le)
  have "(int k + 1) * inc \<le> N * inc" using kN inc(1) by (rule mult_right_mono)
  then have "int k * inc + inc \<le> 8 * one_hour" using inc(2) by (simp add: algebra_simps)
  then have upper: "int k * inc < 8 * one_hour"
    using inc(1) by (cases "inc = 0") (simp_all add: one_hour_def ns_per_s_def)
  have t: "normal (fst row)" "nanos (fst row) = extract_seconds d * ns_per_s + 9 * one_hour + int k * inc"
    using r k by (simp_all add: rows_ok_def)
  have "0 \<le> int k * inc" using inc(1) by simp
  then have sec: "extract_seconds d + 9 * 3600 \<le> ts_sec (fst row)" "ts_sec (fst row) < extract_seconds d + 17 * 3600"
    using t upper by (simp_all add: normal_def nanos_def one_hour_def ns_per_s_def)
  have "ts_sec (fst row) div 86400 = d - epoch_date"
    using sec by (intro int_div_pos_eq [where r = "ts_sec (fst row) - extract_seconds d"]) (simp_all add: extract_seconds_def)
  then show ?thesis using sec by (simp add: day_of_def)
qed

lemma first_of_january:
  assumes "1970 \<le> y"
  shows "epoch_date \<le> day_number (YMD y 1 1)"
proof (cases "y = 1970")
  case False
  have v: "valid_date (YMD 1970 1 1)" "valid_date (YMD y 1 1)" by (simp_all add: valid_date_def end_of_month_day_def)
  have "ymd_less (YMD 1970 1 1) (YMD y 1 1)" using assms False by (simp add: ymd_less_def)
  then show ?thesis unfolding epoch_date_def using ymd_less_iff_day_number [OF v] by simp
qed (simp add: epoch_date_def)

text \<open>C17: When no call fails, the log of a year from 1970 on that ends before the year 10000 is one batch: for every day
  asked for a block of rows and a push. The days are the first weekdays of the year, in order; a day has between
  nine tenths of the iterations and all of them, evenly spaced from nine o'clock and all before seventeen o'clock
  of that day; the rows hold valid indices, and are erroneous exactly where an error is due; then the batch is
  released.\<close>

theorem generated_log:
  assumes "never_fails db" and "fair_gen R" and "1970 \<le> uint (gc_year cfg)" and "uint (gc_year cfg) \<le> 9999"
    and "day_number (YMD (uint (gc_year cfg)) 1 1) + 3 * int (unat (gc_days cfg)) \<le> last_day + 1"
    and "min_iterations \<le> gc_iterations cfg"
  shows "\<exists>blocks s'. generate_transaction_log db R cfg s = (Inr (), s') \<and>
    calls s' = calls s @ Batch_Table_Init (map (\<lambda>c. (table_name, c, gc_iterations cfg))
        [''security'', ''price'', ''volume'', ''agent'', ''counterparty'']) # concat (map block_calls blocks) @ [Release_Batch] \<and>
    length blocks = unat (gc_days cfg) \<and> sorted_wrt (<) (map fst blocks) \<and>
    (\<forall>k<length blocks. day_number (YMD (uint (gc_year cfg)) 1 1) \<le> fst (blocks ! k) \<and> weekday (fst (blocks ! k)) \<and>
      day_ok cfg (of_nat k) (fst (blocks ! k)) (snd (blocks ! k)) \<and>
      (\<forall>row\<in>set (snd (blocks ! k)). day_of (fst row) = fst (blocks ! k) \<and>
        extract_seconds (fst (blocks ! k)) + 9 * 3600 \<le> ts_sec (fst row) \<and>
        ts_sec (fst row) < extract_seconds (fst (blocks ! k)) + 17 * 3600)) \<and>
    (\<forall>m b. day_number (YMD (uint (gc_year cfg)) 1 1) \<le> m \<and> weekday m \<and> b \<in> set blocks \<and> m \<le> fst b \<longrightarrow> m \<in> fst ` set blocks)"
proof -
  let ?n = "day_number (YMD (uint (gc_year cfg)) 1 1)" and ?left = "unat (gc_days cfg)"
  let ?init = "Batch_Table_Init (map (\<lambda>c. (table_name, c, gc_iterations cfg))
        [''security'', ''price'', ''volume'', ''agent'', ''counterparty''])"
  define s1 where "s1 = s\<lparr>calls := calls s @ [?init]\<rparr>"
  define s2 where "s2 = s1\<lparr>gs_generator := seed_engine R (gc_seed cfg), gs_volume := (1, max_volume div min_volume),
     gs_securities := map (\<lambda>p. make_security_generator (fresh_normal R) (to_double p)) securities_start_price\<rparr>"
  have "length (gs_securities s2) = 30" by (simp add: s2_def securities_start_price_def)
  then obtain s3 where s3: "randomize_max_volume R s2 = (Inr (), s3)" "state_ok s3" "calls s3 = calls s2"
    using randomize_ok [OF assms(2)] by blast
  have made: "make_generator_state R (gc_seed cfg) s1 = (Inr (), s3)"
    using s3(1) by (simp add: make_generator_state_def s2_def)
  have "length (gs_securities s3) = 30" using s3(2) by (simp add: state_ok_def)
  moreover have "0 < unat (gc_iterations cfg)" using assms(6) by (simp add: min_iterations_def word_le_nat_alt)
  moreover note first_of_january [OF assms(3)]
  ultimately obtain blocks s4 where b: "days_loop db R cfg 0 ?left ?n s3 = (Inr (), s4)"
      "calls s4 = calls s3 @ concat (map block_calls blocks)" "length blocks = ?left" "sorted_wrt (<) (map fst blocks)"
      "\<forall>k<?left. ?n \<le> fst (blocks ! k) \<and> weekday (fst (blocks ! k)) \<and>
        day_ok cfg (of_nat (0 + k)) (fst (blocks ! k)) (snd (blocks ! k))"
      "\<forall>m b. ?n \<le> m \<and> weekday m \<and> b \<in> set blocks \<and> m \<le> fst b \<longrightarrow> m \<in> fst ` set blocks"
    using days_loop_good [OF assms(1,2) _ _ assms(5), of s3 cfg 0] by blast
  let ?s' = "s4\<lparr>calls := calls s4 @ [Release_Batch]\<rparr>"
  have "generate_transaction_log db R cfg s = (Inr (), ?s')"
    unfolding generate_transaction_log_def init_batch_table_def seq_checked_good [OF assms(1)] s1_def [symmetric]
    by (simp add: seq_apply [of "make_generator_state R (gc_seed cfg)", OF made] assms(3,4) order_trans [OF _ assms(3)]
        seq_apply [of "give ()"] seq_apply [of "days_loop db R cfg 0 ?left ?n", OF b(1)])
  moreover have "calls ?s' = calls s @ ?init # concat (map block_calls blocks) @ [Release_Batch]"
    using b(2) s3(3) by (simp add: s2_def s1_def)
  ultimately show ?thesis using b(3-6) row_in_hours by (intro exI [of _ blocks] exI [of _ ?s']) (auto simp del: list.map)
qed

theorem generated_log_witness:
  "\<exists>(blocks :: (int \<times> row list) list) s'. generate_transaction_log all_well least_gen
     config_defaults first_state = (Inr (), s') \<and> length blocks = 365 \<and> sorted_wrt (<) (map fst blocks) \<and>
     (\<forall>k<length blocks. weekday (fst (blocks ! k)))"
proof -
  have "1970 \<le> uint (gc_year config_defaults)" "uint (gc_year config_defaults) \<le> 9999"
      "day_number (YMD (uint (gc_year config_defaults)) 1 1) + 3 * int (unat (gc_days config_defaults)) \<le> last_day + 1"
      "min_iterations \<le> gc_iterations config_defaults" "unat (gc_days config_defaults) = 365"
    by (simp_all add: config_defaults_def last_day_value day_number_def Let_def)
  note options = this
  from generated_log [OF all_well_never_fails least_gen_fair options(1-4), of first_state] show ?thesis
  proof (elim exE conjE, goal_cases)
    case (1 blocks s')
    then show ?case using options(5) by (intro exI [of _ blocks] exI [of _ s']) simp
  qed
qed


subsection \<open>Failures\<close>

lemma seq_assoc: "seq (seq p f) g = seq p (\<lambda>x. seq (f x) g)"
  by (auto simp: fun_eq_iff seq_def split: prod.splits sum.splits)

lemma emits_draw: "emits A (draw R lo hi)"
  by (auto simp: emits_def draw_def split: prod.splits)

lemma emits_set_volume: "emits A (set_volume limits)"
  by (simp add: emits_def set_volume_def)

lemma emits_volume: "emits A (volume R)"
  unfolding emits_def volume_def using emits_draw emits_seq [OF emits_draw emits_give]
  by (metis emits_def)

lemma emits_security: "emits A (security R)"
proof -
  have "emits A (\<lambda>s. if nat i < length (gs_securities s)
     then case next_price R (gs_securities s ! nat i) (gs_generator s) of (v, sg, r) \<Rightarrow>
       (Inr (i, v), s\<lparr>gs_generator := r, gs_securities := (gs_securities s)[nat i := sg]\<rparr>)
     else (Inl Undefined_Behaviour, s))" for i
    by (auto simp: emits_def split: prod.splits if_splits)
  then show ?thesis unfolding security_def by (intro emits_seq emits_draw)
qed

lemma emits_randomize: "emits A (randomize_max_volume R)"
  unfolding randomize_max_volume_def by (intro emits_seq emits_draw emits_set_volume)

lemmas emits_state = emits_draw emits_set_volume emits_volume emits_security emits_randomize

lemma emits_make_state: "emits A (make_generator_state R seed)"
  using emits_randomize [of A R] by (fastforce simp: emits_def make_generator_state_def)

lemma emits_iterations_count: "emits A (iterations_count R m)"
  by (auto simp: iterations_count_def intro: emits_seq emits_draw)

lemma emits_transaction:
  assumes "emits A volume_of" and "emits A agent_of" and "\<And>c. c \<noteq> Release_Batch \<Longrightarrow> c \<in> A"
  shows "emits A (transaction db R volume_of agent_of ts)"
  unfolding transaction_def case_prod_beta
  by (intro emits_seq emits_checked_call assms(1,2) emits_security assms(3))
    (simp_all add: counterparty_def emits_draw emits_checked_call assms(3))

lemma emits_generated:
  assumes "\<And>c. c \<noteq> Release_Batch \<Longrightarrow> c \<in> A"
  shows "emits A (if e then generate_error_transaction db R ts else generate_transaction db R ts)"
  using assms unfolding generate_error_transaction_def generate_transaction_def error_volume_def agent_def error_agent_def
  by (auto intro!: emits_transaction emits_state emits_seq)

lemma emits_day_rows:
  assumes "\<And>c. c \<noteq> Release_Batch \<Longrightarrow> c \<in> A"
  shows "emits A (day_rows db R cfg day increment i left ts)"
proof (induction left arbitrary: i ts)
  case (Suc left)
  then show ?case
    unfolding day_rows.simps by (intro emits_seq emits_generated assms) (auto split: option.split)
qed (auto)

lemma emits_one_day:
  assumes "\<And>c. c \<noteq> Release_Batch \<Longrightarrow> c \<in> A"
  shows "emits A (one_day db R cfg day n)"
proof -
  have "emits A (skip_weekend n)" by (auto simp: skip_weekend_def)
  moreover have "emits A (push_to_db db)" by (simp add: push_to_db_def emits_checked_call assms)
  ultimately show ?thesis
    unfolding one_day_def Let_def
    by (intro emits_seq) (auto split: option.split intro!: emits_seq emits_state emits_iterations_count emits_day_rows [OF assms])
qed

lemma emits_days_loop:
  assumes "\<And>c. c \<noteq> Release_Batch \<Longrightarrow> c \<in> A"
  shows "emits A (days_loop db R cfg days left n)"
  by (induction left arbitrary: days n) (auto intro!: emits_seq emits_one_day [OF assms])

text \<open>C37: When anything fails while the log is generated, the exception leaves the batch table unreleased: no call
  releases it.\<close>

theorem failed_log_keeps_the_batch:
  assumes "generate_transaction_log db R cfg s = (Inl e, s')"
  shows "\<exists>cs. calls s' = calls s @ cs \<and> Release_Batch \<notin> set cs"
proof -
  define body where "body = seq (init_batch_table db cfg) (\<lambda>_.
     seq (make_generator_state R (gc_seed cfg)) (\<lambda>_.
     seq (if 1400 \<le> uint (gc_year cfg) \<and> uint (gc_year cfg) \<le> 9999 then give () else halt bad_year) (\<lambda>_.
     days_loop db R cfg 0 (unat (gc_days cfg)) (day_number (YMD (uint (gc_year cfg)) 1 1)))))"
  have log: "generate_transaction_log db R cfg = seq body (\<lambda>_. seq (call db Release_Batch) (\<lambda>_. give ()))"
    by (simp only: generate_transaction_log_def body_def seq_assoc)
  have "emits (- {Release_Batch}) body"
    unfolding body_def init_batch_table_def
    by (auto intro!: emits_seq emits_checked_call emits_make_state emits_days_loop)
  moreover have "body s = (Inl e, s')"
    using assms unfolding log by (auto simp: seq_def call_def split: prod.splits sum.splits)
  ultimately show ?thesis using emitsD [of "- {Release_Batch}" body s] by auto
qed

theorem failed_log_keeps_the_batch_witness:
  "\<exists>e s' cs. generate_transaction_log all_well least_gen (config_defaults\<lparr>gc_year := 1066\<rparr>) first_state = (Inl e, s') \<and>
     calls s' = calls first_state @ cs \<and> Release_Batch \<notin> set cs"
proof -
  let ?cfg = "config_defaults\<lparr>gc_year := 1066\<rparr>"
  have "\<exists>s'. generate_transaction_log all_well least_gen ?cfg first_state = (Inl bad_year, s')"
    unfolding generate_transaction_log_def init_batch_table_def seq_checked_good [OF all_well_never_fails]
    by (simp add: make_generator_state_def randomize_max_volume_def draw_def least_gen_def set_volume_def seq_def config_defaults_def)
  then show ?thesis using failed_log_keeps_the_batch by blast
qed

end
