(* ===== verification/Spec2Isabelle.thy ===== *)
theory Spec2Isabelle imports
  Share_Ledger
  Nasdaq_Session
  Itch_Feed
  Clock
  Files
  Humanize
  Simulator
  Generator_Properties
begin

text \<open>
  A model of the C++ programs of the trading desk demonstration and of the utilities they share
  (\<open>src/src\<close>), with what makes them correct.

  \<^bold>\<open>The programs.\<close> \<open>nasdaq_exec\<close> rebuilds the order book of a stock at a point in time: it reads the day's
  order flow from a database, resumes from a stored snapshot of the engine when there is one, runs the
  records on the engine, stores a snapshot and prints the books. The ITCH reader decodes the exchange's
  binary feed into the messages the flow is made of. \<open>simulator\<close> and \<open>generator\<close> fill the database with made
  up quotes, trades and transactions. The database client, the command line parser and the formatter are
  libraries the programs call: what the programs use of the client is an argument of the definitions.

  \<^bold>\<open>The theories.\<close>

  \<^item> \<open>Prelude\<close>, \<open>Doubles\<close>, \<open>Bytes\<close>, \<open>Tables\<close>: machine words, IEEE doubles as rationals with rounding to 53
    bits, loads and stores in the byte order of a host, and hash tables as entry lists behind the locale
    \<open>hash_table\<close>.
  \<^item> \<open>Itch_Tags\<close>, \<open>Itch_Messages\<close>, \<open>Itch_Feed\<close> (\<open>itch_messages.hpp\<close>): codes and sizes, the eleven decoders with
    the wire layout of each, and \<open>read_next_message\<close> with its queue. A feed is delivered in order,
    a reader ends on any bytes, and a message cut by the end of a buffer loses its length.
  \<^item> \<open>Itch_Engine\<close>, \<open>Engine_Contract\<close>, \<open>Engine_Invariants\<close>, \<open>Share_Ledger\<close> (\<open>itch_exec.hpp\<close>): the two order tables
    and every operation, the abstract market they refine, the invariants of reachable engines (locale
    \<open>engine_invariant\<close>), the conservation of shares.
  \<^item> \<open>Order_Books\<close>, \<open>Book_Printing\<close>: sorted and collapsed books, the rows and bars printed of them.
  \<^item> \<open>Snapshot_Codec\<close>: the engine as bytes, over the locale \<open>fixed_codec\<close>; any bytes that are read leave a
    well-formed engine.
  \<^item> \<open>Nasdaq_Exec\<close>, \<open>Nasdaq_Replay\<close>, \<open>Nasdaq_Properties\<close>, \<open>Nasdaq_Snapshots\<close>, \<open>Nasdaq_Market\<close>,
    \<open>Nasdaq_Session\<close> (\<open>nasdaq_exec.cpp\<close>): the driver, runs over a client that answers from a table, the theorems
    on whole runs, what one run leaves to the next, the refinement of the market by a run from end to end, and
    by every run of a day over one store of snapshots while orders arrive.
  \<^item> \<open>Timespec\<close>, \<open>Calendar\<close>, \<open>Stringify\<close>, \<open>Muldiv\<close>, \<open>Clock\<close>, \<open>Files\<close>, \<open>Humanize\<close> (\<open>src/src/utils\<close>): points in time,
    dates and UTC times, texts of integers and times, a product divided in 64 bits, the loops over clocks,
    file streams (locales \<open>stream_impl\<close> and \<open>exact_stream_impl\<close>) and mappings, numbers with a unit prefix.
  \<^item> \<open>Db_Client\<close>: the calls the simulator and the generator make to the database, the client's answers as an
    argument, and the programs with exceptions the two are written in, with what they call.
  \<^item> \<open>Quotes\<close>, \<open>Brokers\<close>, \<open>Traders\<close>, \<open>Simulator\<close> (\<open>src/src/simulator\<close>): generated prices, the master broker and
    the brokers with a margin, traders and their trades, and the program: a desk that trades round by round,
    or a fast generator of points. A market stays well formed, trades are made on the quotes asked for, the
    calls of a whole run are counted, and the fast generator inserts every point.
  \<^item> \<open>Generator\<close>, \<open>Generator_Properties\<close> (\<open>src/src/generator\<close>): the transaction log of a year, its days, times,
    volumes and erroneous rows.

  \<^bold>\<open>Conventions.\<close> A thrown exception is the left value of a sum; \<open>None\<close> of an option is undefined behaviour,
  an access outside a buffer or a failed assertion unless a definition says otherwise. Assertions are those
  of a debug build: the model ends where one fails, and a theorem that a call returns shows that none does.
  Unsigned integers are words, signed 64-bit counts of time are integers with the range checked by \<open>i64\<close>; the
  date library's 32-bit day numbers and 16-bit years are checked when a date is taken out of a time. Hash tables are visited in an order the
  theorems do not depend on. The loop that pushes a message is a partial function, shown to return when
  refusals are temporary; the loop of the fast generator is one too, shown to return for every number of
  points its options admit; the loops over a clock take the list of its readings; all other loops are total.
  The fuel of \<open>read_all\<close>, which is not code but a client of the reader, is one more than the number of
  frames, and the theorem on it shows that this is enough.

  \<^bold>\<open>Clients and hosts.\<close> What a theorem on the driver needs of the database is a hypothesis on the client:
  \<open>serves\<close> for the rows of a table, \<open>answers_blobs\<close> for the stored blobs, \<open>database\<close> for both as a day goes on. The
  client \<open>db_api\<close> is the instance of the witnesses. Theorems that restore a snapshot are about little-endian
  hosts, on others the reader of \<open>itch_exec.hpp\<close> misreads what the writer has written. Random draws are fair
  (\<open>fair_random\<close>, \<open>fair_gen\<close>), and files of the C library answer as its documentation says (\<open>file_ok\<close>).

  \<^bold>\<open>Not modelled.\<close> Text output and its layout, elapsed times, the parsing of command lines, allocation
  failures (so the reservation of the entries a snapshot announces, \<open>itch_exec.hpp\<close> line 88, has no effect), the
  release of the client's memory, the local time zone, and the random engines, seeds and distributions of the
  C++ library, which are arguments with the bounds of a draw as the only hypothesis. The C library's \<open>gmtime\<close> is
  the calendar of \<open>Calendar\<close> on any integer; the theorems use it for the years 0 to 9999, where its fields
  fit. The log is shown for years from 1970 to 9999. The alias \<open>message_type_by_code\<close> of \<open>itch_messages.hpp\<close>
  cannot be instantiated and is left out; the list it searches is \<open>code_to_message_map\<close>.
\<close>

end
